(* ===== verification/Grizol_Prelude.thy ===== *)
theory Grizol_Prelude
  imports Main "HOL-Library.Word"
begin

text \<open>
  Shared vocabulary of the development.

  \<^item> \<open>result\<close> is the outcome of a Rust function: \<open>Ok\<close> and \<open>Err\<close> are the two
    constructors of \<^verbatim>\<open>Result\<close>, and \<open>Panic\<close> is a panic (a failed \<^verbatim>\<open>unwrap\<close>,
    \<^verbatim>\<open>expect\<close> or \<^verbatim>\<open>assert!\<close>, a slice out of range, an arithmetic overflow in a build
    with overflow checks).
  \<^item> byte strings are lists of 8-bit words; \<open>from_be_bytes\<close> and \<open>to_be_bytes\<close> are the
    big-endian conversions of \<^verbatim>\<open>u16\<close>, \<^verbatim>\<open>u32\<close> and \<^verbatim>\<open>u64\<close>.
  \<^item> \<open>slice\<close> and \<open>copy_from_slice\<close> are the Rust slice operations on vectors and arrays.
  \<^item> Rust strings are byte strings in UTF-8, which is HOL's \<open>string\<close>: \<open>length\<close> is
    \<^verbatim>\<open>str::len\<close>.
\<close>

section \<open>Collections of rules\<close>

named_theorems result_simps \<open>equations that evaluate the outcome combinators\<close>
named_theorems wf_intros \<open>preservation of the well-formedness predicates\<close>
named_theorems slice_simps \<open>slices and copies of vectors\<close>

section \<open>Outcomes of Rust functions\<close>

type_synonym u8 = "8 word"
type_synonym u64 = "64 word"
type_synonym bytes = "u8 list"

datatype ('a, 'e) result = Ok (ok_val: 'a) | Err (err_val: 'e) | Panic

text \<open>The \<^verbatim>\<open>?\<close> operator and sequencing: an error or a panic ends the function.\<close>

fun and_then :: "('a, 'e) result \<Rightarrow> ('a \<Rightarrow> ('b, 'e) result) \<Rightarrow> ('b, 'e) result" where
  "and_then (Ok a) f = f a"
| "and_then (Err e) f = Err e"
| "and_then Panic f = Panic"

fun map_ok :: "('a \<Rightarrow> 'b) \<Rightarrow> ('a, 'e) result \<Rightarrow> ('b, 'e) result" where
  "map_ok f (Ok a) = Ok (f a)"
| "map_ok f (Err e) = Err e"
| "map_ok f Panic = Panic"

fun is_ok :: "('a, 'e) result \<Rightarrow> bool" where
  "is_ok (Ok _) = True"
| "is_ok _ = False"

text \<open>Sequencing of steps on a state that survives errors: the new state is returned in any case.\<close>

fun io_then :: "'s \<times> ('a, 'e) result \<Rightarrow> ('s \<Rightarrow> 'a \<Rightarrow> 's \<times> ('b, 'e) result) \<Rightarrow> 's \<times> ('b, 'e) result" where
  "io_then (s, Ok a) f = f s a"
| "io_then (s, Err e) f = (s, Err e)"
| "io_then (s, Panic) f = (s, Panic)"

text \<open>\<^verbatim>\<open>Option::unwrap\<close>, \<^verbatim>\<open>Option::ok_or\<close> and \<^verbatim>\<open>assert!\<close>.\<close>

fun unwrap_opt :: "'a option \<Rightarrow> ('a, 'e) result" where
  "unwrap_opt (Some a) = Ok a"
| "unwrap_opt None = Panic"

fun ok_or :: "'a option \<Rightarrow> 'e \<Rightarrow> ('a, 'e) result" where
  "ok_or (Some a) e = Ok a"
| "ok_or None e = Err e"

definition assert_that :: "bool \<Rightarrow> (unit, 'e) result" where
  "assert_that b = (if b then Ok () else Panic)"

text \<open>Subtraction of \<^verbatim>\<open>usize\<close> values panics on underflow.\<close>

definition checked_sub :: "nat \<Rightarrow> nat \<Rightarrow> (nat, 'e) result" where
  "checked_sub a b = (if b \<le> a then Ok (a - b) else Panic)"

text \<open>The values of \<^verbatim>\<open>i32\<close> and \<^verbatim>\<open>i64\<close>.\<close>

definition in_int32 :: "int \<Rightarrow> bool" where
  "in_int32 i \<longleftrightarrow> - (2 ^ 31) \<le> i \<and> i < 2 ^ 31"

definition in_int64 :: "int \<Rightarrow> bool" where
  "in_int64 i \<longleftrightarrow> - (2 ^ 63) \<le> i \<and> i < 2 ^ 63"

declare and_then.simps [result_simps] map_ok.simps [result_simps]
  unwrap_opt.simps [result_simps] ok_or.simps [result_simps]

lemma and_then_eq_Ok [simp]:
  "and_then r f = Ok b \<longleftrightarrow> (\<exists>a. r = Ok a \<and> f a = Ok b)"
  by (cases r) auto

lemma map_ok_eq_Ok [simp]:
  "map_ok f r = Ok b \<longleftrightarrow> (\<exists>a. r = Ok a \<and> b = f a)"
  by (cases r) auto

lemma io_then_eq_Ok:
  "io_then r f = (s, Ok b) \<longleftrightarrow> (\<exists>s' a. r = (s', Ok a) \<and> f s' a = (s, Ok b))"
  by (cases r, cases "snd r") auto

lemma io_then_eq_Err:
  "io_then r f = (s, Err e) \<longleftrightarrow> r = (s, Err e) \<or> (\<exists>s' a. r = (s', Ok a) \<and> f s' a = (s, Err e))"
  by (cases r, cases "snd r") auto

lemma and_then_Ok_right [simp]: "and_then r Ok = r"
  by (cases r) auto

lemma and_then_assoc: "and_then (and_then r f) g = and_then r (\<lambda>a. and_then (f a) g)"
  by (cases r) auto

lemma and_then_map_ok [simp]: "and_then (map_ok f r) g = and_then r (\<lambda>a. g (f a))"
  by (cases r) auto

lemma assert_that_simps [simp]:
  "b \<Longrightarrow> assert_that b = Ok ()"
  "\<not> b \<Longrightarrow> assert_that b = Panic"
  by (simp_all add: assert_that_def)

lemma assert_that_eq_Ok [simp]: "assert_that b = Ok u \<longleftrightarrow> b"
  by (simp add: assert_that_def)

lemma checked_sub_Ok [simp]: "b \<le> a \<Longrightarrow> checked_sub a b = Ok (a - b)"
  by (simp add: checked_sub_def)

lemma checked_sub_eq_Ok: "checked_sub a b = Ok n \<longleftrightarrow> b \<le> a \<and> n = a - b"
  by (auto simp: checked_sub_def)

lemma unwrap_opt_eq_Ok [simp]: "unwrap_opt x = Ok a \<longleftrightarrow> x = Some a"
  by (cases x) auto

lemma and_then_eq_Err [simp]:
  "and_then r f = Err e \<longleftrightarrow> r = Err e \<or> (\<exists>a. r = Ok a \<and> f a = Err e)"
  by (cases r) auto

lemma map_ok_eq_Err [simp]: "map_ok f r = Err e \<longleftrightarrow> r = Err e"
  by (cases r) auto

lemma and_then_eq_Panic:
  "and_then r f = Panic \<longleftrightarrow> r = Panic \<or> (\<exists>a. r = Ok a \<and> f a = Panic)"
  by (cases r) auto

lemma map_ok_eq_Panic: "map_ok f r = Panic \<longleftrightarrow> r = Panic"
  by (cases r) auto

lemma unwrap_opt_eq_Panic: "unwrap_opt x = Panic \<longleftrightarrow> x = None"
  by (cases x) auto

lemma ok_or_not_Panic: "ok_or x e \<noteq> Panic"
  by (cases x) auto

lemmas panic_simps = and_then_eq_Panic map_ok_eq_Panic unwrap_opt_eq_Panic ok_or_not_Panic

lemma unwrap_opt_not_Err [simp]: "unwrap_opt x \<noteq> Err e"
  by (cases x) auto

lemma ok_or_eq_Err [simp]: "ok_or x e = Err e' \<longleftrightarrow> x = None \<and> e' = e"
  by (cases x) auto

lemma checked_sub_not_Err [simp]: "checked_sub a b \<noteq> Err e"
  by (simp add: checked_sub_def)

section \<open>Slices\<close>

text \<open>\<open>slice xs i j\<close> is \<^verbatim>\<open>&xs[i..j]\<close>: it panics unless \<open>i \<le> j \<le> length xs\<close>.\<close>

definition slice :: "'a list \<Rightarrow> nat \<Rightarrow> nat \<Rightarrow> ('a list, 'e) result" where
  "slice xs i j =
     (if i \<le> j \<and> j \<le> length xs then Ok (take (j - i) (drop i xs)) else Panic)"

text \<open>
  \<open>copy_from_slice dst i src\<close> is \<^verbatim>\<open>dst[i..i + src.len()].copy_from_slice(src)\<close>, which
  panics when the target range is out of bounds.
\<close>

definition copy_from_slice :: "'a list \<Rightarrow> nat \<Rightarrow> 'a list \<Rightarrow> ('a list, 'e) result" where
  "copy_from_slice dst i src =
     (if i + length src \<le> length dst
      then Ok (take i dst @ src @ drop (i + length src) dst) else Panic)"

text \<open>Indexed store \<^verbatim>\<open>xs[i] = v\<close> and indexed read \<^verbatim>\<open>xs[i]\<close>.\<close>

definition store_at :: "'a list \<Rightarrow> nat \<Rightarrow> 'a \<Rightarrow> ('a list, 'e) result" where
  "store_at xs i v = (if i < length xs then Ok (xs[i := v]) else Panic)"

definition read_at :: "'a list \<Rightarrow> nat \<Rightarrow> ('a, 'e) result" where
  "read_at xs i = (if i < length xs then Ok (xs ! i) else Panic)"

lemma slice_Ok [slice_simps]:
  "i \<le> j \<Longrightarrow> j \<le> length xs \<Longrightarrow> slice xs i j = Ok (take (j - i) (drop i xs))"
  by (simp add: slice_def)

lemma slice_not_Err [simp]: "slice xs i j \<noteq> Err e"
  by (simp add: slice_def)

lemma slice_prefix [slice_simps]:
  "j \<le> length xs \<Longrightarrow> slice xs 0 j = Ok (take j xs)"
  by (simp add: slice_def)

lemma copy_from_slice_Ok [slice_simps]:
  "i + length src \<le> length dst \<Longrightarrow>
   copy_from_slice dst i src = Ok (take i dst @ src @ drop (i + length src) dst)"
  by (simp add: copy_from_slice_def)

lemma store_at_Ok [slice_simps]: "i < length xs \<Longrightarrow> store_at xs i v = Ok (xs[i := v])"
  by (simp add: store_at_def)

lemma read_at_Ok [slice_simps]: "i < length xs \<Longrightarrow> read_at xs i = Ok (xs ! i)"
  by (simp add: read_at_def)

text \<open>A \<^verbatim>\<open>for i in 0..n\<close> loop whose body may fail.\<close>

fun for_each :: "'b list \<Rightarrow> ('b \<Rightarrow> 's \<Rightarrow> ('s, 'e) result) \<Rightarrow> 's \<Rightarrow> ('s, 'e) result" where
  "for_each [] body s = Ok s"
| "for_each (x # xs) body s = and_then (body x s) (for_each xs body)"

lemma for_each_append:
  "for_each (xs @ ys) body s = and_then (for_each xs body s) (for_each ys body)"
  by (induction xs arbitrary: s) (auto simp: and_then_assoc intro: arg_cong [where f = "and_then _"])

lemma for_each_invariant:
  assumes "for_each xs body s = Ok s'" and "P s"
    and "\<And>x s s'. x \<in> set xs \<Longrightarrow> P s \<Longrightarrow> body x s = Ok s' \<Longrightarrow> P s'"
  shows "P s'"
  using assms by (induction xs arbitrary: s) auto

lemma for_each_no_panic:
  assumes "P s"
    and "\<And>x s. x \<in> set xs \<Longrightarrow> P s \<Longrightarrow> body x s \<noteq> Panic"
    and "\<And>x s s'. x \<in> set xs \<Longrightarrow> P s \<Longrightarrow> body x s = Ok s' \<Longrightarrow> P s'"
  shows "for_each xs body s \<noteq> Panic"
  using assms
proof (induction xs arbitrary: s)
  case Nil
  then show ?case by simp
next
  case (Cons x xs)
  then show ?case
    by (cases "body x s") (auto, metis)
qed

section \<open>Big-endian integers\<close>

definition from_be_bytes :: "bytes \<Rightarrow> nat" where
  "from_be_bytes bs = foldl (\<lambda>n b. n * 256 + unat b) 0 bs"

fun to_be_bytes :: "nat \<Rightarrow> nat \<Rightarrow> bytes" where
  "to_be_bytes 0 n = []"
| "to_be_bytes (Suc k) n = to_be_bytes k (n div 256) @ [of_nat (n mod 256)]"

lemma length_to_be_bytes [simp]: "length (to_be_bytes k n) = k"
  by (induction k arbitrary: n) auto

lemma from_be_bytes_Nil [simp]: "from_be_bytes [] = 0"
  by (simp add: from_be_bytes_def)

lemma from_be_bytes_snoc [simp]:
  "from_be_bytes (bs @ [b]) = from_be_bytes bs * 256 + unat b"
  by (simp add: from_be_bytes_def)

lemma unat_byte_less [simp]: "unat (b :: u8) < 256"
  using unsigned_less [where ?'a = nat, of b] by simp

lemma from_be_bytes_bound: "from_be_bytes bs < 256 ^ length bs"
proof (induction bs rule: rev_induct)
  case Nil
  then show ?case by simp
next
  case (snoc b bs)
  have "from_be_bytes bs * 256 + unat b < (from_be_bytes bs + 1) * 256"
    by (simp add: unat_byte_less)
  also have "\<dots> \<le> 256 ^ length bs * 256"
    using snoc.IH by (intro mult_le_mono1) simp
  finally show ?case by simp
qed

lemma unat_of_nat_byte: "unat (of_nat (n mod 256) :: u8) = n mod 256"
  by (simp add: unat_of_nat)

lemma from_to_be_bytes [simp]: "n < 256 ^ k \<Longrightarrow> from_be_bytes (to_be_bytes k n) = n"
proof (induction k arbitrary: n)
  case 0
  then show ?case by simp
next
  case (Suc k)
  have "n div 256 < 256 ^ k"
    using Suc.prems by (simp add: less_mult_imp_div_less mult.commute)
  then show ?case
    using Suc.IH by (simp add: unat_of_nat_byte)
qed

lemma to_from_be_bytes: "to_be_bytes (length bs) (from_be_bytes bs) = bs"
proof (induction bs rule: rev_induct)
  case Nil
  then show ?case by simp
next
  case (snoc b bs)
  have "(from_be_bytes bs * 256 + unat b) div 256 = from_be_bytes bs"
    by simp
  moreover have "(from_be_bytes bs * 256 + unat b) mod 256 = unat b"
    by simp
  ultimately show ?case
    using snoc.IH by simp
qed

section \<open>Residues\<close>

lemma mod_add_cancel_nat:
  fixes a b k m :: nat
  assumes "(a + k) mod m = (b + k) mod m"
  shows "a mod m = b mod m"
proof (cases m)
  case 0
  with assms show ?thesis by simp
next
  case (Suc n)
  have "(a + k + n * k) mod m = (b + k + n * k) mod m"
    using assms by (rule mod_add_cong) simp
  then have "(a + m * k) mod m = (b + m * k) mod m"
    by (simp add: Suc algebra_simps)
  then show ?thesis by simp
qed

lemma complement_mod_inj:
  fixes a b m :: nat
  assumes "a < m" and "b < m" and "(m - a) mod m = (m - b) mod m"
  shows "a = b"
proof -
  have "(m - x) mod m = (if x = 0 then 0 else m - x)" if "x < m" for x
    using that by simp
  with assms show ?thesis
    by (auto split: if_splits)
qed

end
