(* ===== verification/Device_Id.thy ===== *)
theory Device_Id
  imports Grizol_Prelude
begin

text \<open>
  Device identifiers (\<^verbatim>\<open>src/src/device_id.rs\<close>): 32 bytes, printed as base 32 with one
  check character after every 13 characters and a dash after every 7, and read back from
  that form.

  The base 32 coder is the crate \<^verbatim>\<open>data_encoding\<close>; it is a parameter of the two
  conversions, and the locale \<open>base32_codec\<close> states what they rely on.  Its interpretation
  is in \<open>Base32_Reference\<close>.  The integers of \<open>luhn32\<close> are \<^verbatim>\<open>u32\<close>; they are natural
  numbers here and \<open>luhn32_sum_bound\<close> shows that they cannot overflow.
\<close>

section \<open>Definitions\<close>

definition DEVICE_ID_LEN :: nat where
  "DEVICE_ID_LEN = 32"

record device_id =
  dev_bytes :: bytes

datatype device_id_error =
    NotAscii
  | UnsupportedLength nat
  | InvalidChar char
  | IncorrectCheckDigit nat char char
  | Base32Error
  | WrongByteLength nat

definition LUHN_BASE32 :: "char list" where
  "LUHN_BASE32 = ''ABCDEFGHIJKLMNOPQRSTUVWXYZ234567''"

definition codepoint32 :: "char \<Rightarrow> (nat, device_id_error) result" where
  "codepoint32 b =
     (if of_char CHR ''A'' \<le> (of_char b :: nat) \<and> of_char b \<le> (of_char CHR ''Z'' :: nat)
      then Ok (of_char b - of_char CHR ''A'')
      else if of_char CHR ''2'' \<le> (of_char b :: nat) \<and> of_char b \<le> (of_char CHR ''7'' :: nat)
      then Ok (of_char b + 26 - of_char CHR ''2'')
      else Err (InvalidChar b))"

text \<open>The loop of \<^verbatim>\<open>luhn32\<close>, with its variables \<^verbatim>\<open>factor\<close> and \<^verbatim>\<open>sum\<close> (here \<open>acc\<close>).\<close>

fun luhn32_loop :: "nat \<Rightarrow> nat \<Rightarrow> char list \<Rightarrow> (nat, device_id_error) result" where
  "luhn32_loop factor acc [] = Ok acc"
| "luhn32_loop factor acc (c # s) =
     and_then (codepoint32 c) (\<lambda>codepoint.
       let addend = factor * codepoint;
           factor' = (if factor = 2 then 1 else 2);
           addend' = addend div 32 + addend mod 32
       in luhn32_loop factor' (acc + addend') s)"

definition luhn32 :: "char list \<Rightarrow> (char, device_id_error) result" where
  "luhn32 s =
     and_then (luhn32_loop 1 0 s) (\<lambda>acc.
       let remainder = acc mod 32; check_codepoint = (32 - remainder) mod 32
       in read_at LUHN_BASE32 check_codepoint)"

text \<open>One round of the loops of \<^verbatim>\<open>luhnify\<close>, \<^verbatim>\<open>unluhnify\<close> and \<^verbatim>\<open>chunkify\<close>.\<close>

definition luhnify_block :: "string \<Rightarrow> nat \<Rightarrow> string \<Rightarrow> (string, device_id_error) result" where
  "luhnify_block s i res =
     and_then (slice s (i * 13) ((i + 1) * 13)) (\<lambda>p.
     and_then (copy_from_slice res (i * 14) p) (\<lambda>res.
     and_then (luhn32 p) (\<lambda>l.
     store_at res ((i + 1) * 14 - 1) l)))"

definition luhnify :: "string \<Rightarrow> (string, device_id_error) result" where
  "luhnify s =
     (if length s \<noteq> 52 then Err (UnsupportedLength (length s))
      else for_each [0..<4] (luhnify_block s) (replicate 56 CHR ''0''))"

definition unluhnify_block :: "string \<Rightarrow> nat \<Rightarrow> string \<Rightarrow> (string, device_id_error) result" where
  "unluhnify_block s i res =
     and_then (slice s (i * 14) ((i + 1) * 14 - 1)) (\<lambda>p.
     and_then (copy_from_slice res (i * 13) p) (\<lambda>res.
     and_then (luhn32 p) (\<lambda>l.
     let check_pos = (i + 1) * 14 - 1 in
     and_then (read_at s check_pos) (\<lambda>c.
     if c \<noteq> l then Err (IncorrectCheckDigit check_pos c l) else Ok res))))"

definition unluhnify :: "string \<Rightarrow> (string, device_id_error) result" where
  "unluhnify s =
     (if length s \<noteq> 56 then Err (UnsupportedLength (length s))
      else for_each [0..<4] (unluhnify_block s) (replicate 52 CHR ''0''))"

definition chunkify_chunk :: "string \<Rightarrow> nat \<Rightarrow> string \<Rightarrow> (string, device_id_error) result" where
  "chunkify_chunk s i res =
     and_then (if 0 < i then store_at res (i * 8 - 1) CHR ''-'' else Ok res) (\<lambda>res.
     and_then (slice s (i * 7) (min ((i + 1) * 7) (length s))) (\<lambda>chunk.
     copy_from_slice res (i * 8) chunk))"

definition chunkify :: "string \<Rightarrow> (string, device_id_error) result" where
  "chunkify s =
     (let chunks = length s div 7 in
      and_then (checked_sub (chunks * 8) 1) (\<lambda>n.
      for_each [0..<chunks] (chunkify_chunk s) (replicate n CHR ''0'')))"

definition trim_end_matches :: "char \<Rightarrow> string \<Rightarrow> string" where
  "trim_end_matches c s = rev (dropWhile (\<lambda>x. x = c) (rev s))"

text \<open>\<^verbatim>\<open>Display\<close>; the \<^verbatim>\<open>expect\<close> on \<^verbatim>\<open>luhnify\<close> turns its error into a panic.\<close>

definition device_id_to_string ::
    "(bytes \<Rightarrow> string) \<Rightarrow> device_id \<Rightarrow> (string, device_id_error) result" where
  "device_id_to_string base32_encode d =
     (case luhnify (trim_end_matches CHR ''='' (base32_encode (dev_bytes d))) of
        Ok res \<Rightarrow> chunkify res
      | _ \<Rightarrow> Panic)"

definition char_code :: "char \<Rightarrow> nat" where
  "char_code c = of_char c"

definition is_ascii :: "string \<Rightarrow> bool" where
  "is_ascii s = list_all (\<lambda>c. char_code c < 128) s"

definition to_ascii_uppercase :: "char \<Rightarrow> char" where
  "to_ascii_uppercase c =
     (if char_code CHR ''a'' \<le> char_code c \<and> char_code c \<le> char_code CHR ''z''
      then char_of (char_code c - 32) else c)"

definition replace_typos :: "char \<Rightarrow> char" where
  "replace_typos c =
     (if c = CHR ''0'' then CHR ''O'' else if c = CHR ''1'' then CHR ''I''
      else if c = CHR ''8'' then CHR ''B'' else c)"

definition normalize_id :: "string \<Rightarrow> string" where
  "normalize_id value =
     map replace_typos
       (filter (\<lambda>c. c \<noteq> CHR ''-'' \<and> c \<noteq> CHR '' '') (map to_ascii_uppercase value))"

definition device_id_try_from_str ::
    "(string \<Rightarrow> bytes option) \<Rightarrow> string \<Rightarrow> (device_id, device_id_error) result" where
  "device_id_try_from_str base32_decode value =
     (if \<not> is_ascii value then Err NotAscii
      else
        and_then (unluhnify (normalize_id value)) (\<lambda>value.
        and_then (ok_or (base32_decode (value @ ''===='')) Base32Error) (\<lambda>dec.
        if length dec = DEVICE_ID_LEN then Ok \<lparr>dev_bytes = dec\<rparr> else Panic)))"

definition device_id_try_from_bytes :: "bytes \<Rightarrow> (device_id, device_id_error) result" where
  "device_id_try_from_bytes input =
     (if length input \<noteq> DEVICE_ID_LEN then Err (WrongByteLength (length input))
      else Ok \<lparr>dev_bytes = take DEVICE_ID_LEN input\<rparr>)"

definition device_id_to_bytes :: "device_id \<Rightarrow> bytes" where
  "device_id_to_bytes d = dev_bytes d"

definition device_id_to_u64 :: "device_id \<Rightarrow> (u64, 'e) result" where
  "device_id_to_u64 d = map_ok (\<lambda>bs. of_nat (from_be_bytes bs)) (slice (dev_bytes d) 0 8)"

text \<open>The identifier of a certificate is its SHA-256 digest; the hash is a parameter.\<close>

definition device_id_from_cert :: "(bytes \<Rightarrow> bytes) \<Rightarrow> bytes \<Rightarrow> device_id" where
  "device_id_from_cert sha256 cert = \<lparr>dev_bytes = sha256 cert\<rparr>"

definition device_id_wf :: "device_id \<Rightarrow> bool" where
  "device_id_wf d \<longleftrightarrow> length (dev_bytes d) = DEVICE_ID_LEN"

section \<open>The check character\<close>

text \<open>The contribution of one code point, which is a bijection of \<open>{0..<32}\<close>.\<close>

definition luhn_digit :: "nat \<Rightarrow> nat \<Rightarrow> nat" where
  "luhn_digit factor codepoint =
     (factor * codepoint) div 32 + (factor * codepoint) mod 32"

lemma luhn_digit_double: "c < 32 \<Longrightarrow> luhn_digit 2 c = (if c < 16 then 2 * c else 2 * c - 31)"
proof (cases "c < 16")
  case False
  moreover assume "c < 32"
  ultimately have "2 * c div 32 = 1" and "2 * c mod 32 = 2 * c - 32"
    using div_nat_eqI [of 32 1 "2 * c"] le_mod_geq [of 32 "2 * c"] by auto
  with False show ?thesis by (simp add: luhn_digit_def)
qed (simp add: luhn_digit_def)

lemma luhn_digit_less: "f \<in> {1, 2} \<Longrightarrow> c < 32 \<Longrightarrow> luhn_digit f c < 32"
  by (auto simp: luhn_digit_double) (simp add: luhn_digit_def)

lemma luhn_digit_inj:
  "f \<in> {1, 2} \<Longrightarrow> c < 32 \<Longrightarrow> c' < 32 \<Longrightarrow> luhn_digit f c = luhn_digit f c' \<Longrightarrow> c = c'"
  by (auto simp: luhn_digit_double split: if_splits; (simp add: luhn_digit_def | arith)?)

lemma length_LUHN_BASE32 [simp]: "length LUHN_BASE32 = 32"
  by (simp add: LUHN_BASE32_def)

lemma distinct_LUHN_BASE32: "distinct LUHN_BASE32"
  by (simp add: LUHN_BASE32_def)

lemma codepoint32_less: "codepoint32 c = Ok n \<Longrightarrow> n < 32"
  by (auto simp: codepoint32_def split: if_splits)

lemma codepoint32_no_panic: "codepoint32 c \<noteq> Panic"
  by (simp add: codepoint32_def)

lemma codepoint32_inj:
  assumes "codepoint32 c = Ok n" and "codepoint32 c' = Ok n"
  shows "c = c'"
proof -
  have "char_code c = char_code c'"
    using assms unfolding codepoint32_def char_code_def [symmetric]
    by (simp split: if_splits) (auto simp: char_code_def)
  then show ?thesis
    by (simp only: char_code_def of_char_eq_iff)
qed

lemma codepoint32_LUHN_BASE32:
  "c \<in> set LUHN_BASE32 \<Longrightarrow> \<exists>n. codepoint32 c = Ok n"
  by (auto simp: LUHN_BASE32_def codepoint32_def)

lemma luhn32_loop_Cons:
  "luhn32_loop f s (c # cs) =
     and_then (codepoint32 c) (\<lambda>n. luhn32_loop (if f = 2 then 1 else 2) (s + luhn_digit f n) cs)"
  by (simp add: luhn_digit_def Let_def)

declare luhn32_loop.simps(2) [simp del]

lemma luhn32_loop_shift:
  "luhn32_loop f s cs = map_ok (\<lambda>r. s + r) (luhn32_loop f 0 cs)"
proof (induction cs arbitrary: f s)
  case Nil
  then show ?case by simp
next
  case (Cons c cs)
  show ?case
  proof (cases "codepoint32 c")
    case (Ok n)
    let ?f = "if f = 2 then 1 else 2 :: nat"
    have "luhn32_loop ?f (s + luhn_digit f n) cs
        = map_ok (\<lambda>r. s + r) (luhn32_loop ?f (luhn_digit f n) cs)"
      using Cons.IH [of ?f "s + luhn_digit f n"] Cons.IH [of ?f "luhn_digit f n"]
      by (cases "luhn32_loop ?f 0 cs") (auto simp: add.assoc)
    then show ?thesis
      using Ok by (simp add: luhn32_loop_Cons)
  qed (simp_all add: luhn32_loop_Cons)
qed

lemma luhn32_loop_total:
  "set cs \<subseteq> set LUHN_BASE32 \<Longrightarrow> \<exists>r. luhn32_loop f s cs = Ok r"
proof (induction cs arbitrary: f s)
  case Nil
  then show ?case by simp
next
  case (Cons c cs)
  then obtain n where "codepoint32 c = Ok n"
    using codepoint32_LUHN_BASE32 [of c] by auto
  then show ?case
    using Cons by (auto simp: luhn32_loop_Cons)
qed

lemma luhn32_sum_bound:
  "f \<in> {1, 2} \<Longrightarrow> luhn32_loop f s cs = Ok r \<Longrightarrow> r \<le> s + 31 * length cs"
proof (induction cs arbitrary: f s)
  case Nil
  then show ?case by simp
next
  case (Cons c cs)
  from Cons.prems(2) obtain n where n: "codepoint32 c = Ok n"
    and r: "luhn32_loop (if f = 2 then 1 else 2) (s + luhn_digit f n) cs = Ok r"
    by (auto simp: luhn32_loop_Cons)
  have "luhn_digit f n \<le> 31"
    using luhn_digit_less [OF Cons.prems(1) codepoint32_less [OF n]] by simp
  moreover have "r \<le> s + luhn_digit f n + 31 * length cs"
    using Cons.IH [OF _ r] by auto
  ultimately show ?case by simp
qed

lemma luhn32_total:
  assumes "set p \<subseteq> set LUHN_BASE32"
  obtains l where "luhn32 p = Ok l" and "l \<in> set LUHN_BASE32"
proof -
  obtain r where "luhn32_loop 1 0 p = Ok r"
    using luhn32_loop_total [OF assms] by blast
  then have "luhn32 p = Ok (LUHN_BASE32 ! ((32 - r mod 32) mod 32))"
    by (simp add: luhn32_def Let_def read_at_def)
  then show thesis
    using that nth_mem [of "(32 - r mod 32) mod 32" LUHN_BASE32] by simp
qed

lemma luhn32_no_panic: "luhn32 p \<noteq> Panic"
proof -
  have "luhn32_loop f s p \<noteq> Panic" for f s
  proof (induction p arbitrary: f s)
    case (Cons c p)
    then show ?case
      using codepoint32_no_panic [of c] by (cases "codepoint32 c") (auto simp: luhn32_loop_Cons)
  qed simp
  then show ?thesis
    by (cases "luhn32_loop 1 0 p") (auto simp: luhn32_def Let_def read_at_def)
qed

text \<open>Two sums that differ modulo 32 keep differing over the same rest of the string.\<close>

lemma luhn32_loop_suffix:
  assumes "luhn32_loop f s cs = Ok r" and "luhn32_loop f s' cs = Ok r'"
    and "s mod 32 \<noteq> s' mod 32"
  shows "r mod 32 \<noteq> r' mod 32"
proof -
  obtain k where "luhn32_loop f 0 cs = Ok k"
    using assms(1) luhn32_loop_shift [of f s cs] by auto
  then have "r = s + k" and "r' = s' + k"
    using assms(1,2) luhn32_loop_shift [of f s cs] luhn32_loop_shift [of f s' cs] by auto
  then show ?thesis
    using assms(3) mod_add_cancel_nat by blast
qed

lemma luhn32_loop_substitution:
  assumes "f \<in> {1, 2}" and "j < length cs" and "c \<noteq> cs ! j"
    and "luhn32_loop f s cs = Ok r" and "luhn32_loop f s (cs[j := c]) = Ok r'"
  shows "r mod 32 \<noteq> r' mod 32"
  using assms
proof (induction cs arbitrary: f s j)
  case Nil
  then show ?case by simp
next
  case (Cons d cs)
  let ?f = "if f = 2 then 1 else 2 :: nat"
  show ?case
  proof (cases j)
    case 0
    with Cons.prems obtain m n where m: "codepoint32 d = Ok m" and n: "codepoint32 c = Ok n"
      and r: "luhn32_loop ?f (s + luhn_digit f m) cs = Ok r"
      and r': "luhn32_loop ?f (s + luhn_digit f n) cs = Ok r'"
      by (auto simp: luhn32_loop_Cons)
    have "luhn_digit f m \<noteq> luhn_digit f n"
      using Cons.prems(1,3) 0 m n luhn_digit_inj codepoint32_inj codepoint32_less
      by (metis nth_Cons_0)
    then have "(s + luhn_digit f m) mod 32 \<noteq> (s + luhn_digit f n) mod 32"
      using luhn_digit_less [OF Cons.prems(1) codepoint32_less [OF m]]
        luhn_digit_less [OF Cons.prems(1) codepoint32_less [OF n]]
        mod_add_cancel_nat [of "luhn_digit f m" s 32 "luhn_digit f n"]
      by (auto simp: add.commute)
    with r r' show ?thesis
      by (rule luhn32_loop_suffix)
  next
    case (Suc i)
    with Cons.prems obtain m where "codepoint32 d = Ok m"
      and "luhn32_loop ?f (s + luhn_digit f m) cs = Ok r"
      and "luhn32_loop ?f (s + luhn_digit f m) (cs[i := c]) = Ok r'"
      by (auto simp: luhn32_loop_Cons)
    with Cons.prems Suc show ?thesis
      by (intro Cons.IH [of ?f i "s + luhn_digit f m"]) auto
  qed
qed

lemma luhn32_substitution:
  assumes "j < length p" and "c \<noteq> p ! j" and "luhn32 p = Ok l"
  shows "luhn32 (p[j := c]) \<noteq> Ok l"
proof
  assume "luhn32 (p[j := c]) = Ok l"
  then obtain r' where r': "luhn32_loop 1 0 (p[j := c]) = Ok r'"
    and l': "l = LUHN_BASE32 ! ((32 - r' mod 32) mod 32)"
    by (auto simp: luhn32_def Let_def read_at_def)
  obtain r where r: "luhn32_loop 1 0 p = Ok r"
    and l: "l = LUHN_BASE32 ! ((32 - r mod 32) mod 32)"
    using assms(3) by (auto simp: luhn32_def Let_def read_at_def)
  have "(32 - r mod 32) mod 32 = (32 - r' mod 32) mod 32"
    using l l' nth_eq_iff_index_eq [OF distinct_LUHN_BASE32,
      of "(32 - r mod 32) mod 32" "(32 - r' mod 32) mod 32"] by simp
  then have "r mod 32 = r' mod 32"
    by (rule complement_mod_inj [rotated 2]) simp_all
  moreover have "r mod 32 \<noteq> r' mod 32"
    using luhn32_loop_substitution [OF _ assms(1,2) r r'] by simp
  ultimately show False by simp
qed

section \<open>Blocks of 13 and 14 characters\<close>

definition data_block :: "nat \<Rightarrow> string \<Rightarrow> string" where
  "data_block i s = take 13 (drop (13 * i) s)"

definition checked_block :: "nat \<Rightarrow> string \<Rightarrow> string" where
  "checked_block i s = take 14 (drop (14 * i) s)"

lemma length_data_block: "length s = 52 \<Longrightarrow> i < 4 \<Longrightarrow> length (data_block i s) = 13"
  by (simp add: data_block_def)

lemma luhnify_block_step:
  assumes "length s = 52" and "i < 4" and "length pre = 14 * i"
  shows "luhnify_block s i (pre @ replicate (14 * (4 - i)) CHR ''0'') =
    map_ok (\<lambda>l. (pre @ data_block i s @ [l]) @ replicate (14 * (4 - Suc i)) CHR ''0'')
      (luhn32 (data_block i s))"
proof -
  have "slice s (i * 13) ((i + 1) * 13) = (Ok (data_block i s) :: (string, device_id_error) result)"
    using assms by (simp add: slice_def data_block_def mult.commute)
  moreover have "14 * (4 - i) = 14 + 14 * (4 - Suc i)"
    using assms(2) by simp
  ultimately show ?thesis
    using assms length_data_block [OF assms(1,2)]
    by (cases "luhn32 (data_block i s)")
       (simp_all add: luhnify_block_def copy_from_slice_def store_at_def list_update_append
          replicate_add mult.commute)
qed

lemma luhnify_prefix:
  assumes "length s = 52" and "n \<le> 4" and "\<And>i. i < n \<Longrightarrow> luhn32 (data_block i s) = Ok (l i)"
  shows "for_each [0..<n] (luhnify_block s) (replicate 56 CHR ''0'') =
    Ok (concat (map (\<lambda>i. data_block i s @ [l i]) [0..<n]) @ replicate (14 * (4 - n)) CHR ''0'')"
  using assms(2,3)
proof (induction n)
  case 0
  then show ?case by simp
next
  case (Suc n)
  have "length (concat (map (\<lambda>i. data_block i s @ [l i]) [0..<k])) = 14 * k" if "k \<le> n" for k
    using that Suc.prems(1)
    by (induction k) (simp_all add: length_data_block [OF assms(1)])
  then show ?case
    using Suc luhnify_block_step [OF assms(1), of n]
    by (simp add: for_each_append)
qed

lemma luhnify_Ok:
  assumes "length s = 52" and "\<And>i. i < 4 \<Longrightarrow> luhn32 (data_block i s) = Ok (l i)"
  shows "luhnify s = Ok (concat (map (\<lambda>i. data_block i s @ [l i]) [0..<4]))"
  using luhnify_prefix [OF assms(1) order_refl assms(2)] assms(1) by (simp add: luhnify_def)

lemma unluhnify_block_step:
  assumes "length s = 56" and "i < 4" and "length pre = 13 * i"
  shows "unluhnify_block s i (pre @ replicate (13 * (4 - i)) CHR ''0'') =
    and_then (luhn32 (take 13 (checked_block i s))) (\<lambda>l.
      if s ! (14 * i + 13) \<noteq> l
      then Err (IncorrectCheckDigit (14 * i + 13) (s ! (14 * i + 13)) l)
      else Ok ((pre @ take 13 (checked_block i s)) @ replicate (13 * (4 - Suc i)) CHR ''0''))"
proof -
  have "slice s (i * 14) ((i + 1) * 14 - 1) =
      (Ok (take 13 (checked_block i s)) :: (string, device_id_error) result)"
    using assms by (simp add: slice_def checked_block_def mult.commute)
  moreover have "13 * (4 - i) = 13 + 13 * (4 - Suc i)"
    using assms(2) by simp
  moreover have "length (take 13 (checked_block i s)) = 13"
    using assms by (simp add: checked_block_def)
  moreover have "read_at s ((i + 1) * 14 - 1) =
      (Ok (s ! (14 * i + 13)) :: (char, device_id_error) result)"
    using assms by (simp add: read_at_def add.commute mult.commute)
  ultimately show ?thesis
    using assms
    by (cases "luhn32 (take 13 (checked_block i s))")
       (simp_all add: unluhnify_block_def copy_from_slice_def replicate_add mult.commute Let_def
          add.commute)
qed

lemma unluhnify_prefix:
  assumes "length s = 56" and "n \<le> 4"
  shows "for_each [0..<n] (unluhnify_block s) (replicate 52 CHR ''0'') = Ok v \<longleftrightarrow>
    (\<forall>i < n. luhn32 (take 13 (checked_block i s)) = Ok (s ! (14 * i + 13))) \<and>
    v = concat (map (\<lambda>i. take 13 (checked_block i s)) [0..<n]) @ replicate (13 * (4 - n)) CHR ''0''"
  using assms(2)
proof (induction n arbitrary: v)
  case 0
  then show ?case by auto
next
  case (Suc n)
  have len: "length (concat (map (\<lambda>i. take 13 (checked_block i s)) [0..<k])) = 13 * k"
    if "k \<le> n" for k
    using that Suc.prems assms(1) by (induction k) (simp_all add: checked_block_def)
  show ?case
    using Suc len [of n] unluhnify_block_step [OF assms(1), of n]
    by (auto simp: for_each_append less_Suc_eq split: if_splits)
qed

text \<open>\<open>unluhnify\<close> accepts exactly the strings whose four blocks carry their check character.\<close>

lemma unluhnify_eq_Ok:
  "unluhnify s = Ok v \<longleftrightarrow> length s = 56 \<and>
     (\<forall>i < 4. luhn32 (take 13 (checked_block i s)) = Ok (s ! (14 * i + 13))) \<and>
     v = concat (map (\<lambda>i. take 13 (checked_block i s)) [0..<4])"
  using unluhnify_prefix [of s 4 v] by (auto simp: unluhnify_def)

section \<open>Dashes\<close>

text \<open>The reference result of \<open>chunkify\<close> after \<open>i\<close> rounds.\<close>

fun dashed :: "nat \<Rightarrow> string \<Rightarrow> string" where
  "dashed 0 s = []"
| "dashed (Suc i) s = dashed i s @ (if i = 0 then [] else ''-'') @ take 7 (drop (7 * i) s)"

lemma length_dashed: "7 * i \<le> length s \<Longrightarrow> length (dashed i s) = 8 * i - 1"
  by (induction i) auto

lemma chunkify_chunk_step:
  assumes "7 * Suc i \<le> length s"
  shows "chunkify_chunk s i (dashed i s @ replicate ((if i = 0 then 7 else 8) + m) CHR ''0'') =
    Ok (dashed (Suc i) s @ replicate m CHR ''0'')"
proof (cases i)
  case 0
  with assms show ?thesis
    by (simp add: chunkify_chunk_def slice_def copy_from_slice_def replicate_add min_def)
next
  case (Suc j)
  let ?D = "dashed i s" and ?c = "take 7 (drop (i * 7) s)" and ?Z = "replicate m CHR ''0''"
  have eight: "replicate (8 + m) CHR ''0'' = CHR ''0'' # replicate 7 CHR ''0'' @ ?Z"
    by (simp add: replicate_add numeral_eq_Suc)
  have len: "length ?D = i * 8 - 1" and pos: "0 < i"
    using assms length_dashed [of i s] Suc by simp_all
  have "store_at (?D @ CHR ''0'' # replicate 7 CHR ''0'' @ ?Z) (i * 8 - 1) CHR ''-'' =
      (Ok (?D @ CHR ''-'' # replicate 7 CHR ''0'' @ ?Z) :: (string, device_id_error) result)"
    by (simp add: store_at_def list_update_append len)
  moreover have "slice s (i * 7) (min ((i + 1) * 7) (length s)) =
      (Ok ?c :: (string, device_id_error) result)"
    using assms by (simp add: slice_def)
  moreover have "copy_from_slice (?D @ CHR ''-'' # replicate 7 CHR ''0'' @ ?Z) (i * 8) ?c =
      (Ok (?D @ CHR ''-'' # ?c @ ?Z) :: (string, device_id_error) result)"
    using assms pos len by (simp add: copy_from_slice_def)
  ultimately show ?thesis
    using pos by (simp add: chunkify_chunk_def eight mult.commute)
qed

lemma chunkify_prefix:
  assumes "7 * n \<le> length s" and "n \<le> k"
  shows "for_each [0..<n] (chunkify_chunk s) (replicate (8 * k - 1) CHR ''0'') =
    Ok (dashed n s @ replicate (8 * k - 1 - (8 * n - 1)) CHR ''0'')"
  using assms
proof (induction n)
  case 0
  then show ?case by simp
next
  case (Suc n)
  have "8 * k - 1 - (8 * n - 1) =
      (if n = 0 then 7 else 8) + (8 * k - 1 - (8 * Suc n - 1))"
    using Suc.prems(2) by auto
  with Suc chunkify_chunk_step [of n s "8 * k - 1 - (8 * Suc n - 1)"] show ?case
    by (simp add: for_each_append del: dashed.simps)
qed

lemma chunkify_Ok:
  assumes "length s = 7 * k" and "0 < k"
  shows "chunkify s = Ok (dashed k s)"
  using chunkify_prefix [of k s k] assms
  by (simp add: chunkify_def Let_def mult.commute)

lemma chunkify_short: "length s < 7 \<Longrightarrow> chunkify s = Panic"
  by (simp add: chunkify_def checked_sub_def)

lemma filter_dashed:
  assumes "\<And>c. c \<in> set s \<Longrightarrow> P c" and "\<not> P CHR ''-''"
  shows "filter P (dashed k s) = take (7 * k) s"
proof (induction k)
  case 0
  then show ?case by simp
next
  case (Suc k)
  have "filter P (take 7 (drop (7 * k) s)) = take 7 (drop (7 * k) s)"
    using assms(1) by (intro filter_True) (meson in_set_dropD in_set_takeD)
  then show ?case
    using Suc assms(2) take_add [of "7 * k" 7 s] by (simp add: add.commute)
qed

lemma set_dashed: "set (dashed k s) \<subseteq> insert CHR ''-'' (set s)"
  by (induction k) (auto dest: in_set_takeD in_set_dropD)

section \<open>Printing and reading back\<close>

text \<open>What the two conversions rely on of the base 32 coder.\<close>

locale base32_codec =
  fixes base32_encode :: "bytes \<Rightarrow> string"
    and base32_decode :: "string \<Rightarrow> bytes option"
  assumes decode_encode: "base32_decode (base32_encode bs) = Some bs"
    and encode_shape: "length bs = 32 \<Longrightarrow>
      \<exists>body. base32_encode bs = body @ ''===='' \<and> length body = 52 \<and> set body \<subseteq> set LUHN_BASE32"

lemma trim_end_matches_pad:
  "c \<notin> set body \<Longrightarrow> trim_end_matches c (body @ replicate n c) = body"
proof -
  assume "c \<notin> set body"
  moreover have "dropWhile (\<lambda>x. x = c) (replicate n c @ ys) = dropWhile (\<lambda>x. x = c) ys" for ys
    by (induction n) auto
  ultimately show ?thesis
    by (cases "rev body") (auto simp: trim_end_matches_def rev_swap)
qed

lemma alphabet_normalized:
  assumes "c \<in> set LUHN_BASE32"
  shows "to_ascii_uppercase c = c" and "replace_typos c = c" and "char_code c < 128"
    and "c \<noteq> CHR ''-''" and "c \<noteq> CHR '' ''" and "c \<noteq> CHR ''=''"
  using assms
  by (auto simp: LUHN_BASE32_def to_ascii_uppercase_def replace_typos_def char_code_def)

lemma normalize_dashed:
  assumes "set s \<subseteq> set LUHN_BASE32" and "length s = 7 * k"
  shows "normalize_id (dashed k s) = s"
proof -
  have "map to_ascii_uppercase (dashed k s) = dashed k s"
  proof (rule map_idI)
    fix c
    assume "c \<in> set (dashed k s)"
    then consider "c = CHR ''-''" | "c \<in> set LUHN_BASE32"
      using assms(1) set_dashed [of k s] by blast
    then show "to_ascii_uppercase c = c"
      by cases (simp_all add: alphabet_normalized(1), simp add: to_ascii_uppercase_def char_code_def)
  qed
  moreover have "filter (\<lambda>c. c \<noteq> CHR ''-'' \<and> c \<noteq> CHR '' '') (dashed k s) = s"
    using assms filter_dashed [of s "\<lambda>c. c \<noteq> CHR ''-'' \<and> c \<noteq> CHR '' ''" k] alphabet_normalized(4,5)
    by auto
  moreover have "map replace_typos s = s"
    using assms(1) alphabet_normalized(2) by (intro map_idI) auto
  ultimately show ?thesis
    by (simp add: normalize_id_def)
qed

lemma is_ascii_dashed:
  "set s \<subseteq> set LUHN_BASE32 \<Longrightarrow> is_ascii (dashed k s)"
  using set_dashed [of k s] alphabet_normalized(3)
  by (force simp: is_ascii_def list_all_iff char_code_def)

text \<open>\<open>unluhnify\<close> undoes \<open>luhnify\<close>, and \<open>luhnify\<close> stays inside the alphabet.\<close>

lemma data_blocks_concat:
  "length s = 52 \<Longrightarrow> concat (map (\<lambda>i. data_block i s) [0..<4]) = s"
proof -
  assume "length s = 52"
  moreover have "concat (map (\<lambda>i. data_block i s) [0..<n]) = take (13 * n) s" for n
    by (induction n) (simp_all add: data_block_def take_add [symmetric] add.commute)
  ultimately show ?thesis by simp
qed

lemma luhnify_alphabet:
  assumes "length s = 52" and "set s \<subseteq> set LUHN_BASE32"
  obtains t where "luhnify s = Ok t" and "length t = 56" and "set t \<subseteq> set LUHN_BASE32"
    and "unluhnify t = Ok s"
proof -
  have sub: "set (data_block i s) \<subseteq> set LUHN_BASE32" for i
    using assms(2) by (auto simp: data_block_def dest: in_set_takeD in_set_dropD)
  have "\<exists>l. luhn32 (data_block i s) = Ok l \<and> l \<in> set LUHN_BASE32" for i
    using luhn32_total [OF sub [of i]] by blast
  then obtain l where l: "\<And>i. luhn32 (data_block i s) = Ok (l i)"
    and lset: "\<And>i. l i \<in> set LUHN_BASE32"
    by metis
  define t where "t = concat (map (\<lambda>i. data_block i s @ [l i]) [0..<4])"
  have len: "length (data_block i s) = 13" if "i < 4" for i
    using length_data_block [OF assms(1) that] .
  have t: "t = (data_block 0 s @ [l 0]) @ (data_block 1 s @ [l 1]) @ (data_block 2 s @ [l 2])
      @ (data_block 3 s @ [l 3])"
    by (simp add: t_def numeral_eq_Suc)
  have "length t = 56" by (simp add: t len)
  moreover have block: "checked_block i t = data_block i s @ [l i]" if "i < 4" for i
  proof -
    from that consider "i = 0" | "i = 1" | "i = 2" | "i = 3" by linarith
    then show ?thesis
      by cases (simp_all add: checked_block_def t len)
  qed
  moreover have "t ! (14 * i + 13) = l i" if "i < 4" for i
  proof -
    have "checked_block i t ! 13 = l i"
      using that block len by (simp add: nth_append)
    then show ?thesis
      using that \<open>length t = 56\<close> by (simp add: checked_block_def)
  qed
  moreover have "map (\<lambda>i. take 13 (checked_block i t)) [0..<4] = map (\<lambda>i. data_block i s) [0..<4]"
    using block len by simp
  ultimately have "unluhnify t = Ok s"
    using data_blocks_concat [OF assms(1)] l len
    by (simp only: unluhnify_eq_Ok) simp
  moreover have "luhnify s = Ok t"
    unfolding t_def by (rule luhnify_Ok [OF assms(1)]) (rule l)
  moreover have "set t \<subseteq> set LUHN_BASE32"
    using sub lset by (auto simp: t_def)
  ultimately show thesis
    using that \<open>length t = 56\<close> by blast
qed

context base32_codec
begin

lemma to_string_try_from:
  assumes "device_id_wf d"
  obtains s where "device_id_to_string base32_encode d = Ok s" and "length s = 63"
    and "device_id_try_from_str base32_decode s = Ok d"
proof -
  have len: "length (dev_bytes d) = 32"
    using assms by (simp add: device_id_wf_def DEVICE_ID_LEN_def)
  then obtain body where body: "base32_encode (dev_bytes d) = body @ ''===='' "
    "length body = 52" "set body \<subseteq> set LUHN_BASE32"
    using encode_shape by blast
  obtain t where t: "luhnify body = Ok t" "length t = 56" "set t \<subseteq> set LUHN_BASE32"
    "unluhnify t = Ok body"
    using luhnify_alphabet [OF body(2,3)] by blast
  have "trim_end_matches CHR ''='' (base32_encode (dev_bytes d)) = body"
    using trim_end_matches_pad [of "CHR ''=''" body 4] body(1,3) alphabet_normalized(6)
    by (auto simp: numeral_eq_Suc)
  then have "device_id_to_string base32_encode d = Ok (dashed 8 t)"
    using t chunkify_Ok [of t 8] by (simp add: device_id_to_string_def)
  moreover have "length (dashed 8 t) = 63"
    using length_dashed [of 8 t] t(2) by simp
  moreover have "device_id_try_from_str base32_decode (dashed 8 t) = Ok d"
    using is_ascii_dashed [OF t(3)] normalize_dashed [OF t(3), of 8] t decode_encode len
    by (simp add: device_id_try_from_str_def body(1) [symmetric] DEVICE_ID_LEN_def)
  ultimately show thesis
    using that by blast
qed

end

section \<open>Detection of single wrong characters\<close>

lemma unluhnify_block_length:
  assumes "length s = 56" and "i < 4" and "length res = 52"
  shows "unluhnify_block s i res \<noteq> Panic"
    and "unluhnify_block s i res = Ok res' \<Longrightarrow> length res' = 52"
  using assms luhn32_no_panic [of "take 13 (drop (i * 14) s)"]
  by (cases "luhn32 (take 13 (drop (i * 14) s))";
      auto simp: unluhnify_block_def slice_def copy_from_slice_def read_at_def Let_def
        split: if_splits)+

lemma unluhnify_no_panic: "unluhnify s \<noteq> Panic"
proof (cases "length s = 56")
  case True
  have "for_each [0..<4] (unluhnify_block s) (replicate 52 CHR ''0'') \<noteq> Panic"
  proof (rule for_each_no_panic [of "\<lambda>res. length res = 52"])
    show "length (replicate 52 CHR ''0'') = 52" by (rule length_replicate)
  next
    fix i res
    assume "i \<in> set [0..<4]" and res: "length (res :: string) = 52"
    then have "i < 4" by simp
    then show "unluhnify_block s i res \<noteq> Panic"
      by (rule unluhnify_block_length(1) [OF True _ res])
    show "length res' = 52" if "unluhnify_block s i res = Ok res'" for res'
      by (rule unluhnify_block_length(2) [OF True \<open>i < 4\<close> res that])
  qed
  with True show ?thesis by (simp add: unluhnify_def)
qed (simp add: unluhnify_def)

lemma checked_block_update:
  "checked_block (j div 14) (s[j := c]) = (checked_block (j div 14) s)[j mod 14 := c]"
proof -
  have "drop (14 * (j div 14)) (s[j := c]) = (drop (14 * (j div 14)) s)[j mod 14 := c]"
    by (simp add: drop_update_swap minus_mult_div_eq_mod)
  then show ?thesis
    by (simp add: checked_block_def take_update_swap)
qed

text \<open>
  Claim C33. The check characters detect every single wrong character: if \<open>unluhnify\<close> accepts
  a string, then it rejects (with an error, not a panic) every string that differs from it in
  exactly one position, be it a data character or a check character.
\<close>

theorem unluhnify_detects_substitution:
  assumes "unluhnify s = Ok v" and "j < length s" and "c \<noteq> s ! j"
  shows "\<exists>e. unluhnify (s[j := c]) = Err e"
proof -
  define i where "i = j div 14"
  have len: "length s = 56" and "i < 4"
    and blocks: "\<And>k. k < 4 \<Longrightarrow> luhn32 (take 13 (checked_block k s)) = Ok (s ! (14 * k + 13))"
    using assms by (auto simp: unluhnify_eq_Ok i_def)
  have j: "j = 14 * i + j mod 14" by (simp add: i_def)
  have new: "take 13 (checked_block i (s[j := c])) = (take 13 (checked_block i s))[j mod 14 := c]"
    unfolding i_def checked_block_update by (simp add: take_update_swap)
  have "luhn32 (take 13 (checked_block i (s[j := c]))) \<noteq> Ok (s[j := c] ! (14 * i + 13))"
  proof (cases "j mod 14 = 13")
    case True
    then have "take 13 (checked_block i (s[j := c])) = take 13 (checked_block i s)"
      unfolding new by (simp add: list_update_beyond)
    then show ?thesis
      using blocks [OF \<open>i < 4\<close>] True j assms(2,3) by (metis nth_list_update_eq result.inject(1))
  next
    case False
    then have m: "j mod 14 < 13"
      using mod_less_divisor [of 14 j] by simp
    then have "j mod 14 < length (take 13 (checked_block i s))"
      using len \<open>i < 4\<close> by (simp add: checked_block_def)
    moreover have "take 13 (checked_block i s) ! (j mod 14) = s ! j"
      using m len \<open>i < 4\<close> j by (simp add: checked_block_def)
    ultimately show ?thesis
      unfolding new using luhn32_substitution blocks [OF \<open>i < 4\<close>] assms(3) m j
      by (metis add_left_cancel nat_neq_iff nth_list_update_neq)
  qed
  then have "\<not> (\<exists>v'. unluhnify (s[j := c]) = Ok v')"
    using \<open>i < 4\<close> by (auto simp: unluhnify_eq_Ok)
  then show ?thesis
    using unluhnify_no_panic [of "s[j := c]"] by (cases "unluhnify (s[j := c])") auto
qed

theorem unluhnify_detects_substitution_witness:
  "\<exists>e. unluhnify ((replicate 56 CHR ''A'')[3 := CHR ''B'']) = Err e"
  by (rule unluhnify_detects_substitution [of "replicate 56 CHR ''A''" "replicate 52 CHR ''A''"])
     (code_simp, simp_all)

end
