(* ===== verification/Base32_Reference.thy ===== *)
theory Base32_Reference
  imports Device_Id
begin

text \<open>
  A reference base 32 coder in the sense of RFC 4648: the bytes are one big-endian number,
  padded with zero bits to a multiple of five, written in base 32 and padded with
  \<^verbatim>\<open>=\<close> to a multiple of eight characters.  It shows that the laws of \<open>base32_codec\<close>, which
  the conversions of \<open>Device_Id\<close> rely on, are those of the standard encoding, and it
  evaluates the conversions on concrete identifiers.
\<close>

section \<open>The coder\<close>

fun to_digits32 :: "nat \<Rightarrow> nat \<Rightarrow> nat list" where
  "to_digits32 0 n = []"
| "to_digits32 (Suc k) n = to_digits32 k (n div 32) @ [n mod 32]"

definition from_digits32 :: "nat list \<Rightarrow> nat" where
  "from_digits32 ds = foldl (\<lambda>n d. n * 32 + d) 0 ds"

definition digits_of_bytes :: "nat \<Rightarrow> nat" where
  "digits_of_bytes n = (8 * n + 4) div 5"

definition rfc4648_encode :: "bytes \<Rightarrow> string" where
  "rfc4648_encode bs =
     (let d = digits_of_bytes (length bs);
          body = map (\<lambda>k. LUHN_BASE32 ! k)
            (to_digits32 d (from_be_bytes bs * 2 ^ (5 * d - 8 * length bs)))
      in body @ replicate ((8 - d mod 8) mod 8) CHR ''='')"

definition rfc4648_decode :: "string \<Rightarrow> bytes option" where
  "rfc4648_decode s =
     (let body = takeWhile (\<lambda>c. c \<noteq> CHR ''='') s;
          n = 5 * length body div 8;
          cps = map codepoint32 body
      in if list_all is_ok cps
         then let bs = to_be_bytes n
                (from_digits32 (map ok_val cps) div 2 ^ (5 * length body - 8 * n))
              in if rfc4648_encode bs = s then Some bs else None
         else None)"

section \<open>The laws\<close>

lemma length_to_digits32 [simp]: "length (to_digits32 k n) = k"
  by (induction k arbitrary: n) auto

lemma to_digits32_less: "d \<in> set (to_digits32 k n) \<Longrightarrow> d < 32"
  by (induction k arbitrary: n) auto

lemma from_to_digits32: "n < 32 ^ k \<Longrightarrow> from_digits32 (to_digits32 k n) = n"
proof (induction k arbitrary: n)
  case 0
  then show ?case by (simp add: from_digits32_def)
next
  case (Suc k)
  have "n div 32 < 32 ^ k"
    using Suc.prems by (simp add: less_mult_imp_div_less mult.commute)
  then show ?case
    using Suc.IH by (simp add: from_digits32_def)
qed

lemma codepoint32_nth: "k < 32 \<Longrightarrow> codepoint32 (LUHN_BASE32 ! k) = Ok k"
proof -
  assume "k < 32"
  moreover have "\<forall>k \<in> set [0..<32]. codepoint32 (LUHN_BASE32 ! k) = Ok k"
    by code_simp
  ultimately show ?thesis by simp
qed

lemma encode_body_alphabet:
  "set (map (\<lambda>k. LUHN_BASE32 ! k) (to_digits32 d n)) \<subseteq> set LUHN_BASE32"
  using to_digits32_less by auto

lemma digits_of_bytes_bounds:
  "8 * n \<le> 5 * digits_of_bytes n" "5 * digits_of_bytes n < 8 * n + 5"
  "5 * digits_of_bytes n div 8 = n"
proof -
  show le: "8 * n \<le> 5 * digits_of_bytes n" and lt: "5 * digits_of_bytes n < 8 * n + 5"
    unfolding digits_of_bytes_def by linarith+
  from le lt show "5 * digits_of_bytes n div 8 = n"
    by simp
qed

lemma encoded_number_bound:
  assumes "d = digits_of_bytes (length bs)"
  shows "from_be_bytes bs * 2 ^ (5 * d - 8 * length bs) < 32 ^ d"
proof -
  have "from_be_bytes bs * 2 ^ (5 * d - 8 * length bs)
      < 256 ^ length bs * 2 ^ (5 * d - 8 * length bs)"
    using from_be_bytes_bound by simp
  also have "\<dots> = (2 :: nat) ^ (8 * length bs + (5 * d - 8 * length bs))"
    by (simp add: power_add power_mult)
  also have "\<dots> = 2 ^ (5 * d)"
    using digits_of_bytes_bounds(1) assms by simp
  also have "\<dots> = 32 ^ d"
    by (simp add: power_mult)
  finally show ?thesis .
qed

lemma rfc4648_decode_encode: "rfc4648_decode (rfc4648_encode bs) = Some bs"
proof -
  define d where "d = digits_of_bytes (length bs)"
  define v where "v = from_be_bytes bs * 2 ^ (5 * d - 8 * length bs)"
  define body where "body = map (\<lambda>k. LUHN_BASE32 ! k) (to_digits32 d v)"
  have enc: "rfc4648_encode bs = body @ replicate ((8 - d mod 8) mod 8) CHR ''=''"
    by (simp add: rfc4648_encode_def Let_def body_def v_def d_def)
  have "c \<noteq> CHR ''=''" if "c \<in> set body" for c
    using that encode_body_alphabet alphabet_normalized(6) unfolding body_def by blast
  then have tw: "takeWhile (\<lambda>c. c \<noteq> CHR ''='') (rfc4648_encode bs) = body"
    unfolding enc by (simp add: takeWhile_append2 takeWhile_replicate)
  have cps: "map codepoint32 body = map Ok (to_digits32 d v)"
    using to_digits32_less by (simp add: body_def codepoint32_nth)
  have "from_digits32 (to_digits32 d v) div 2 ^ (5 * d - 8 * length bs) = from_be_bytes bs"
    using encoded_number_bound [OF d_def] by (simp add: from_to_digits32 v_def)
  moreover have "length body = d" and "5 * d div 8 = length bs"
    using digits_of_bytes_bounds(3) by (simp_all add: body_def d_def)
  ultimately show ?thesis
    unfolding rfc4648_decode_def Let_def tw cps
    by (simp add: list_all_iff comp_def to_from_be_bytes)
qed

lemma rfc4648_encode_shape:
  assumes "length bs = 32"
  shows "\<exists>body. rfc4648_encode bs = body @ ''===='' \<and> length body = 52 \<and> set body \<subseteq> set LUHN_BASE32"
proof -
  have "replicate 4 CHR ''='' = ''===='' "
    by (simp add: numeral_eq_Suc)
  moreover have "digits_of_bytes 32 = 52"
    by (simp add: digits_of_bytes_def)
  ultimately show ?thesis
    using encode_body_alphabet assms
    by (auto simp: rfc4648_encode_def Let_def intro!: exI [of _ "map _ _"])
qed

interpretation rfc4648: base32_codec rfc4648_encode rfc4648_decode
  by unfold_locales (simp_all add: rfc4648_decode_encode rfc4648_encode_shape)

section \<open>Round trip of device identifiers\<close>

text \<open>
  Claim C32. Printing a device identifier never fails, always gives 63 characters, and reading
  the printed form gives the identifier back, for every base 32 coder that decodes what it
  encodes and writes 32 bytes as 52 characters of the alphabet and four padding characters.
\<close>

theorem device_id_string_roundtrip:
  assumes "base32_codec base32_encode base32_decode" and "device_id_wf d"
  shows "\<exists>s. device_id_to_string base32_encode d = Ok s \<and> length s = 63 \<and>
           device_id_try_from_str base32_decode s = Ok d"
  using base32_codec.to_string_try_from [OF assms] by metis

theorem device_id_string_roundtrip_witness:
  "\<exists>s. device_id_to_string rfc4648_encode \<lparr>dev_bytes = replicate 32 7\<rparr> = Ok s \<and> length s = 63 \<and>
       device_id_try_from_str rfc4648_decode s = Ok \<lparr>dev_bytes = replicate 32 7\<rparr>"
  by (rule device_id_string_roundtrip [OF rfc4648.base32_codec_axioms])
     (simp add: device_id_wf_def DEVICE_ID_LEN_def)

text \<open>The round trip at a concrete identifier, evaluated.\<close>

lemma device_id_example:
  "device_id_to_string rfc4648_encode \<lparr>dev_bytes = replicate 32 0\<rparr> =
     Ok ''AAAAAAA-AAAAAAA-AAAAAAA-AAAAAAA-AAAAAAA-AAAAAAA-AAAAAAA-AAAAAAA''"
  by code_simp

end
