(* ===== verification/File_Writer.thy ===== *)
theory File_Writer
  imports Grizol_Prelude
begin

text \<open>
  The writer of files in chunks (\<^verbatim>\<open>src/src/file_writer.rs\<close>): every chunk goes to a file of its own,
  and when all are there they are joined.

  \<^item> The file system is a map from paths to contents.  Which of its operations fail, and what a
    failed write leaves in a file, is decided by the argument \<open>os\<close>.
  \<^item> An operation returns the new writer and the new file system also when it fails.
  \<^item> \<open>write_chunk\<close> is split where it waits: \<open>write_enter\<close> up to the opening of the chunk,
    \<open>write_file\<close> on the file and \<open>write_leave\<close> after it; \<open>writer_run\<close> interleaves the parts of any
    number of calls.
  \<^item> The standard hasher, whose algorithm is not specified, is an argument.
\<close>

section \<open>Files\<close>

type_synonym file_system = "string \<rightharpoonup> bytes"

datatype io_error = InvalidData | AlreadyExists | Other | Os

datatype io_call = OpenWrite | WriteData | OpenRead | ReadData | Remove | CreateDir

record os =
  os_ok :: "io_call \<Rightarrow> string \<Rightarrow> bool"
  os_left :: "string \<Rightarrow> bytes"

definition os_works :: os where
  "os_works = \<lparr>os_ok = \<lambda>_ _. True, os_left = \<lambda>_. []\<rparr>"

text \<open>Writing at a position; a gap before it is filled with zeros.\<close>

definition write_at :: "nat \<Rightarrow> bytes \<Rightarrow> bytes \<Rightarrow> bytes" where
  "write_at off buf file =
     take off file @ replicate (off - length file) 0 @ buf @ drop (off + length buf) file"

text \<open>Opening with \<^verbatim>\<open>create(true).truncate(true)\<close>.\<close>

definition open_truncated :: "os \<Rightarrow> string \<Rightarrow> file_system \<Rightarrow> file_system \<times> (unit, io_error) result" where
  "open_truncated os path fs =
     (if os_ok os OpenWrite path then (fs(path \<mapsto> []), Ok ()) else (fs, Err Os))"

text \<open>\<^verbatim>\<open>set_len\<close>, \<^verbatim>\<open>write_all\<close> and \<^verbatim>\<open>sync_all\<close> on an open file.\<close>

definition write_synced :: "os \<Rightarrow> string \<Rightarrow> bytes \<Rightarrow> file_system \<Rightarrow> file_system \<times> (unit, io_error) result" where
  "write_synced os path content fs =
     (if os_ok os WriteData path then (fs(path \<mapsto> content), Ok ())
      else (fs(path \<mapsto> os_left os path), Err Os))"

definition remove_file :: "os \<Rightarrow> string \<Rightarrow> file_system \<Rightarrow> file_system \<times> (unit, io_error) result" where
  "remove_file os path fs =
     (if os_ok os Remove path \<and> path \<in> dom fs then (fs(path := None), Ok ()) else (fs, Err Os))"

definition read_to_end :: "os \<Rightarrow> string \<Rightarrow> file_system \<Rightarrow> (bytes, io_error) result" where
  "read_to_end os path fs =
     (if os_ok os OpenRead path \<and> os_ok os ReadData path then ok_or (fs path) Os else Err Os)"

text \<open>Numbers in decimal, as \<^verbatim>\<open>to_string\<close> and \<^verbatim>\<open>format!\<close> print them.\<close>

fun decimal :: "nat \<Rightarrow> string" where
  "decimal n = (if n < 10 then [char_of (48 + n)] else decimal (n div 10) @ [char_of (48 + n mod 10)])"

declare decimal.simps [simp del]

section \<open>The writer\<close>

datatype file_writer_state = WritingChunks nat | Consolidating

record file_writer =
  fw_file_path :: string
  fw_file_size :: nat
  fw_chunk_size :: nat
  fw_writing_chunk :: "bool list"
  fw_suffix :: string
  fw_state :: file_writer_state

type_synonym hasher = "string \<Rightarrow> nat \<Rightarrow> nat \<Rightarrow> nat"

definition file_writer_new :: "hasher \<Rightarrow> string \<Rightarrow> nat \<Rightarrow> nat \<Rightarrow> (file_writer, 'e) result" where
  "file_writer_new hash file_path file_size chunk_size =
     (if 2 ^ 64 \<le> file_size + chunk_size \<or> chunk_size = 0 then Panic
      else
        let n_of_chunks = (file_size + chunk_size - 1) div chunk_size in
        Ok \<lparr>fw_file_path = file_path, fw_file_size = file_size, fw_chunk_size = chunk_size,
            fw_writing_chunk = replicate n_of_chunks False,
            fw_suffix = decimal (hash file_path file_size chunk_size),
            fw_state = WritingChunks 0\<rparr>)"

definition chunk_path :: "file_writer \<Rightarrow> nat \<Rightarrow> string" where
  "chunk_path w chunk_pos =
     fw_file_path w @ ''.part_'' @ decimal chunk_pos @ ''.'' @ fw_suffix w"

text \<open>
  \<^verbatim>\<open>AtomicBool::compare_exchange\<close> returns the previous value, as \<open>Ok\<close> when it was the expected one
  and the new value was stored.
\<close>

definition compare_exchange :: "bool \<Rightarrow> bool \<Rightarrow> bool \<Rightarrow> bool \<times> (bool, bool) result" where
  "compare_exchange current new cell = (if cell = current then (new, Ok cell) else (cell, Err cell))"

text \<open>The checks of the arguments.\<close>

definition check_chunk :: "file_writer \<Rightarrow> bytes \<Rightarrow> nat \<Rightarrow> (unit, io_error) result" where
  "check_chunk w data off =
     (if off mod fw_chunk_size w \<noteq> 0 then Err InvalidData
      else if fw_file_size w \<le> off then Err InvalidData
      else
        let last_offset = (fw_file_size w div fw_chunk_size w) * fw_chunk_size w in
        if length data \<noteq> fw_chunk_size w \<and> \<not> (length data < fw_chunk_size w \<and> off = last_offset)
        then Err InvalidData else Ok ())"

text \<open>Registering a write: the counter under the mutex and the flag of the chunk.\<close>

definition write_enter :: "file_writer \<Rightarrow> nat \<Rightarrow> file_writer \<times> (nat, io_error) result" where
  "write_enter w off =
     (case fw_state w of
        Consolidating \<Rightarrow> (w, Err Other)
      | WritingChunks x \<Rightarrow>
          let w = w\<lparr>fw_state := WritingChunks (x + 1)\<rparr>; chunk_pos = off div fw_chunk_size w in
          if length (fw_writing_chunk w) \<le> chunk_pos then (w, Panic)
          else
            (case compare_exchange False True (fw_writing_chunk w ! chunk_pos) of
               (cell, res) \<Rightarrow>
                 let w = w\<lparr>fw_writing_chunk := (fw_writing_chunk w)[chunk_pos := cell]\<rparr> in
                 if res = Ok True then (w, Err AlreadyExists) else (w, Ok chunk_pos)))"

text \<open>Writing the chunk to its file; the flag is reset when the file cannot be opened.\<close>

definition write_file ::
    "os \<Rightarrow> bytes \<Rightarrow> nat \<Rightarrow> file_writer \<times> file_system \<Rightarrow> (file_writer \<times> file_system) \<times> (unit, io_error) result" where
  "write_file os data chunk_pos = (\<lambda>(w, fs).
     case open_truncated os (chunk_path w chunk_pos) fs of
       (fs, Ok u) \<Rightarrow> apfst (Pair w) (write_synced os (chunk_path w chunk_pos) data fs)
     | (fs, Err e) \<Rightarrow>
         ((w\<lparr>fw_writing_chunk := (fw_writing_chunk w)[chunk_pos := False]\<rparr>, fs), Err e)
     | (fs, Panic) \<Rightarrow> ((w, fs), Panic))"

text \<open>After the write: the flag is reset and the counter decremented under the mutex.\<close>

definition write_leave :: "file_writer \<Rightarrow> nat \<Rightarrow> file_writer \<times> (unit, io_error) result" where
  "write_leave w chunk_pos =
     (let w = w\<lparr>fw_writing_chunk := (fw_writing_chunk w)[chunk_pos := False]\<rparr> in
      case fw_state w of
        WritingChunks x \<Rightarrow>
          if x = 0 then (w, Panic) else (w\<lparr>fw_state := WritingChunks (x - 1)\<rparr>, Ok ())
      | Consolidating \<Rightarrow> (w, Err Other))"

definition write_chunk ::
    "os \<Rightarrow> bytes \<Rightarrow> nat \<Rightarrow> file_writer \<times> file_system \<Rightarrow> (file_writer \<times> file_system) \<times> (unit, io_error) result" where
  "write_chunk os data off = (\<lambda>(w, fs).
     if off = 0 \<and> fw_file_size w = 0 then apfst (Pair w) (open_truncated os (chunk_path w 0) fs)
     else
       io_then ((w, fs), check_chunk w data off) (\<lambda>(w, fs) _.
       io_then (apfst (\<lambda>w. (w, fs)) (write_enter w off)) (\<lambda>s chunk_pos.
       io_then (write_file os data chunk_pos s) (\<lambda>(w, fs) _.
       apfst (\<lambda>w. (w, fs)) (write_leave w chunk_pos)))))"

text \<open>One iteration of the loop that joins the chunks, and the loop.\<close>

definition join_chunk ::
    "os \<Rightarrow> file_writer \<Rightarrow> nat \<Rightarrow> file_system \<Rightarrow> file_system \<times> (unit, io_error) result" where
  "join_chunk os w i fs =
     io_then (fs, read_to_end os (chunk_path w i) fs) (\<lambda>fs buf.
     let file = (case fs (fw_file_path w) of Some b \<Rightarrow> b | None \<Rightarrow> []) in
     io_then (write_synced os (fw_file_path w) (write_at (i * fw_chunk_size w) buf file) fs) (\<lambda>fs _.
     remove_file os (chunk_path w i) fs))"

fun join_chunks ::
    "os \<Rightarrow> file_writer \<Rightarrow> nat list \<Rightarrow> file_system \<Rightarrow> file_system \<times> (unit, io_error) result" where
  "join_chunks os w [] fs = (fs, Ok ())"
| "join_chunks os w (i # is) fs = io_then (join_chunk os w i fs) (\<lambda>fs _. join_chunks os w is fs)"

text \<open>The beginning of \<^verbatim>\<open>consolidate\<close>, under the mutex.\<close>

definition consolidate_enter :: "file_writer \<Rightarrow> file_writer \<times> (unit, io_error) result" where
  "consolidate_enter w =
     (case fw_state w of
        Consolidating \<Rightarrow> (w, Err Other)
      | WritingChunks x \<Rightarrow> if x = 0 then (w\<lparr>fw_state := Consolidating\<rparr>, Ok ()) else (w, Err Other))"

definition consolidate ::
    "os \<Rightarrow> file_writer \<times> file_system \<Rightarrow> (file_writer \<times> file_system) \<times> (unit, io_error) result" where
  "consolidate os = (\<lambda>(w, fs).
     io_then (apfst (\<lambda>w. (w, fs)) (consolidate_enter w)) (\<lambda>(w, fs) _.
     io_then (apfst (Pair w)
       (if True \<in> set (fw_writing_chunk w) then (fs, Ok ())
        else io_then (open_truncated os (fw_file_path w) fs) (\<lambda>fs _.
             join_chunks os w [0..<length (fw_writing_chunk w)] fs))) (\<lambda>(w, fs) _.
     ((w\<lparr>fw_state := WritingChunks 0\<rparr>, fs), Ok ()))))"

section \<open>Paths of chunks\<close>

lemma decimal_not_Nil [simp]: "decimal n \<noteq> []"
  by (subst decimal.simps) simp

lemma decimal_long: "10 \<le> n \<Longrightarrow> 1 < length (decimal n)"
  using decimal_not_Nil [of "n div 10"] by (subst decimal.simps) (simp del: decimal_not_Nil)

lemma digit_inj: "m < 10 \<Longrightarrow> n < 10 \<Longrightarrow> (char_of (48 + m) :: char) = char_of (48 + n) \<longleftrightarrow> m = n"
  for m n :: nat
proof -
  assume lt: "m < 10" "n < 10"
  have "(48 + m) mod 256 = (48 + n) mod 256" if "(char_of (48 + m) :: char) = char_of (48 + n)"
    using arg_cong [OF that, of "of_char :: char \<Rightarrow> nat"] by simp
  with lt show ?thesis by auto
qed

lemma decimal_inj: "decimal m = decimal n \<Longrightarrow> m = n"
proof (induction m arbitrary: n rule: decimal.induct)
  case (1 m)
  show ?case
  proof (cases "m < 10")
    case True
    then have "length (decimal n) = 1" using "1.prems" by (simp add: decimal.simps [of m] flip: "1.prems")
    then have "n < 10" using decimal_long [of n] by linarith
    then show ?thesis using "1.prems" True digit_inj by (simp add: decimal.simps [of m] decimal.simps [of n])
  next
    case False
    then have "\<not> n < 10" using "1.prems" decimal_long [of m] by (auto simp: decimal.simps [of n])
    then have "decimal (m div 10) = decimal (n div 10)" "m mod 10 = n mod 10"
      using "1.prems" False digit_inj by (simp_all add: decimal.simps [of m] decimal.simps [of n])
    then show ?thesis using "1.IH" [OF False] by (metis div_mult_mod_eq)
  qed
qed

lemma chunk_path_inj [simp]: "chunk_path w i = chunk_path w j \<longleftrightarrow> i = j"
  by (auto simp: chunk_path_def dest: decimal_inj)

lemma chunk_path_not_file [simp]: "chunk_path w i \<noteq> fw_file_path w" "fw_file_path w \<noteq> chunk_path w i"
  by (simp_all add: chunk_path_def)

lemma chunk_path_update [simp]:
  "chunk_path (w\<lparr>fw_state := s\<rparr>) i = chunk_path w i"
  "chunk_path (w\<lparr>fw_writing_chunk := fl\<rparr>) i = chunk_path w i"
  by (simp_all add: chunk_path_def)

section \<open>Writing and joining\<close>

text \<open>A writer with no call in progress, as \<open>file_writer_new\<close> returns it.\<close>

definition writer_idle :: "file_writer \<Rightarrow> bool" where
  "writer_idle w \<longleftrightarrow> 0 < fw_chunk_size w \<and> fw_state w = WritingChunks 0 \<and>
     fw_writing_chunk w = replicate ((fw_file_size w + fw_chunk_size w - 1) div fw_chunk_size w) False"

lemma file_writer_new_idle: "file_writer_new hash path sz c = Ok w \<Longrightarrow> writer_idle w"
  by (auto simp: file_writer_new_def writer_idle_def Let_def split: if_splits)

lemma writer_chunks:
  "writer_idle w \<Longrightarrow> length (fw_writing_chunk w) = (fw_file_size w + fw_chunk_size w - 1) div fw_chunk_size w"
  unfolding writer_idle_def by (elim conjE) (simp only: length_replicate)

lemma chunk_in_range:
  assumes "writer_idle w" and "off < fw_file_size w"
  shows "off div fw_chunk_size w < length (fw_writing_chunk w)"
proof -
  let ?c = "fw_chunk_size w" and ?n = "fw_file_size w"
  have c: "0 < ?c" using assms(1) by (simp add: writer_idle_def)
  have "(?n - 1 + ?c) div ?c = Suc ((?n - 1) div ?c)" using c by (intro trans [OF div_add_self2]) simp_all
  moreover have "?n - 1 + ?c = ?n + ?c - 1" using assms(2) by linarith
  moreover have "off div ?c \<le> (?n - 1) div ?c" using assms(2) by (intro div_le_mono) simp
  ultimately have "off div ?c < (?n + ?c - 1) div ?c" by simp
  then show ?thesis using assms(1) by (simp add: writer_idle_def)
qed

lemma check_chunk_simps:
  "check_chunk w data off = Ok () \<longleftrightarrow> off mod fw_chunk_size w = 0 \<and> off < fw_file_size w \<and>
     (length data = fw_chunk_size w \<or>
      length data < fw_chunk_size w \<and> off = (fw_file_size w div fw_chunk_size w) * fw_chunk_size w)"
  by (auto simp: check_chunk_def Let_def)

lemma compare_exchange_free: "compare_exchange False True cell = (True, if cell then Err True else Ok False)"
  by (simp add: compare_exchange_def)

lemma write_enter_idle:
  assumes "fw_state w = WritingChunks x" and "off div fw_chunk_size w < length (fw_writing_chunk w)"
  shows "write_enter w off =
    (w\<lparr>fw_state := WritingChunks (Suc x),
       fw_writing_chunk := (fw_writing_chunk w)[off div fw_chunk_size w := True]\<rparr>, Ok (off div fw_chunk_size w))"
  using assms by (simp add: write_enter_def compare_exchange_free Let_def)

lemma write_file_works:
  "write_file os_works data p (w, fs) = ((w, fs(chunk_path w p \<mapsto> data)), Ok ())"
  by (simp add: write_file_def open_truncated_def write_synced_def os_works_def)

lemma replicate_update_back: "(replicate n a)[i := b, i := a] = replicate n a"
  by (cases "i < n") (simp_all add: list_update_same_conv list_update_beyond)

lemma write_chunk_idle:
  assumes "writer_idle w" and "check_chunk w data off = Ok ()"
  shows "write_chunk os_works data off (w, fs) =
    ((w, fs(chunk_path w (off div fw_chunk_size w) \<mapsto> data)), Ok ())"
proof -
  have off: "off < fw_file_size w" using assms(2) by (simp add: check_chunk_simps)
  have st: "fw_state w = WritingChunks 0" using assms(1) by (simp add: writer_idle_def)
  have flags: "(fw_writing_chunk w)[i := True, i := False] = fw_writing_chunk w" for i
    using assms(1) replicate_update_back by (simp add: writer_idle_def)
  have same: "w\<lparr>fw_state := WritingChunks 0, fw_writing_chunk := fw_writing_chunk w\<rparr> = w"
    using st by simp
  show ?thesis
    using off assms(2) flags same
    by (simp add: write_chunk_def write_enter_idle [OF st chunk_in_range [OF assms(1) off]]
        write_file_works write_leave_def)
qed

text \<open>Joining chunks that are all there.\<close>

lemma write_at_end: "length f = off \<Longrightarrow> write_at off buf f = f @ buf"
  by (simp add: write_at_def)

lemma join_chunk_works:
  assumes "fs (chunk_path w i) = Some buf" and "fs (fw_file_path w) = Some f"
    and "length f = i * fw_chunk_size w"
  shows "join_chunk os_works w i fs =
    (fs(fw_file_path w \<mapsto> f @ buf, chunk_path w i := None), Ok ())"
  using assms by (simp add: join_chunk_def read_to_end_def write_synced_def remove_file_def os_works_def write_at_end domI)

lemma join_chunks_works:
  assumes "\<forall>i \<in> {k..<n}. fs (chunk_path w i) = Some (c i)" and "fs (fw_file_path w) = Some f"
    and "length f = k * fw_chunk_size w" and "\<forall>i. Suc i < n \<longrightarrow> length (c i) = fw_chunk_size w"
  shows "join_chunks os_works w [k..<n] fs =
    ((\<lambda>p. if p \<in> chunk_path w ` {k..<n} then None
          else if p = fw_file_path w then Some (f @ concat (map c [k..<n])) else fs p), Ok ())"
  using assms(1-3)
proof (induction "n - k" arbitrary: k fs f)
  case 0
  then show ?case by (auto simp: fun_eq_iff)
next
  case (Suc d)
  then have k: "k < n" by simp
  let ?fs = "fs(fw_file_path w \<mapsto> f @ c k, chunk_path w k := None)"
  have step: "join_chunk os_works w k fs = (?fs, Ok ())"
    using Suc.prems k by (intro join_chunk_works) auto
  have rest: "join_chunks os_works w [Suc k..<n] ?fs =
    ((\<lambda>p. if p \<in> chunk_path w ` {Suc k..<n} then None
          else if p = fw_file_path w then Some ((f @ c k) @ concat (map c [Suc k..<n])) else ?fs p), Ok ())"
  proof (cases "Suc k < n")
    case True
    then show ?thesis
      using Suc.hyps(2) Suc.prems assms(4) by (intro Suc.hyps(1)) auto
  next
    case False
    with k have "n = Suc k" by simp
    then show ?thesis by (auto simp: fun_eq_iff)
  qed
  have "{k..<n} = insert k {Suc k..<n}" using k by auto
  then show ?case
    using k by (simp add: upt_conv_Cons step rest fun_eq_iff)
qed

section \<open>A file from its pieces\<close>

definition piece :: "nat \<Rightarrow> bytes \<Rightarrow> nat \<Rightarrow> bytes" where
  "piece c data p = take c (drop (p * c) data)"

text \<open>Writing the pieces of \<open>data\<close> at the positions \<open>ps\<close>, in the order of the list.\<close>

fun write_chunks ::
    "os \<Rightarrow> bytes \<Rightarrow> nat list \<Rightarrow> file_writer \<times> file_system \<Rightarrow> (file_writer \<times> file_system) \<times> (unit, io_error) result" where
  "write_chunks os data [] s = (s, Ok ())"
| "write_chunks os data (p # ps) s =
     io_then (write_chunk os (piece (fw_chunk_size (fst s)) data p) (p * fw_chunk_size (fst s)) s)
       (\<lambda>s _. write_chunks os data ps s)"

lemma concat_pieces: "concat (map (piece c data) [0..<n]) = take (n * c) data"
  by (induction n) (simp_all add: piece_def take_add add.commute [of c])

lemma chunk_count:
  assumes "0 < (c :: nat)"
  shows "p < (n + c - 1) div c \<longleftrightarrow> p * c < n"
proof -
  have "p < (n + c - 1) div c \<longleftrightarrow> Suc p * c \<le> n + c - 1"
    using assms by (simp add: less_eq_div_iff_mult_less_eq Suc_le_eq [symmetric] del: mult_Suc)
  also have "\<dots> \<longleftrightarrow> p * c < n" using assms by auto
  finally show ?thesis .
qed

lemma check_piece:
  assumes "0 < fw_chunk_size w" and "length data = fw_file_size w" and "p * fw_chunk_size w < fw_file_size w"
  shows "check_chunk w (piece (fw_chunk_size w) data p) (p * fw_chunk_size w) = Ok ()"
proof -
  let ?c = "fw_chunk_size w" and ?n = "fw_file_size w"
  have "?n div ?c = p" if "?n - p * ?c < ?c"
    using that assms(1,3) by (intro div_nat_eqI) (auto simp: mult.commute)
  then show ?thesis using assms by (auto simp: check_chunk_simps piece_def min_def)
qed

lemma write_chunks_works:
  assumes "writer_idle w" and "length data = fw_file_size w" and "\<forall>p \<in> set ps. p * fw_chunk_size w < length data"
  shows "write_chunks os_works data ps (w, fs) =
    ((w, fs ++ map_of (rev (map (\<lambda>p. (chunk_path w p, piece (fw_chunk_size w) data p)) ps))), Ok ())"
  using assms(3)
proof (induction ps arbitrary: fs)
  case (Cons p ps)
  have c: "0 < fw_chunk_size w" using assms(1) by (simp add: writer_idle_def)
  have "check_chunk w (piece (fw_chunk_size w) data p) (p * fw_chunk_size w) = Ok ()"
    using Cons.prems assms(2) c by (intro check_piece) simp_all
  then have "write_chunk os_works (piece (fw_chunk_size w) data p) (p * fw_chunk_size w) (w, fs) =
      ((w, fs(chunk_path w p \<mapsto> piece (fw_chunk_size w) data p)), Ok ())"
    using write_chunk_idle [OF assms(1)] c by simp
  then show ?case using Cons by simp
qed simp

lemma map_of_pieces_chunk:
  "p \<in> set ps \<Longrightarrow> map_of (rev (map (\<lambda>p. (chunk_path w p, g p)) ps)) (chunk_path w p) = Some (g p)"
proof (induction ps rule: rev_induct)
  case (snoc q ps)
  then show ?case by (cases "p = q") auto
qed simp

lemma map_of_pieces_other:
  "q \<notin> range (chunk_path w) \<Longrightarrow> map_of (rev (map (\<lambda>p. (chunk_path w p, g p)) ps)) q = None"
  by (induction ps rule: rev_induct) auto

lemma consolidate_works:
  assumes "writer_idle w" and "n = length (fw_writing_chunk w)"
    and "\<forall>i < n. fs (chunk_path w i) = Some (c i)" and "\<forall>i. Suc i < n \<longrightarrow> length (c i) = fw_chunk_size w"
  shows "consolidate os_works (w, fs) =
    ((w, \<lambda>p. if p \<in> chunk_path w ` {0..<n} then None
             else if p = fw_file_path w then Some (concat (map c [0..<n])) else fs p), Ok ())"
proof -
  have st: "fw_state w = WritingChunks 0" and fl: "True \<notin> set (fw_writing_chunk w)"
    using assms(1) by (auto simp: writer_idle_def)
  let ?w = "w\<lparr>fw_state := Consolidating\<rparr>"
  let ?fs = "\<lambda>p. if p \<in> chunk_path w ` {0..<n} then None
             else if p = fw_file_path w then Some (concat (map c [0..<n])) else fs p"
  have "join_chunks os_works ?w [0..<n] (fs(fw_file_path w \<mapsto> [])) = (?fs, Ok ())"
    using join_chunks_works [of 0 n "fs(fw_file_path w \<mapsto> [])" ?w c "[]"] assms(3,4)
    by (simp add: fun_eq_iff)
  moreover have "open_truncated os_works (fw_file_path w) fs = (fs(fw_file_path w \<mapsto> []), Ok ())"
    by (simp add: open_truncated_def os_works_def)
  moreover have "w\<lparr>fw_state := WritingChunks 0\<rparr> = w" using st by simp
  ultimately show ?thesis
    using assms(2) st fl by (simp add: consolidate_def consolidate_enter_def)
qed

text \<open>Writing all pieces, in any order and with repetitions, and joining them.\<close>

lemma write_and_consolidate:
  assumes "writer_idle w" and "length data = fw_file_size w"
    and "set ps = {p. p * fw_chunk_size w < length data}"
  shows "io_then (write_chunks os_works data ps (w, fs)) (\<lambda>s _. consolidate os_works s) =
    ((w, \<lambda>p. if p \<in> chunk_path w ` set ps then None
             else if p = fw_file_path w then Some data else fs p), Ok ())"
proof -
  let ?c = "fw_chunk_size w" and ?n = "length (fw_writing_chunk w)"
  have c: "0 < ?c" using assms(1) by (simp add: writer_idle_def)
  have n: "p < ?n \<longleftrightarrow> p * ?c < length data" for p
    unfolding writer_chunks [OF assms(1)] assms(2) by (rule chunk_count [OF c])
  have ps: "set ps = {0..<?n}" unfolding assms(3) n [symmetric] by auto
  let ?fs = "fs ++ map_of (rev (map (\<lambda>p. (chunk_path w p, piece ?c data p)) ps))"
  have wr: "write_chunks os_works data ps (w, fs) = ((w, ?fs), Ok ())"
    using assms(3) by (intro write_chunks_works [OF assms(1,2)]) blast
  have chunks: "\<forall>i < ?n. ?fs (chunk_path w i) = Some (piece ?c data i)"
    using ps by (simp add: map_add_def map_of_pieces_chunk)
  have "length (piece ?c data i) = ?c" if "Suc i < ?n" for i
  proof -
    have "i * ?c + ?c < length data" using that n [of "Suc i"] by (simp only: mult_Suc add.commute)
    then show ?thesis unfolding piece_def length_take length_drop by linarith
  qed
  then have len: "\<forall>i. Suc i < ?n \<longrightarrow> length (piece ?c data i) = ?c" by blast
  have "length data \<le> ?n * ?c" using n [of ?n] by simp
  then have "concat (map (piece ?c data) [0..<?n]) = data" by (simp add: concat_pieces)
  moreover have "?fs p = fs p" if "p \<notin> chunk_path w ` {0..<?n}" for p
    using that ps by (force simp: map_add_def map_of_eq_None_iff dest: map_of_SomeD split: option.splits)
  ultimately show ?thesis
    by (simp add: wr consolidate_works [OF assms(1) refl chunks len] ps fun_eq_iff)
qed

section \<open>Calls that fail\<close>

text \<open>A writer whose counter does not return to zero, or that stays in the joining state.\<close>

definition writer_stuck :: "file_writer \<Rightarrow> bool" where
  "writer_stuck w \<longleftrightarrow> fw_state w \<noteq> WritingChunks 0"

text \<open>One call of \<open>write_chunk\<close> or \<open>consolidate\<close>, whatever the file system does.\<close>

inductive writer_call :: "file_writer \<times> file_system \<Rightarrow> file_writer \<times> file_system \<Rightarrow> bool" where
  chunk: "write_chunk os data off s = (s', r) \<Longrightarrow> writer_call s s'"
| join: "consolidate os s = (s', r) \<Longrightarrow> writer_call s s'"

lemma apfst_eq_Pair: "apfst f r = (s, b) \<longleftrightarrow> (\<exists>a. r = (a, b) \<and> s = f a)"
  by (cases r) auto

lemma consolidate_stuck: "writer_stuck w \<Longrightarrow> consolidate os (w, fs) = ((w, fs), Err Other)"
  by (auto simp: writer_stuck_def consolidate_def consolidate_enter_def split: file_writer_state.splits)

lemma open_truncated_cases:
  "open_truncated os p fs = (fs(p \<mapsto> []), Ok ()) \<or> open_truncated os p fs = (fs, Err Os)"
  by (simp add: open_truncated_def)

lemma write_file_cases:
  "(\<exists>fs' r. write_file os data p (w, fs) = ((w, fs'), r) \<and> (r = Ok () \<or> r = Err Os)) \<or>
   (\<exists>fs'. write_file os data p (w, fs) =
      ((w\<lparr>fw_writing_chunk := (fw_writing_chunk w)[p := False]\<rparr>, fs'), Err Os))"
  using open_truncated_cases [of os "chunk_path w p" fs]
  by (auto simp: write_file_def write_synced_def)

lemma write_chunk_state:
  assumes "write_chunk os data off (w, fs) = ((w', fs'), r)"
  shows "fw_state w' = fw_state w \<or> (\<exists>x. fw_state w = WritingChunks x \<and> fw_state w' = WritingChunks (Suc x))"
proof (cases "(off = 0 \<and> fw_file_size w = 0) \<or> check_chunk w data off \<noteq> Ok () \<or> fw_state w = Consolidating")
  case True
  then show ?thesis
    using assms open_truncated_cases [of os "chunk_path w 0" fs]
    by (cases "check_chunk w data off") (auto simp: write_chunk_def write_enter_def split: if_splits)
next
  case False
  then obtain x where x: "fw_state w = WritingChunks x" by (cases "fw_state w") auto
  let ?p = "off div fw_chunk_size w"
  show ?thesis
  proof (cases "?p < length (fw_writing_chunk w)")
    case True
    from write_file_cases [of os data ?p "w\<lparr>fw_state := WritingChunks (Suc x),
        fw_writing_chunk := (fw_writing_chunk w)[?p := True]\<rparr>" fs]
    show ?thesis using assms False x
      by (auto simp: write_chunk_def write_enter_idle [OF x True] write_leave_def split: if_splits)
  next
    case out: False
    then show ?thesis using assms False x
      by (auto simp: write_chunk_def write_enter_def Let_def split: if_splits)
  qed
qed

lemma writer_call_stuck: "writer_call s s' \<Longrightarrow> writer_stuck (fst s) \<Longrightarrow> writer_stuck (fst s')"
proof (induction rule: writer_call.induct)
  case (chunk os data off s s' r)
  then show ?case using write_chunk_state [of os data off "fst s" "snd s" "fst s'" "snd s'" r]
    by (auto simp: writer_stuck_def)
next
  case (join os s s' r)
  then show ?case using consolidate_stuck [of "fst s" os "snd s"] by auto
qed

lemma writer_calls_stuck: "writer_call\<^sup>*\<^sup>* s s' \<Longrightarrow> writer_stuck (fst s) \<Longrightarrow> writer_stuck (fst s')"
  by (induction rule: rtranclp_induct) (auto intro: writer_call_stuck)

section \<open>Concurrent calls\<close>

text \<open>
  A writer shared by several tasks: the writes that are registered, those that have written their
  file, those that failed on it, and the join in progress (the file system at its beginning and
  the chunks it has still to read).
\<close>

record writer_system =
  ws_writer :: file_writer
  ws_fs :: file_system
  ws_active :: "(nat \<times> bytes) list"
  ws_leaving :: "nat list"
  ws_lost :: "nat list"
  ws_joining :: "(file_system \<times> nat list) option"

inductive writer_run :: "os \<Rightarrow> file_writer \<Rightarrow> writer_system \<Rightarrow> bool" for os w0 where
  start: "writer_run os w0 \<lparr>ws_writer = w0, ws_fs = fs, ws_active = [], ws_leaving = [], ws_lost = [],
     ws_joining = None\<rparr>"
| enter: "writer_run os w0 s \<Longrightarrow> check_chunk (ws_writer s) data off = Ok () \<Longrightarrow>
     write_enter (ws_writer s) off = (w, Ok p) \<Longrightarrow>
     writer_run os w0 (s\<lparr>ws_writer := w, ws_active := (p, data) # ws_active s\<rparr>)"
| wrote: "writer_run os w0 s \<Longrightarrow> (p, data) \<in> set (ws_active s) \<Longrightarrow>
     write_file os data p (ws_writer s, ws_fs s) = ((w, fs), Ok ()) \<Longrightarrow>
     writer_run os w0 (s\<lparr>ws_writer := w, ws_fs := fs, ws_active := remove1 (p, data) (ws_active s),
       ws_leaving := p # ws_leaving s\<rparr>)"
| failed: "writer_run os w0 s \<Longrightarrow> (p, data) \<in> set (ws_active s) \<Longrightarrow>
     write_file os data p (ws_writer s, ws_fs s) = ((w, fs), Err e) \<Longrightarrow>
     writer_run os w0 (s\<lparr>ws_writer := w, ws_fs := fs, ws_active := remove1 (p, data) (ws_active s),
       ws_lost := p # ws_lost s\<rparr>)"
| leave: "writer_run os w0 s \<Longrightarrow> p \<in> set (ws_leaving s) \<Longrightarrow> write_leave (ws_writer s) p = (w, r) \<Longrightarrow>
     writer_run os w0 (s\<lparr>ws_writer := w, ws_leaving := remove1 p (ws_leaving s)\<rparr>)"
| join_refused: "writer_run os w0 s \<Longrightarrow> consolidate_enter (ws_writer s) = (w, Ok ()) \<Longrightarrow>
     open_truncated os (fw_file_path w) (ws_fs s) = (fs, Err e) \<Longrightarrow>
     writer_run os w0 (s\<lparr>ws_writer := w, ws_fs := fs\<rparr>)"
| join_begin: "writer_run os w0 s \<Longrightarrow> consolidate_enter (ws_writer s) = (w, Ok ()) \<Longrightarrow>
     True \<notin> set (fw_writing_chunk w) \<Longrightarrow>
     open_truncated os (fw_file_path w) (ws_fs s) = (fs, Ok ()) \<Longrightarrow>
     writer_run os w0 (s\<lparr>ws_writer := w, ws_fs := fs,
       ws_joining := Some (fs, [0..<length (fw_writing_chunk w)])\<rparr>)"
| join_step: "writer_run os w0 s \<Longrightarrow> ws_joining s = Some (fs0, i # is) \<Longrightarrow>
     join_chunk os (ws_writer s) i (ws_fs s) = (fs, Ok ()) \<Longrightarrow>
     writer_run os w0 (s\<lparr>ws_fs := fs, ws_joining := Some (fs0, is)\<rparr>)"
| join_failed: "writer_run os w0 s \<Longrightarrow> ws_joining s = Some (fs0, i # is) \<Longrightarrow>
     join_chunk os (ws_writer s) i (ws_fs s) = (fs, Err e) \<Longrightarrow>
     writer_run os w0 (s\<lparr>ws_fs := fs, ws_joining := None\<rparr>)"
| join_end: "writer_run os w0 s \<Longrightarrow> ws_joining s = Some (fs0, []) \<Longrightarrow>
     writer_run os w0 (s\<lparr>ws_writer := (ws_writer s)\<lparr>fw_state := WritingChunks 0\<rparr>, ws_joining := None\<rparr>)"

definition writers_counted :: "writer_system \<Rightarrow> bool" where
  "writers_counted s \<longleftrightarrow>
     (case fw_state (ws_writer s) of
        WritingChunks x \<Rightarrow> ws_joining s = None \<and>
          x = length (ws_active s) + length (ws_leaving s) + length (ws_lost s)
      | Consolidating \<Rightarrow> ws_active s = [] \<and> ws_leaving s = [] \<and> ws_lost s = [])"

definition join_progress :: "os \<Rightarrow> writer_system \<Rightarrow> bool" where
  "join_progress os s \<longleftrightarrow> (\<forall>fs0 is. ws_joining s = Some (fs0, is) \<longrightarrow>
     (\<exists>k. k \<le> length (fw_writing_chunk (ws_writer s)) \<and> is = [k..<length (fw_writing_chunk (ws_writer s))] \<and>
        join_chunks os (ws_writer s) [0..<k] fs0 = (ws_fs s, Ok ())))"

lemma write_enter_state:
  assumes "write_enter w off = (w', Ok p)"
  shows "\<exists>x. fw_state w = WritingChunks x \<and> fw_state w' = WritingChunks (Suc x)"
  using assms by (auto simp: write_enter_def compare_exchange_free Let_def
      split: file_writer_state.splits if_splits)

lemma write_file_state:
  "write_file os data p (w, fs) = ((w', fs'), r) \<Longrightarrow> fw_state w' = fw_state w"
  using write_file_cases [of os data p w fs] by auto

lemma write_leave_state:
  assumes "write_leave w p = (w', r)" and "fw_state w = WritingChunks (Suc x)"
  shows "fw_state w' = WritingChunks x" "r = Ok ()"
  using assms by (auto simp: write_leave_def Let_def)

lemma consolidate_enter_state:
  "consolidate_enter w = (w', Ok u) \<longleftrightarrow> fw_state w = WritingChunks 0 \<and> w' = w\<lparr>fw_state := Consolidating\<rparr>"
  by (auto simp: consolidate_enter_def split: file_writer_state.splits)

lemma joining_state:
  "writers_counted s \<Longrightarrow> ws_joining s = Some j \<Longrightarrow> fw_state (ws_writer s) = Consolidating"
  by (cases "fw_state (ws_writer s)") (simp_all add: writers_counted_def)

lemma active_state:
  assumes "writers_counted s" and "ws_active s \<noteq> [] \<or> ws_leaving s \<noteq> []"
  shows "fw_state (ws_writer s) =
    WritingChunks (length (ws_active s) + length (ws_leaving s) + length (ws_lost s))" "ws_joining s = None"
  using assms by (cases "fw_state (ws_writer s)"; auto simp: writers_counted_def)+

lemma length_remove1_mem: "x \<in> set xs \<Longrightarrow> length xs = Suc (length (remove1 x xs))"
  by (induction xs) auto

lemma writer_run_counted: "writer_run os w0 s \<Longrightarrow> writer_idle w0 \<Longrightarrow> writers_counted s"
proof (induction rule: writer_run.induct)
  case (start fs)
  then show ?case by (simp add: writers_counted_def writer_idle_def)
next
  case (enter s data off w p)
  then show ?case using write_enter_state [of "ws_writer s" off w p]
    by (auto simp: writers_counted_def)
next
  case (wrote s p data w fs)
  then have s: "writers_counted s" "ws_active s \<noteq> []" by auto
  show ?case
    using active_state [OF s(1)] s(2) write_file_state [OF wrote.hyps(3)] length_remove1_mem [OF wrote.hyps(2)]
    by (simp add: writers_counted_def)
next
  case (failed s p data w fs e)
  then have s: "writers_counted s" "ws_active s \<noteq> []" by auto
  show ?case
    using active_state [OF s(1)] s(2) write_file_state [OF failed.hyps(3)] length_remove1_mem [OF failed.hyps(2)]
    by (simp add: writers_counted_def)
next
  case (leave s p w r)
  then have s: "writers_counted s" "ws_leaving s \<noteq> []" by auto
  show ?case
    using active_state [OF s(1)] s(2) write_leave_state [OF leave.hyps(3)] length_remove1_mem [OF leave.hyps(2)]
    by (simp add: writers_counted_def)
next
  case (join_step s fs0 i "is" fs)
  then show ?case using joining_state [of s] by (simp add: writers_counted_def)
next
  case (join_failed s fs0 i "is" fs e)
  then show ?case using joining_state [of s] by (simp add: writers_counted_def)
next
  case (join_end s fs0)
  then show ?case using joining_state [of s] by (simp add: writers_counted_def)
qed (auto simp: writers_counted_def consolidate_enter_state)

lemma join_chunks_snoc:
  "join_chunks os w xs fs = (fs', Ok ()) \<Longrightarrow> join_chunks os w (xs @ [i]) fs = join_chunk os w i fs'"
proof (induction xs arbitrary: fs)
  case Nil
  have "io_then r (\<lambda>fs _. (fs, Ok ())) = r" for r :: "file_system \<times> (unit, io_error) result"
    by (cases r, cases "snd r") auto
  with Nil show ?case by simp
next
  case (Cons x xs)
  obtain fs1 r where "join_chunk os w x fs = (fs1, r)" by (cases "join_chunk os w x fs")
  with Cons show ?case by (cases r) auto
qed

lemma writer_run_progress: "writer_run os w0 s \<Longrightarrow> writer_idle w0 \<Longrightarrow> join_progress os s"
proof (induction rule: writer_run.induct)
  case (enter s data off w p)
  then show ?case
    using joining_state [OF writer_run_counted, of os w0 s] write_enter_state [of "ws_writer s" off w p]
    by (cases "ws_joining s") (auto simp: join_progress_def)
next
  case (wrote s p data w fs)
  then show ?case using active_state(2) [OF writer_run_counted, of os w0 s] by (force simp: join_progress_def)
next
  case (failed s p data w fs e)
  then show ?case using active_state(2) [OF writer_run_counted, of os w0 s] by (force simp: join_progress_def)
next
  case (leave s p w r)
  then show ?case using active_state(2) [OF writer_run_counted, of os w0 s] by (force simp: join_progress_def)
next
  case (join_refused s w fs e)
  then show ?case
    using joining_state [OF writer_run_counted, of os w0 s]
    by (cases "ws_joining s") (auto simp: join_progress_def consolidate_enter_state)
next
  case (join_step s fs0 i "is" fs)
  let ?n = "length (fw_writing_chunk (ws_writer s))"
  obtain k where k: "k \<le> ?n" "i # is = [k..<?n]" "join_chunks os (ws_writer s) [0..<k] fs0 = (ws_fs s, Ok ())"
    using join_step by (auto simp: join_progress_def)
  have less: "k < ?n" using k(2) by (cases "k < ?n") auto
  with k(2) have "i = k" "is = [Suc k..<?n]" by (simp_all add: upt_conv_Cons)
  with less show ?case
    using join_chunks_snoc [OF k(3), of k] join_step.hyps(3)
    by (auto simp: join_progress_def intro!: exI [of _ "Suc k"])
qed (auto simp: join_progress_def)

section \<open>Properties\<close>

text \<open>
  Claim C6. The pieces of a file, written in any order and possibly more than once, and then joined
  give the file: its content is the data, the files of the chunks are gone, nothing else has
  changed and the writer is ready again.
\<close>

theorem write_chunks_consolidate:
  assumes "file_writer_new hash path (length data) c = (Ok w :: (file_writer, unit) result)"
    and "set ps = {p. p * c < length data}"
  shows "io_then (write_chunks os_works data ps (w, fs)) (\<lambda>s _. consolidate os_works s) =
    ((w, \<lambda>p. if p \<in> chunk_path w ` set ps then None else if p = path then Some data else fs p), Ok ())"
proof -
  have w: "fw_file_path w = path" "fw_file_size w = length data" "fw_chunk_size w = c"
    using assms(1) by (auto simp: file_writer_new_def Let_def split: if_splits)
  show ?thesis
    using write_and_consolidate [OF file_writer_new_idle [OF assms(1)], of data ps fs] assms(2)
    unfolding w by simp
qed

definition sample_writer :: file_writer where
  "sample_writer = \<lparr>fw_file_path = ''/a'', fw_file_size = 5, fw_chunk_size = 2,
     fw_writing_chunk = replicate 3 False, fw_suffix = decimal 0, fw_state = WritingChunks 0\<rparr>"

lemma sample_writer_new:
  "file_writer_new (\<lambda>_ _ _. 0) ''/a'' 5 2 = Ok sample_writer"
  by (simp add: file_writer_new_def sample_writer_def)

theorem write_chunks_consolidate_witness:
  "\<exists>fs'. io_then (write_chunks os_works [1, 2, 3, 4, 5] [2, 0, 1, 0] (sample_writer, Map.empty))
       (\<lambda>s _. consolidate os_works s) = ((sample_writer, fs'), Ok ()) \<and> fs' ''/a'' = Some [1, 2, 3, 4, 5]"
proof -
  have ps: "set [2, 0, 1, 0] = {p :: nat. p * 2 < length [1, 2, 3, 4, 5 :: u8]}" by auto
  have five: "length [1, 2, 3, 4, 5 :: u8] = 5" by simp
  have new: "file_writer_new (\<lambda>_ _ _. 0) ''/a'' (length [1, 2, 3, 4, 5 :: u8]) 2 =
      (Ok sample_writer :: (file_writer, unit) result)"
    unfolding five by (rule sample_writer_new)
  show ?thesis
    by (rule exI, rule conjI, rule write_chunks_consolidate [OF new ps])
       (auto simp: chunk_path_def sample_writer_def)
qed

text \<open>
  Claim C35. A call that fails on the file system is not recovered from: after a write that could not
  open or write its file, or a join that did not find a chunk, no sequence of further calls lets
  the file be joined, whatever the file system does.
\<close>

theorem failed_call_blocks_file:
  assumes "writer_idle w" and "s = (w, fs)" and "0 < fw_file_size w"
    and "write_chunk os data off s = (s', Err Os) \<or> consolidate os s = (s', Err Os)"
    and "writer_call\<^sup>*\<^sup>* s' t"
  shows "consolidate os' t = (t, Err Other)"
proof -
  have st: "fw_state w = WritingChunks 0" using assms(1) by (simp add: writer_idle_def)
  have "writer_stuck (fst s')"
    using assms(4)
  proof
    assume wr: "write_chunk os data off s = (s', Err Os)"
    then have ok: "check_chunk w data off = Ok ()"
      using assms(2,3) by (auto simp: write_chunk_def check_chunk_def Let_def split: if_splits)
    then have "off < fw_file_size w" by (simp add: check_chunk_simps)
    from write_enter_idle [OF st chunk_in_range [OF assms(1) this]] wr ok assms(2,3)
    show ?thesis
      using write_file_cases [of os data "off div fw_chunk_size w" "w\<lparr>fw_state := WritingChunks (Suc 0),
          fw_writing_chunk := (fw_writing_chunk w)[off div fw_chunk_size w := True]\<rparr>" fs]
      by (auto simp: write_chunk_def writer_stuck_def write_leave_def)
  next
    assume "consolidate os s = (s', Err Os)"
    with st assms(2) show ?thesis
      by (auto simp: consolidate_def consolidate_enter_def writer_stuck_def io_then_eq_Err apfst_eq_Pair
          split: if_splits)
  qed
  then have "writer_stuck (fst t)" by (rule writer_calls_stuck [OF assms(5)])
  then show ?thesis by (cases t) (simp add: consolidate_stuck)
qed

theorem failed_call_blocks_file_witness:
  "\<exists>t. consolidate os_works (sample_writer, Map.empty) = (t, Err Os) \<and> consolidate os_works t = (t, Err Other)"
proof -
  have idle: "writer_idle sample_writer" by (rule file_writer_new_idle [OF sample_writer_new])
  obtain t where t: "consolidate os_works (sample_writer, Map.empty) = (t, Err Os)"
    by (simp add: consolidate_def consolidate_enter_def open_truncated_def os_works_def sample_writer_def
        upt_rec join_chunk_def read_to_end_def chunk_path_def)
  then show ?thesis
    using failed_call_blocks_file [OF idle refl, of os_works "[]" 0 Map.empty t t os_works]
    by (auto simp: sample_writer_def)
qed


text \<open>Two writes of the same chunk can be registered at once.\<close>

lemma same_chunk_twice:
  assumes "writer_idle w" and "check_chunk w data off = Ok ()"
  shows "\<exists>w1 w2 p. write_enter w off = (w1, Ok p) \<and> write_enter w1 off = (w2, Ok p)"
proof -
  have st: "fw_state w = WritingChunks 0" using assms(1) by (simp add: writer_idle_def)
  have "off < fw_file_size w" using assms(2) by (simp add: check_chunk_simps)
  note r = chunk_in_range [OF assms(1) this]
  show ?thesis unfolding write_enter_idle [OF st r]
    using r by (auto simp: write_enter_def compare_exchange_free Let_def)
qed

text \<open>The file of a chunk is left behind for a file of size zero.\<close>

lemma empty_file_leaves_chunk:
  assumes "file_writer_new hash path 0 c = (Ok w :: (file_writer, unit) result)"
  shows "io_then (write_chunk os_works [] 0 (w, fs)) (\<lambda>s _. consolidate os_works s) =
    ((w, fs(chunk_path w 0 \<mapsto> [], path \<mapsto> [])), Ok ())"
proof -
  have w: "fw_file_path w = path" "fw_file_size w = 0" "fw_writing_chunk w = []"
    using assms by (auto simp: file_writer_new_def Let_def split: if_splits)
  have idle: "writer_idle w" using assms by (rule file_writer_new_idle)
  have "consolidate os_works (w, fs(chunk_path w 0 \<mapsto> [])) = ((w, fs(chunk_path w 0 \<mapsto> [], path \<mapsto> [])), Ok ())"
    using consolidate_works [OF idle refl, of "fs(chunk_path w 0 \<mapsto> [])" "\<lambda>_. []"] w by (simp add: fun_eq_iff)
  moreover have "open_truncated os_works (chunk_path w 0) fs = (fs(chunk_path w 0 \<mapsto> []), Ok ())"
    by (simp add: open_truncated_def os_works_def)
  ultimately show ?thesis using w by (simp add: write_chunk_def)
qed


end
