(* ===== verification/Configuration.thy ===== *)
theory Configuration
  imports Base32_Reference
begin

text \<open>
  The configuration (\<^verbatim>\<open>src/src/core.rs\<close>, \<^verbatim>\<open>src/src/proto/config.proto\<close>): the message read from the
  configuration file and the values the program uses, with their defaults.

  What comes from outside is gathered in \<open>environment\<close>: the crate that parses sizes, the base 32
  decoder, SHA-256, the certificates of a PEM file, and the user and group of the process.
\<close>

section \<open>Definitions\<close>

datatype storage_strategy = Remote | LocalRemote

fun storage_strategy_try_from :: "int \<Rightarrow> storage_strategy option" where
  "storage_strategy_try_from n = (if n = 0 then Some Remote else if n = 1 then Some LocalRemote else None)"

record proto_config =
  pc_name :: string
  pc_address :: string
  pc_cert :: string
  pc_key :: string
  pc_trusted_peers :: "string list"
  pc_base_dir :: string
  pc_db_url :: string
  pc_storage_strategy :: int
  pc_rclone_config :: string
  pc_remote_base_dir :: string
  pc_mountpoint :: string
  pc_read_cache_dir :: string
  pc_read_cache_size :: string
  pc_fuse_refresh_rate_ms :: "nat option"
  pc_max_pending_requests :: "nat option"
  pc_max_total_pending_requests_size :: string
  pc_fuse_inmem :: bool

record grizol_config =
  gc_local_device_id :: device_id
  gc_name :: string
  gc_trusted_peers :: "device_id list"
  gc_local_base_dir :: string
  gc_net_address :: string
  gc_db_url :: string
  gc_storage_strategy :: storage_strategy
  gc_rclone_config :: "string option"
  gc_remote_base_dir :: string
  gc_read_cache_dir :: string
  gc_read_cache_size :: nat
  gc_mountpoint :: "string option"
  gc_fuse_refresh_rate_ms :: nat
  gc_uid :: nat
  gc_gid :: nat
  gc_max_pending_requests :: nat
  gc_max_total_pending_requests_size :: nat
  gc_fuse_inmem :: bool

record environment =
  env_parse_size :: "string \<Rightarrow> nat option"
  env_base32_decode :: "string \<Rightarrow> bytes option"
  env_sha256 :: "bytes \<Rightarrow> bytes"
  env_certs :: "string \<Rightarrow> bytes list option"
  env_uid :: nat
  env_gid :: nat

definition or_default :: "string \<Rightarrow> string \<Rightarrow> string" where
  "or_default s d = (if s = [] then d else s)"

definition non_empty :: "string \<Rightarrow> string option" where
  "non_empty s = (if s = [] then None else Some s)"

text \<open>\<^verbatim>\<open>DeviceId::from(&Path)\<close>: the first certificate of the file.\<close>

definition device_id_from_path :: "environment \<Rightarrow> string \<Rightarrow> (device_id, unit) result" where
  "device_id_from_path env path =
     and_then (unwrap_opt (env_certs env path)) (\<lambda>certs.
     case certs of [] \<Rightarrow> Panic | cert # _ \<Rightarrow> Ok (device_id_from_cert (env_sha256 env) cert))"

text \<open>\<^verbatim>\<open>x.iter().map(|x| DeviceId::try_from(x).unwrap()).collect()\<close>\<close>

fun parse_peers :: "environment \<Rightarrow> string list \<Rightarrow> (device_id list, unit) result" where
  "parse_peers env [] = Ok []"
| "parse_peers env (x # xs) =
     (case device_id_try_from_str (env_base32_decode env) x of
        Ok d \<Rightarrow> map_ok (\<lambda>ds. d # ds) (parse_peers env xs)
      | _ \<Rightarrow> Panic)"

text \<open>A size in bytes, one gigabyte when it is not set.\<close>

definition size_or_default :: "environment \<Rightarrow> string \<Rightarrow> (nat, unit) result" where
  "size_or_default env s = (if s = [] then Ok 1000000000 else unwrap_opt (env_parse_size env s))"

definition grizol_config_from :: "environment \<Rightarrow> proto_config \<Rightarrow> (grizol_config, unit) result" where
  "grizol_config_from env pc =
     and_then (size_or_default env (pc_read_cache_size pc)) (\<lambda>read_cache_size.
     and_then (size_or_default env (pc_max_total_pending_requests_size pc)) (\<lambda>max_total.
     and_then (device_id_from_path env (pc_cert pc)) (\<lambda>local_device_id.
     and_then (parse_peers env (pc_trusted_peers pc)) (\<lambda>trusted_peers.
     Ok \<lparr>gc_local_device_id = local_device_id,
         gc_name = or_default (pc_name pc) ''Grizol Server'',
         gc_trusted_peers = trusted_peers,
         gc_local_base_dir = or_default (pc_base_dir pc) ''~/grizol/staging_area'',
         gc_net_address = or_default (pc_address pc) ''0.0.0.0:23456'',
         gc_db_url = or_default (pc_db_url pc) ''sqlite:~/.grizol/grizol.db'',
         gc_storage_strategy = (case storage_strategy_try_from (pc_storage_strategy pc) of
            Some s \<Rightarrow> s | None \<Rightarrow> Remote),
         gc_rclone_config = non_empty (pc_rclone_config pc),
         gc_remote_base_dir = or_default (pc_remote_base_dir pc) ''grizol'',
         gc_read_cache_dir = or_default (pc_read_cache_dir pc) ''~/.grizol/read_cache'',
         gc_read_cache_size = read_cache_size,
         gc_mountpoint = non_empty (pc_mountpoint pc),
         gc_fuse_refresh_rate_ms = (case pc_fuse_refresh_rate_ms pc of Some d \<Rightarrow> d | None \<Rightarrow> 0),
         gc_uid = env_uid env,
         gc_gid = env_gid env,
         gc_max_pending_requests = (case pc_max_pending_requests pc of Some x \<Rightarrow> x | None \<Rightarrow> 10000),
         gc_max_total_pending_requests_size = max_total,
         gc_fuse_inmem = pc_fuse_inmem pc\<rparr>))))"

section \<open>Well-formed configurations\<close>

definition grizol_config_wf :: "grizol_config \<Rightarrow> bool" where
  "grizol_config_wf gc \<longleftrightarrow> device_id_wf (gc_local_device_id gc) \<and> (\<forall>d \<in> set (gc_trusted_peers gc). device_id_wf d) \<and>
     gc_name gc \<noteq> [] \<and> gc_local_base_dir gc \<noteq> [] \<and> gc_net_address gc \<noteq> [] \<and> gc_db_url gc \<noteq> [] \<and>
     gc_remote_base_dir gc \<noteq> [] \<and> gc_read_cache_dir gc \<noteq> [] \<and> gc_rclone_config gc \<noteq> Some [] \<and>
     gc_mountpoint gc \<noteq> Some [] \<and> gc_read_cache_size gc < 2 ^ 64 \<and>
     gc_max_total_pending_requests_size gc < 2 ^ 64"

lemma or_default_not_Nil: "d \<noteq> [] \<Longrightarrow> or_default s d \<noteq> []"
  by (simp add: or_default_def)

lemma non_empty_not_Nil: "non_empty s \<noteq> Some []"
  by (simp add: non_empty_def)

lemma try_from_str_wf: "device_id_try_from_str dec s = Ok d \<Longrightarrow> device_id_wf d"
  by (auto simp: device_id_try_from_str_def device_id_wf_def split: if_splits)

lemma device_id_from_path_Ok:
  assumes "device_id_from_path env path = Ok d"
  shows "\<exists>cert. d = device_id_from_cert (env_sha256 env) cert"
proof -
  obtain certs where "env_certs env path = Some certs"
    using assms by (auto simp: device_id_from_path_def)
  with assms show ?thesis by (cases certs) (auto simp: device_id_from_path_def)
qed

lemma parse_peers_Ok:
  "parse_peers env xs = Ok ds \<longleftrightarrow>
     list_all2 (\<lambda>x d. device_id_try_from_str (env_base32_decode env) x = Ok d) xs ds"
proof (induction xs arbitrary: ds)
  case (Cons x xs)
  then show ?case
    by (cases "device_id_try_from_str (env_base32_decode env) x") (auto simp: list_all2_Cons1)
qed (auto simp: list_all2_Nil)

lemma parse_peers_panics: "(\<forall>ds. parse_peers env xs \<noteq> Ok ds) \<Longrightarrow> parse_peers env xs = Panic"
proof (induction xs)
  case (Cons x xs)
  then show ?case
    by (cases "device_id_try_from_str (env_base32_decode env) x"; cases "parse_peers env xs") auto
qed simp

lemma size_or_default_bound:
  "size_or_default env s = Ok n \<Longrightarrow> (\<And>s n. env_parse_size env s = Some n \<Longrightarrow> n < 2 ^ 64) \<Longrightarrow> n < 2 ^ 64"
  by (auto simp: size_or_default_def split: if_splits)

section \<open>Properties\<close>

text \<open>
  Claim C34. Every configuration the program starts with is well formed: identifiers of 32 bytes, no
  empty name, directory or address, and sizes that fit 64 bits, provided that SHA-256 digests have
  32 bytes and parsed sizes fit 64 bits.
\<close>

theorem grizol_config_from_wf:
  assumes "grizol_config_from env pc = Ok gc" and "\<And>bs. length (env_sha256 env bs) = 32"
    and "\<And>s n. env_parse_size env s = Some n \<Longrightarrow> n < 2 ^ 64"
  shows "grizol_config_wf gc"
proof -
  obtain n m d ds where parts: "size_or_default env (pc_read_cache_size pc) = Ok n"
    "size_or_default env (pc_max_total_pending_requests_size pc) = Ok m"
    "device_id_from_path env (pc_cert pc) = Ok d" "parse_peers env (pc_trusted_peers pc) = Ok ds"
    and gc: "gc_local_device_id gc = d" "gc_trusted_peers gc = ds" "gc_read_cache_size gc = n"
      "gc_max_total_pending_requests_size gc = m"
    and strings: "gc_name gc = or_default (pc_name pc) ''Grizol Server''"
      "gc_local_base_dir gc = or_default (pc_base_dir pc) ''~/grizol/staging_area''"
      "gc_net_address gc = or_default (pc_address pc) ''0.0.0.0:23456''"
      "gc_db_url gc = or_default (pc_db_url pc) ''sqlite:~/.grizol/grizol.db''"
      "gc_remote_base_dir gc = or_default (pc_remote_base_dir pc) ''grizol''"
      "gc_read_cache_dir gc = or_default (pc_read_cache_dir pc) ''~/.grizol/read_cache''"
      "gc_rclone_config gc = non_empty (pc_rclone_config pc)" "gc_mountpoint gc = non_empty (pc_mountpoint pc)"
    using assms(1) by (auto simp: grizol_config_from_def)
  have "device_id_wf d"
    using device_id_from_path_Ok [OF parts(3)] assms(2)
    by (auto simp: device_id_from_cert_def device_id_wf_def DEVICE_ID_LEN_def)
  moreover have "\<forall>x \<in> set ds. device_id_wf x"
    using parts(4) try_from_str_wf unfolding parse_peers_Ok list_all2_conv_all_nth
    by (metis in_set_conv_nth)
  moreover have "n < 2 ^ 64" "m < 2 ^ 64"
    using size_or_default_bound parts(1,2) assms(3) by blast+
  moreover have "gc_name gc \<noteq> []" "gc_local_base_dir gc \<noteq> []" "gc_net_address gc \<noteq> []" "gc_db_url gc \<noteq> []"
    "gc_remote_base_dir gc \<noteq> []" "gc_read_cache_dir gc \<noteq> []" "gc_rclone_config gc \<noteq> Some []"
    "gc_mountpoint gc \<noteq> Some []"
    unfolding strings by (simp_all add: or_default_not_Nil non_empty_not_Nil)
  ultimately show ?thesis by (simp add: grizol_config_wf_def gc)
qed

definition sample_env :: environment where
  "sample_env = \<lparr>env_parse_size = \<lambda>s. if s = ''1KB'' then Some 1000 else None,
     env_base32_decode = rfc4648_decode, env_sha256 = \<lambda>_. replicate 32 7,
     env_certs = \<lambda>p. if p = ''cert.pem'' then Some [[1, 2, 3]] else None, env_uid = 1000, env_gid = 1000\<rparr>"

definition sample_proto_config :: proto_config where
  "sample_proto_config = \<lparr>pc_name = '''', pc_address = '''', pc_cert = ''cert.pem'', pc_key = ''key.pem'',
     pc_trusted_peers = [], pc_base_dir = '''', pc_db_url = '''', pc_storage_strategy = 1, pc_rclone_config = '''',
     pc_remote_base_dir = '''', pc_mountpoint = '''', pc_read_cache_dir = '''', pc_read_cache_size = ''1KB'',
     pc_fuse_refresh_rate_ms = None, pc_max_pending_requests = None, pc_max_total_pending_requests_size = '''',
     pc_fuse_inmem = False\<rparr>"

theorem grizol_config_from_wf_witness:
  "\<exists>gc. grizol_config_from sample_env sample_proto_config = Ok gc \<and> gc_read_cache_size gc = 1000 \<and>
     gc_max_pending_requests gc = 10000 \<and> gc_storage_strategy gc = LocalRemote \<and> grizol_config_wf gc"
proof -
  obtain gc where gc: "grizol_config_from sample_env sample_proto_config = Ok gc" "gc_read_cache_size gc = 1000"
    "gc_max_pending_requests gc = 10000" "gc_storage_strategy gc = LocalRemote"
    by (simp add: grizol_config_from_def sample_env_def sample_proto_config_def size_or_default_def
        device_id_from_path_def)
  have "grizol_config_wf gc"
    by (rule grizol_config_from_wf [OF gc(1)]) (auto simp: sample_env_def split: if_splits)
  with gc show ?thesis by blast
qed

end
