(* ===== verification/Bep_Messages.thy ===== *)
theory Bep_Messages
  imports Grizol_Prelude
begin

text \<open>
  The messages of the Block Exchange Protocol (\<^verbatim>\<open>src/src/proto/bep.proto\<close>) with the Rust
  types that \<^verbatim>\<open>prost\<close> gives their fields: strings and bytes as lists, enumerations as
  \<^verbatim>\<open>i32\<close> (here \<open>int\<close>), \<^verbatim>\<open>uint64\<close> as 64-bit words, nested messages as options.

  The encoders and decoders that \<^verbatim>\<open>prost\<close> generates and the LZ4 decompressor are not part of
  the repository: they are the fields of the parameter \<open>codec\<close>.
\<close>

section \<open>Messages\<close>

record hello =
  hello_device_name :: string
  hello_client_name :: string
  hello_client_version :: string

record header =
  hdr_type :: int
  hdr_compression :: int

datatype message_type =
    MT_ClusterConfig | MT_Index | MT_IndexUpdate | MT_Request | MT_Response
  | MT_DownloadProgress | MT_Ping | MT_Close

text \<open>\<^verbatim>\<open>MessageType::into\<close> and \<^verbatim>\<open>MessageType::try_from\<close>.\<close>

fun message_type_into :: "message_type \<Rightarrow> int" where
  "message_type_into MT_ClusterConfig = 0"
| "message_type_into MT_Index = 1"
| "message_type_into MT_IndexUpdate = 2"
| "message_type_into MT_Request = 3"
| "message_type_into MT_Response = 4"
| "message_type_into MT_DownloadProgress = 5"
| "message_type_into MT_Ping = 6"
| "message_type_into MT_Close = 7"

definition message_type_try_from :: "int \<Rightarrow> message_type option" where
  "message_type_try_from i =
     (if i = 0 then Some MT_ClusterConfig else if i = 1 then Some MT_Index
      else if i = 2 then Some MT_IndexUpdate else if i = 3 then Some MT_Request
      else if i = 4 then Some MT_Response else if i = 5 then Some MT_DownloadProgress
      else if i = 6 then Some MT_Ping else if i = 7 then Some MT_Close else None)"

datatype message_compression = CompressionNone | Lz4

definition message_compression_try_from :: "int \<Rightarrow> message_compression option" where
  "message_compression_try_from i =
     (if i = 0 then Some CompressionNone else if i = 1 then Some Lz4 else None)"

record device =
  dvc_id :: bytes
  dvc_name :: string
  dvc_addresses :: "string list"
  dvc_compression :: int
  dvc_cert_name :: string
  dvc_max_sequence :: int
  dvc_introducer :: bool
  dvc_index_id :: u64
  dvc_skip_introduction_removals :: bool
  dvc_encryption_password_token :: bytes

record folder =
  fol_id :: string
  fol_label :: string
  fol_read_only :: bool
  fol_ignore_permissions :: bool
  fol_ignore_delete :: bool
  fol_disable_temp_indexes :: bool
  fol_paused :: bool
  fol_devices :: "device list"

record cluster_config =
  cc_folders :: "folder list"

record block_info =
  bi_offset :: int
  bi_size :: int
  bi_hash :: bytes
  bi_weak_hash :: int

record counter =
  ctr_id :: u64
  ctr_value :: u64

record version_vector =
  vec_counters :: "counter list"

record file_info =
  fi_name :: string
  fi_type :: int
  fi_size :: int
  fi_permissions :: int
  fi_modified_s :: int
  fi_modified_ns :: int
  fi_modified_by :: u64
  fi_deleted :: bool
  fi_invalid :: bool
  fi_no_permissions :: bool
  fi_version :: "version_vector option"
  fi_sequence :: int
  fi_block_size :: int
  fi_blocks :: "block_info list"
  fi_symlink_target :: string

record index =
  idx_folder :: string
  idx_files :: "file_info list"

record request =
  req_id :: int
  req_folder :: string
  req_name :: string
  req_offset :: int
  req_size :: int
  req_hash :: bytes
  req_from_temporary :: bool

record response =
  resp_id :: int
  resp_data :: bytes
  resp_code :: int

record file_download_progress_update =
  upd_type :: int
  upd_name :: string
  upd_version :: "version_vector option"
  upd_block_indexes :: "int list"

record download_progress =
  dp_folder :: string
  dp_updates :: "file_download_progress_update list"

record close_msg =
  close_reason :: string

text \<open>\<^verbatim>\<open>CompleteMessage\<close>: every message the connection can carry.\<close>

datatype complete_message =
    Hello hello
  | ClusterConfig cluster_config
  | Index index
  | IndexUpdate index
  | Request request
  | Response response
  | DownloadProgress download_progress
  | Ping
  | Close close_msg

section \<open>Coders that are not part of the repository\<close>

record codec =
  hello_encode :: "hello \<Rightarrow> bytes"
  hello_decode :: "bytes \<Rightarrow> hello option"
  header_encode :: "header \<Rightarrow> bytes"
  header_decode :: "bytes \<Rightarrow> header option"
  cluster_config_encode :: "cluster_config \<Rightarrow> bytes"
  cluster_config_decode :: "bytes \<Rightarrow> cluster_config option"
  index_encode :: "index \<Rightarrow> bytes"
  index_decode :: "bytes \<Rightarrow> index option"
  index_update_encode :: "index \<Rightarrow> bytes"
  index_update_decode :: "bytes \<Rightarrow> index option"
  request_encode :: "request \<Rightarrow> bytes"
  request_decode :: "bytes \<Rightarrow> request option"
  response_encode :: "response \<Rightarrow> bytes"
  response_decode :: "bytes \<Rightarrow> response option"
  download_progress_encode :: "download_progress \<Rightarrow> bytes"
  download_progress_decode :: "bytes \<Rightarrow> download_progress option"
  ping_encode :: bytes
  ping_decode :: "bytes \<Rightarrow> unit option"
  close_encode :: "close_msg \<Rightarrow> bytes"
  close_decode :: "bytes \<Rightarrow> close_msg option"
  lz4_decompress :: "bytes \<Rightarrow> nat \<Rightarrow> bytes option"

lemma message_type_roundtrip [simp]: "message_type_try_from (message_type_into t) = Some t"
  by (cases t) (simp_all add: message_type_try_from_def)

lemma message_type_try_from_eq_Some:
  "message_type_try_from i = Some t \<longleftrightarrow> i = message_type_into t"
  by (cases t) (auto simp: message_type_try_from_def)

end
