(* ===== verification/Indices.thy ===== *)
theory Indices
  imports Bep_Messages Device_Id "HOL-Library.AList"
begin

text \<open>
  The indices that the program keeps in memory (\<^verbatim>\<open>src/src/core/indices.rs\<close>), one per folder and
  device.  A \<^verbatim>\<open>HashMap\<close> is an association list with distinct keys; its iteration order, which
  Rust leaves open, is the order of the list, and the theorems speak of look-ups only.
\<close>

section \<open>Definitions\<close>

record folder_device =
  fd_folder :: string
  fd_device_id :: device_id

record grizol_index =
  gi_folder :: string
  gi_files :: "(string \<times> file_info) list"

definition grizol_index_default :: grizol_index where
  "grizol_index_default = \<lparr>gi_folder = [], gi_files = []\<rparr>"

record grizol_indices =
  indices :: "(folder_device \<times> grizol_index) list"

definition grizol_indices_default :: grizol_indices where
  "grizol_indices_default = \<lparr>indices = []\<rparr>"

text \<open>The loop that both conversions and \<^verbatim>\<open>insert_file_info\<close> use: later files win.\<close>

fun insert_files :: "file_info list \<Rightarrow> (string \<times> file_info) list \<Rightarrow> (string \<times> file_info) list" where
  "insert_files [] files = files"
| "insert_files (f # fs) files = insert_files fs (AList.update (fi_name f) f files)"

definition grizol_index_from :: "index \<Rightarrow> grizol_index" where
  "grizol_index_from value =
     (let grizol_index = grizol_index_default\<lparr>gi_folder := idx_folder value\<rparr> in
      grizol_index\<lparr>gi_files := insert_files (idx_files value) (gi_files grizol_index)\<rparr>)"

definition index_from_grizol :: "grizol_index \<Rightarrow> index" where
  "index_from_grizol value = \<lparr>idx_folder = gi_folder value, idx_files = map snd (gi_files value)\<rparr>"

definition indices_insert ::
    "grizol_indices \<Rightarrow> device_id \<Rightarrow> index \<Rightarrow> grizol_indices \<times> index option" where
  "indices_insert self device_id index =
     (let key = \<lparr>fd_folder = idx_folder index, fd_device_id = device_id\<rparr> in
      (self\<lparr>indices := AList.update key (grizol_index_from index) (indices self)\<rparr>,
       map_option index_from_grizol (map_of (indices self) key)))"

definition indices_index :: "grizol_indices \<Rightarrow> folder_device \<Rightarrow> index option" where
  "indices_index self folder_device = map_option index_from_grizol (map_of (indices self) folder_device)"

text \<open>\<^verbatim>\<open>entry(key).or_insert(Default::default())\<close>\<close>

definition entry_or_default :: "grizol_indices \<Rightarrow> folder_device \<Rightarrow> grizol_index" where
  "entry_or_default self key =
     (case map_of (indices self) key of None \<Rightarrow> grizol_index_default | Some gi \<Rightarrow> gi)"

definition indices_insert_file_info ::
    "grizol_indices \<Rightarrow> string \<Rightarrow> device_id \<Rightarrow> file_info list \<Rightarrow> grizol_indices" where
  "indices_insert_file_info self folder device_id file_info =
     (let folder_device = \<lparr>fd_folder = folder, fd_device_id = device_id\<rparr>;
          gi = entry_or_default self folder_device
      in self\<lparr>indices := AList.update folder_device
           (gi\<lparr>gi_files := insert_files file_info (gi_files gi)\<rparr>) (indices self)\<rparr>)"

definition indices_remove_file_info ::
    "grizol_indices \<Rightarrow> string \<Rightarrow> device_id \<Rightarrow> string \<Rightarrow> grizol_indices \<times> file_info option" where
  "indices_remove_file_info self folder device_id file_name =
     (let folder_device = \<lparr>fd_folder = folder, fd_device_id = device_id\<rparr>;
          gi = entry_or_default self folder_device
      in (self\<lparr>indices := AList.update folder_device
            (gi\<lparr>gi_files := AList.delete file_name (gi_files gi)\<rparr>) (indices self)\<rparr>,
          map_of (gi_files gi) file_name))"

section \<open>Look-ups\<close>

text \<open>The file that an index holds under a name: the last one of that name.\<close>

definition file_named :: "index \<Rightarrow> string \<Rightarrow> file_info option" where
  "file_named idx n = map_of (rev (map (\<lambda>f. (fi_name f, f)) (idx_files idx))) n"

definition files_wf :: "(string \<times> file_info) list \<Rightarrow> bool" where
  "files_wf files \<longleftrightarrow> distinct (map fst files) \<and> (\<forall>(n, f) \<in> set files. fi_name f = n)"

definition indices_wf :: "grizol_indices \<Rightarrow> bool" where
  "indices_wf self \<longleftrightarrow> distinct (map fst (indices self)) \<and>
     (\<forall>(k, gi) \<in> set (indices self). files_wf (gi_files gi))"

lemma files_wf_Nil [wf_intros]: "files_wf []"
  by (simp add: files_wf_def)

lemma files_wf_update [wf_intros]: "files_wf files \<Longrightarrow> files_wf (AList.update (fi_name f) f files)"
proof -
  assume wf: "files_wf files"
  have "fi_name g = n" if "(n, g) \<in> set (AList.update (fi_name f) f files)" for n g
  proof -
    have "map_of (AList.update (fi_name f) f files) n = Some g"
      using that wf by (simp add: files_wf_def distinct_update)
    then show ?thesis
      using wf by (auto simp: update_conv' files_wf_def dest!: map_of_SomeD split: if_splits)
  qed
  then show ?thesis
    using wf by (auto simp: files_wf_def distinct_update)
qed

lemma files_wf_delete [wf_intros]: "files_wf files \<Longrightarrow> files_wf (AList.delete n files)"
  by (auto simp: files_wf_def AList.delete_eq distinct_map_filter)

lemma files_wf_insert_files [wf_intros]: "files_wf files \<Longrightarrow> files_wf (insert_files fs files)"
  by (induction fs arbitrary: files) (simp_all add: files_wf_update)

lemma map_of_insert_files:
  "map_of (insert_files fs files) n =
     (case map_of (rev (map (\<lambda>f. (fi_name f, f)) fs)) n of None \<Rightarrow> map_of files n | Some f \<Rightarrow> Some f)"
  by (induction fs arbitrary: files)
     (auto simp: update_conv' map_add_def split: option.splits)

lemma map_of_rev_distinct: "distinct (map fst xs) \<Longrightarrow> map_of (rev xs) = map_of xs"
  by (rule map_of_inject_set [THEN iffD2]) (simp_all add: rev_map [symmetric])

lemma map_of_named:
  assumes "files_wf files"
  shows "map_of (rev (map (\<lambda>f. (fi_name f, f)) (map snd files))) n = map_of files n"
proof -
  have "map (\<lambda>f. (fi_name f, f)) (map snd files) = map (\<lambda>e. e) files"
    unfolding map_map using assms by (intro map_cong) (auto simp: files_wf_def)
  then have eq: "map (\<lambda>f. (fi_name f, f)) (map snd files) = files" by simp
  show ?thesis
    unfolding eq using assms by (simp add: files_wf_def map_of_rev_distinct)
qed

lemma file_named_stored: "files_wf (gi_files gi) \<Longrightarrow> file_named (index_from_grizol gi) n = map_of (gi_files gi) n"
  by (simp only: file_named_def index_from_grizol_def index.simps map_of_named)

lemma file_named_from: "map_of (gi_files (grizol_index_from idx)) n = file_named idx n"
  by (simp add: grizol_index_from_def map_of_insert_files file_named_def grizol_index_default_def
      split: option.splits)

lemma entry_files_wf [wf_intros]: "indices_wf self \<Longrightarrow> files_wf (gi_files (entry_or_default self k))"
  by (auto simp: indices_wf_def entry_or_default_def grizol_index_default_def wf_intros
      dest!: map_of_SomeD split: option.splits)

lemma indices_wf_update [wf_intros]:
  assumes "indices_wf self" and "files_wf (gi_files gi)"
  shows "indices_wf (self\<lparr>indices := AList.update k gi (indices self)\<rparr>)"
proof -
  have "files_wf (gi_files g)" if "(j, g) \<in> set (AList.update k gi (indices self))" for j g
  proof -
    have "map_of (AList.update k gi (indices self)) j = Some g"
      using that assms(1) by (simp add: indices_wf_def distinct_update)
    then show ?thesis
      using assms by (auto simp: update_conv' indices_wf_def dest!: map_of_SomeD split: if_splits)
  qed
  then show ?thesis
    using assms by (auto simp: indices_wf_def distinct_update)
qed

lemma index_update:
  "indices_index (self\<lparr>indices := AList.update k gi (indices self)\<rparr>) j =
     (if j = k then Some (index_from_grizol gi) else indices_index self j)"
  by (simp add: indices_index_def update_conv')

lemma indices_insert_lookup:
  assumes "indices_wf self" and "indices_insert self d idx = (self', old)"
  shows "indices_wf self' \<and>
    (\<exists>stored. indices_index self' \<lparr>fd_folder = idx_folder idx, fd_device_id = d\<rparr> = Some stored \<and>
       idx_folder stored = idx_folder idx \<and> distinct (map fi_name (idx_files stored)) \<and>
       (\<forall>n. file_named stored n = file_named idx n)) \<and>
    (\<forall>k. k \<noteq> \<lparr>fd_folder = idx_folder idx, fd_device_id = d\<rparr> \<longrightarrow>
       indices_index self' k = indices_index self k)"
proof -
  let ?gi = "grizol_index_from idx"
  have wf: "files_wf (gi_files ?gi)"
    by (simp add: grizol_index_from_def grizol_index_default_def wf_intros)
  have self': "self' = self\<lparr>indices := AList.update \<lparr>fd_folder = idx_folder idx, fd_device_id = d\<rparr> ?gi (indices self)\<rparr>"
    using assms(2) by (simp add: indices_insert_def Let_def)
  have "map fi_name (idx_files (index_from_grizol ?gi)) = map fst (gi_files ?gi)"
    using wf by (auto simp: index_from_grizol_def files_wf_def)
  then have "distinct (map fi_name (idx_files (index_from_grizol ?gi)))"
    using wf by (simp add: files_wf_def)
  then show ?thesis
    using indices_wf_update [OF assms(1) wf] file_named_stored [OF wf]
    by (simp add: self' index_update file_named_from)
       (simp add: index_from_grizol_def grizol_index_from_def)
qed

text \<open>
  An index that is stored is found again: the stored index has the folder of the given
  one and, under every name, the last file of that name (each name once); the indices of other
  folders and devices stay as they are, and the in-memory invariant is kept.
\<close>

lemma indices_insert_index:
  assumes "indices_wf self" and "indices_insert self d idx = (self', old)"
  shows "indices_wf self' \<and>
    (\<exists>stored. indices_index self' \<lparr>fd_folder = idx_folder idx, fd_device_id = d\<rparr> = Some stored \<and>
       idx_folder stored = idx_folder idx \<and> distinct (map fi_name (idx_files stored)) \<and>
       (\<forall>n. file_named stored n = file_named idx n)) \<and>
    (\<forall>k. k \<noteq> \<lparr>fd_folder = idx_folder idx, fd_device_id = d\<rparr> \<longrightarrow>
       indices_index self' k = indices_index self k)"
  by (rule indices_insert_lookup [OF assms])

definition sample_file :: file_info where
  "sample_file = \<lparr>fi_name = ''a'', fi_type = 0, fi_size = 5, fi_permissions = 0, fi_modified_s = 1,
     fi_modified_ns = 2, fi_modified_by = 3, fi_deleted = False, fi_invalid = False,
     fi_no_permissions = False, fi_version = Some \<lparr>vec_counters = [\<lparr>ctr_id = 3, ctr_value = 1\<rparr>]\<rparr>,
     fi_sequence = 1, fi_block_size = 5, fi_blocks = [], fi_symlink_target = []\<rparr>"

definition sample_device :: device_id where
  "sample_device = \<lparr>dev_bytes = replicate 32 7\<rparr>"

lemma indices_insert_index_witness:
  "\<exists>self' old. indices_insert grizol_indices_default sample_device \<lparr>idx_folder = ''f'', idx_files = [sample_file]\<rparr>
      = (self', old) \<and> indices_wf self'"
  using indices_insert_index [of grizol_indices_default sample_device
      "\<lparr>idx_folder = ''f'', idx_files = [sample_file]\<rparr>"]
  by (cases "indices_insert grizol_indices_default sample_device \<lparr>idx_folder = ''f'', idx_files = [sample_file]\<rparr>")
     (simp add: indices_wf_def grizol_indices_default_def)

lemma insert_file_info_lookup:
  assumes "indices_wf self" and "k = \<lparr>fd_folder = folder, fd_device_id = d\<rparr>"
  shows "indices_wf (indices_insert_file_info self folder d fs) \<and>
    (\<exists>idx'. indices_index (indices_insert_file_info self folder d fs) k = Some idx' \<and>
       (case indices_index self k of
          Some idx \<Rightarrow> idx_folder idx' = idx_folder idx \<and>
            (\<forall>n. file_named idx' n = (case file_named \<lparr>idx_folder = folder, idx_files = fs\<rparr> n of
               None \<Rightarrow> file_named idx n | Some f \<Rightarrow> Some f))
        | None \<Rightarrow> idx_folder idx' = [] \<and>
            (\<forall>n. file_named idx' n = file_named \<lparr>idx_folder = folder, idx_files = fs\<rparr> n)))"
proof -
  let ?e = "entry_or_default self k"
  let ?gi = "?e\<lparr>gi_files := insert_files fs (gi_files ?e)\<rparr>"
  have wf: "files_wf (gi_files ?gi)"
    using entry_files_wf [OF assms(1)] by (simp add: files_wf_insert_files)
  have upd: "indices_insert_file_info self folder d fs = self\<lparr>indices := AList.update k ?gi (indices self)\<rparr>"
    by (simp add: indices_insert_file_info_def assms(2) Let_def)
  have named: "file_named (index_from_grizol ?gi) n =
      (case file_named \<lparr>idx_folder = folder, idx_files = fs\<rparr> n of None \<Rightarrow> map_of (gi_files ?e) n
       | Some f \<Rightarrow> Some f)" for n
    by (simp only: file_named_stored [OF wf]) (simp add: map_of_insert_files file_named_def)
  have at: "indices_index (indices_insert_file_info self folder d fs) k = Some (index_from_grizol ?gi)"
    by (simp add: upd index_update)
  have folder: "idx_folder (index_from_grizol ?gi) = gi_folder ?e"
    by (simp add: index_from_grizol_def)
  have "case indices_index self k of
      Some idx \<Rightarrow> gi_folder ?e = idx_folder idx \<and> (\<forall>n. map_of (gi_files ?e) n = file_named idx n)
    | None \<Rightarrow> gi_folder ?e = [] \<and> gi_files ?e = []"
  proof (cases "map_of (indices self) k")
    case (Some gi)
    then have e: "?e = gi" by (simp add: entry_or_default_def)
    have "file_named (index_from_grizol gi) n = map_of (gi_files gi) n" for n
      using file_named_stored entry_files_wf [OF assms(1), of k] e by simp
    with Some e show ?thesis
      by (simp add: indices_index_def) (simp add: index_from_grizol_def)
  qed (simp add: indices_index_def entry_or_default_def grizol_index_default_def)
  then show ?thesis
    using at folder named indices_wf_update [OF assms(1) wf, of k] upd
    by (auto split: option.splits)
qed

text \<open>
  Claim C31. Adding files to an index that is in memory keeps its folder and replaces exactly the
  files of these names.  When the index is not in memory the operation does not fail: it creates an
  index with the empty folder name that holds only the added files, which later look-ups return
  although the folder of its key is another one.
\<close>

theorem insert_file_info_merges:
  assumes "indices_wf self" and "k = \<lparr>fd_folder = folder, fd_device_id = d\<rparr>"
  shows "indices_wf (indices_insert_file_info self folder d fs) \<and>
    (\<exists>idx'. indices_index (indices_insert_file_info self folder d fs) k = Some idx' \<and>
       (case indices_index self k of
          Some idx \<Rightarrow> idx_folder idx' = idx_folder idx \<and>
            (\<forall>n. file_named idx' n = (case file_named \<lparr>idx_folder = folder, idx_files = fs\<rparr> n of
               None \<Rightarrow> file_named idx n | Some f \<Rightarrow> Some f))
        | None \<Rightarrow> idx_folder idx' = [] \<and>
            (\<forall>n. file_named idx' n = file_named \<lparr>idx_folder = folder, idx_files = fs\<rparr> n)))"
  by (rule insert_file_info_lookup [OF assms])

theorem insert_file_info_merges_witness:
  "\<exists>idx'. indices_index (indices_insert_file_info grizol_indices_default ''f'' sample_device [sample_file])
      \<lparr>fd_folder = ''f'', fd_device_id = sample_device\<rparr> = Some idx' \<and> idx_folder idx' = []"
proof -
  have "indices_wf grizol_indices_default" and
    "indices_index grizol_indices_default \<lparr>fd_folder = ''f'', fd_device_id = sample_device\<rparr> = None"
    by (simp_all add: indices_wf_def grizol_indices_default_def indices_index_def)
  with insert_file_info_merges [OF this(1) refl, of "''f''" sample_device "[sample_file]"]
  show ?thesis by auto
qed

end
