(* ===== verification/Database.thy ===== *)
theory Database
  imports Indices
begin

text \<open>
  The tables of the database (\<^verbatim>\<open>src/migrations/20231005195238_grizol.sql\<close>) and the SQL statements
  that \<^verbatim>\<open>src/src/core/bep_state.rs\<close> runs on them.

  \<^item> A table is the list of its rows in the order of insertion.  A statement that violates a
    constraint of the schema (primary key, \<^verbatim>\<open>UNIQUE\<close>, foreign key) fails, and since every caller
    expects success the failure is \<open>Panic\<close>.
  \<^item> The column \<^verbatim>\<open>device\<close> holds the printed device identifier, which determines the identifier
    (\<open>device_id_string_roundtrip\<close>); the rows hold the identifier itself.  Columns hold the values that
    were bound, so the conversions when reading are identities; the one that can fail when writing,
    from the \<^verbatim>\<open>u64\<close> of a counter to \<^verbatim>\<open>i64\<close>, is modelled.
  \<^item> Foreign keys are enforced on every connection; deletions cascade as the schema says.
\<close>

section \<open>Tables\<close>

text \<open>The primary key of a file: folder, device, name.\<close>

type_synonym file_key = "string \<times> device_id \<times> string"

record file_row =
  fr_rowid :: nat
  fr_key :: file_key
  fr_info :: file_info

record block_row =
  br_key :: file_key
  br_block :: block_info
  br_status :: int

record version_row =
  vr_key :: file_key
  vr_counter :: counter

record location_row =
  lr_key :: file_key
  lr_backend :: string
  lr_location :: string

record cache_row =
  cr_key :: file_key
  cr_timestamp :: int

record folder_row =
  fo_rowid :: nat
  fo_info :: folder

record device_row =
  dr_folder :: string
  dr_id :: device_id
  dr_addresses :: string
  dr_info :: device

record db =
  db_folders :: "folder_row list"
  db_devices :: "device_row list"
  db_index :: "(string \<times> device_id) list"
  db_files :: "file_row list"
  db_locations :: "location_row list"
  db_cache :: "cache_row list"
  db_blocks :: "block_row list"
  db_versions :: "version_row list"

definition db_empty :: db where
  "db_empty = \<lparr>db_folders = [], db_devices = [], db_index = [], db_files = [], db_locations = [],
     db_cache = [], db_blocks = [], db_versions = []\<rparr>"

section \<open>Statements on files\<close>

definition file_keys :: "db \<Rightarrow> file_key set" where
  "file_keys d = fr_key ` set (db_files d)"

text \<open>The scalar columns of a file.\<close>

definition columns_of :: "file_info \<Rightarrow> file_info" where
  "columns_of f = f\<lparr>fi_version := None, fi_blocks := []\<rparr>"

definition next_rowid :: "nat list \<Rightarrow> nat" where
  "next_rowid ids = Suc (fold max ids 0)"

text \<open>\<^verbatim>\<open>INSERT INTO bep_file_info ... ON CONFLICT(folder, device, name) DO UPDATE SET ...\<close>\<close>

definition upsert_file :: "file_key \<Rightarrow> file_info \<Rightarrow> db \<Rightarrow> (db, unit) result" where
  "upsert_file k f d =
     (if (fst k, fst (snd k)) \<notin> set (db_index d) then Panic
      else if fi_type f \<notin> {0, 1, 2, 3, 4} then Panic
      else if (\<exists>r \<in> set (db_files d). fr_key r \<noteq> k \<and> fi_sequence (fr_info r) = fi_sequence f) then Panic
      else Ok (d\<lparr>db_files :=
        (if k \<in> file_keys d
         then map (\<lambda>r. if fr_key r = k then r\<lparr>fr_info := columns_of f\<rparr> else r) (db_files d)
         else db_files d @ [\<lparr>fr_rowid = next_rowid (map fr_rowid (db_files d)), fr_key = k,
           fr_info = columns_of f\<rparr>])\<rparr>))"

text \<open>\<^verbatim>\<open>INSERT INTO bep_file_version ... ON CONFLICT ... DO NOTHING\<close>\<close>

definition insert_version :: "file_key \<Rightarrow> counter \<Rightarrow> db \<Rightarrow> (db, unit) result" where
  "insert_version k c d =
     (let row = \<lparr>vr_key = k, vr_counter = c\<rparr> in
      if 2 ^ 63 \<le> unat (ctr_value c) then Panic
      else if k \<notin> file_keys d then Panic
      else if row \<in> set (db_versions d) then Ok d
      else Ok (d\<lparr>db_versions := db_versions d @ [row]\<rparr>))"

text \<open>The primary key of a block row.\<close>

definition block_pk :: "block_row \<Rightarrow> file_key \<times> int \<times> int \<times> bytes" where
  "block_pk r = (br_key r, bi_offset (br_block r), bi_size (br_block r), bi_hash (br_block r))"

definition not_stored :: int where "not_stored = 0"

text \<open>\<^verbatim>\<open>INSERT INTO bep_block_info\<close> with \<^verbatim>\<open>ON CONFLICT ... DO NOTHING\<close> (lenient) or without.\<close>

definition insert_block :: "bool \<Rightarrow> file_key \<Rightarrow> block_info \<Rightarrow> db \<Rightarrow> (db, unit) result" where
  "insert_block lenient k b d =
     (let row = \<lparr>br_key = k, br_block = b, br_status = not_stored\<rparr> in
      if k \<notin> file_keys d then Panic
      else if block_pk row \<in> block_pk ` set (db_blocks d) then (if lenient then Ok d else Panic)
      else Ok (d\<lparr>db_blocks := db_blocks d @ [row]\<rparr>))"

text \<open>\<^verbatim>\<open>DELETE FROM bep_file_info WHERE ...\<close> with its cascade.\<close>

definition delete_files :: "(file_key \<Rightarrow> bool) \<Rightarrow> db \<Rightarrow> db" where
  "delete_files P d =
     d\<lparr>db_files := filter (\<lambda>r. \<not> P (fr_key r)) (db_files d),
       db_locations := filter (\<lambda>r. \<not> P (lr_key r)) (db_locations d),
       db_cache := filter (\<lambda>r. \<not> P (cr_key r)) (db_cache d),
       db_blocks := filter (\<lambda>r. \<not> P (br_key r)) (db_blocks d),
       db_versions := filter (\<lambda>r. \<not> P (vr_key r)) (db_versions d)\<rparr>"

text \<open>\<^verbatim>\<open>WHERE folder = ? AND device = ?\<close>\<close>

definition in_folder :: "string \<Rightarrow> device_id \<Rightarrow> file_key \<Rightarrow> bool" where
  "in_folder folder dev k \<longleftrightarrow> fst k = folder \<and> fst (snd k) = dev"

text \<open>
  The body of the loops that write a file: the row, its version counters, its blocks.
\<close>

definition insert_file :: "bool \<Rightarrow> string \<Rightarrow> device_id \<Rightarrow> file_info \<Rightarrow> db \<Rightarrow> (db, unit) result" where
  "insert_file lenient folder device_id f d =
     (let k = (folder, device_id, fi_name f) in
      and_then (upsert_file k f d) (\<lambda>d.
      and_then (unwrap_opt (fi_version f)) (\<lambda>version.
      and_then (for_each (vec_counters version) (insert_version k) d) (\<lambda>d.
      for_each (fi_blocks f) (insert_block lenient k) d))))"

section \<open>Reading files\<close>

definition blocks_of :: "db \<Rightarrow> file_key \<Rightarrow> block_info list" where
  "blocks_of d k = map br_block (filter (\<lambda>r. br_key r = k) (db_blocks d))"

definition counters_of :: "db \<Rightarrow> file_key \<Rightarrow> counter list" where
  "counters_of d k = map vr_counter (filter (\<lambda>r. vr_key r = k) (db_versions d))"

definition stored_file :: "db \<Rightarrow> file_row \<Rightarrow> file_info" where
  "stored_file d r =
     (fr_info r)\<lparr>fi_version := Some \<lparr>vec_counters = counters_of d (fr_key r)\<rparr>,
       fi_blocks := blocks_of d (fr_key r)\<rparr>"

text \<open>The three queries of \<^verbatim>\<open>BepState::file_info\<close>.\<close>

definition file_at :: "db \<Rightarrow> file_key \<Rightarrow> file_info option" where
  "file_at d k = map_option (stored_file d) (find (\<lambda>r. fr_key r = k) (db_files d))"

section \<open>Invariant\<close>

definition db_wf :: "db \<Rightarrow> bool" where
  "db_wf d \<longleftrightarrow>
     distinct (map fr_key (db_files d)) \<and> distinct (map fr_rowid (db_files d)) \<and>
     distinct (map (\<lambda>r. fi_sequence (fr_info r)) (db_files d)) \<and>
     (\<forall>r \<in> set (db_files d). (fst (fr_key r), fst (snd (fr_key r))) \<in> set (db_index d) \<and>
        fi_name (fr_info r) = snd (snd (fr_key r))) \<and>
     distinct (map block_pk (db_blocks d)) \<and> distinct (db_versions d) \<and>
     br_key ` set (db_blocks d) \<subseteq> file_keys d \<and> vr_key ` set (db_versions d) \<subseteq> file_keys d \<and>
     lr_key ` set (db_locations d) \<subseteq> file_keys d \<and> cr_key ` set (db_cache d) \<subseteq> file_keys d"

lemma db_wf_empty [wf_intros]: "db_wf db_empty"
  by (simp add: db_wf_def db_empty_def)

lemma fold_max_ge: "x \<in> set ids \<Longrightarrow> x \<le> fold max ids (n :: nat)" "n \<le> fold max ids n"
proof (induction ids arbitrary: n)
  case (Cons i ids)
  { case 1
    then show ?case using Cons.IH(1) [of "max i n"] Cons.IH(2) [of "max i n"] by auto }
  { case 2
    then show ?case using Cons.IH(2) [of "max i n"] by simp }
qed simp_all

lemma next_rowid_fresh: "next_rowid ids \<notin> set ids"
  using fold_max_ge(1) [of "next_rowid ids" ids 0] by (auto simp: next_rowid_def)

lemma find_key:
  assumes "distinct (map fr_key rs)"
  shows "find (\<lambda>r. fr_key r = k) rs = Some r \<longleftrightarrow> r \<in> set rs \<and> fr_key r = k"
  using assms by (induction rs) (auto simp: image_iff)

lemma file_at_None: "file_at d k = None \<longleftrightarrow> k \<notin> file_keys d"
  by (auto simp: file_at_def find_None_iff file_keys_def)

lemma file_keys_delete: "file_keys (delete_files P d) = {k \<in> file_keys d. \<not> P k}"
  by (auto simp: file_keys_def delete_files_def)

lemma delete_files_wf [wf_intros]: "db_wf d \<Longrightarrow> db_wf (delete_files P d)"
  unfolding db_wf_def file_keys_delete by (auto simp: delete_files_def distinct_map_filter)

lemma filter_kept: "\<not> P k \<Longrightarrow> filter (\<lambda>r. \<not> P (g r) \<and> g r = k) xs = filter (\<lambda>r. g r = k) xs"
  by (rule filter_cong) auto

lemma find_kept: "\<not> P k \<Longrightarrow> find (\<lambda>r. g r = k) (filter (\<lambda>r. \<not> P (g r)) xs) = find (\<lambda>r. g r = k) xs"
  by (induction xs) auto

lemma stored_file_delete: "\<not> P (fr_key r) \<Longrightarrow> stored_file (delete_files P d) r = stored_file d r"
  by (simp add: stored_file_def blocks_of_def counters_of_def delete_files_def filter_kept)

lemma file_at_delete: "file_at (delete_files P d) k = (if P k then None else file_at d k)"
proof (cases "P k")
  case True
  then show ?thesis by (simp add: file_at_None file_keys_delete)
next
  case False
  have "find (\<lambda>r. fr_key r = k) (db_files (delete_files P d)) = find (\<lambda>r. fr_key r = k) (db_files d)"
    using False by (simp add: delete_files_def find_kept)
  moreover have "stored_file (delete_files P d) r = stored_file d r"
    if "find (\<lambda>r. fr_key r = k) (db_files d) = Some r" for r
    using that False by (intro stored_file_delete) (auto simp: find_Some_iff)
  ultimately show ?thesis
    using False by (cases "find (\<lambda>r. fr_key r = k) (db_files d)") (auto simp: file_at_def)
qed

section \<open>Writing a file\<close>

definition block_id :: "block_info \<Rightarrow> int \<times> int \<times> bytes" where
  "block_id b = (bi_offset b, bi_size b, bi_hash b)"

text \<open>What the schema accepts as a file.\<close>

definition storable :: "file_info \<Rightarrow> bool" where
  "storable f \<longleftrightarrow>
     fi_type f \<in> {0, 1, 2, 3, 4} \<and> distinct (map block_id (fi_blocks f)) \<and>
     (\<exists>v. fi_version f = Some v \<and> distinct (vec_counters v) \<and>
        (\<forall>c \<in> set (vec_counters v). unat (ctr_value c) < 2 ^ 63))"

definition sequences :: "db \<Rightarrow> int set" where
  "sequences d = (\<lambda>r. fi_sequence (fr_info r)) ` set (db_files d)"

definition insertable :: "string \<Rightarrow> device_id \<Rightarrow> db \<Rightarrow> file_info \<Rightarrow> bool" where
  "insertable folder dev d f \<longleftrightarrow>
     storable f \<and> (folder, dev) \<in> set (db_index d) \<and> fi_sequence f \<notin> sequences d"

definition with_file :: "file_key \<Rightarrow> file_info \<Rightarrow> db \<Rightarrow> db" where
  "with_file k f d =
     d\<lparr>db_files := db_files d @ [\<lparr>fr_rowid = next_rowid (map fr_rowid (db_files d)), fr_key = k,
         fr_info = columns_of f\<rparr>],
       db_versions := db_versions d @ map (\<lambda>c. \<lparr>vr_key = k, vr_counter = c\<rparr>)
         (case fi_version f of None \<Rightarrow> [] | Some v \<Rightarrow> vec_counters v),
       db_blocks := db_blocks d @ map (\<lambda>b. \<lparr>br_key = k, br_block = b, br_status = not_stored\<rparr>) (fi_blocks f)\<rparr>"

lemma insert_versions_fresh:
  assumes "k \<in> file_keys d" and "distinct cs" and "\<forall>c \<in> set cs. unat (ctr_value c) < 2 ^ 63"
    and "\<forall>c \<in> set cs. \<lparr>vr_key = k, vr_counter = c\<rparr> \<notin> set (db_versions d)"
  shows "for_each cs (insert_version k) d =
    Ok (d\<lparr>db_versions := db_versions d @ map (\<lambda>c. \<lparr>vr_key = k, vr_counter = c\<rparr>) cs\<rparr>)"
  using assms
proof (induction cs arbitrary: d)
  case (Cons c cs)
  let ?d = "d\<lparr>db_versions := db_versions d @ [\<lparr>vr_key = k, vr_counter = c\<rparr>]\<rparr>"
  have "insert_version k c d = Ok ?d"
    using Cons.prems by (simp add: insert_version_def linorder_not_le)
  moreover have "for_each cs (insert_version k) ?d =
      Ok (?d\<lparr>db_versions := db_versions ?d @ map (\<lambda>c. \<lparr>vr_key = k, vr_counter = c\<rparr>) cs\<rparr>)"
    by (rule Cons.IH) (use Cons.prems in \<open>auto simp: file_keys_def\<close>)
  ultimately show ?case by simp
qed simp

lemma insert_blocks_fresh:
  assumes "k \<in> file_keys d" and "distinct (map block_id bs)"
    and "\<forall>b \<in> set bs. \<forall>r \<in> set (db_blocks d). br_key r = k \<longrightarrow> block_id (br_block r) \<noteq> block_id b"
  shows "for_each bs (insert_block lenient k) d =
    Ok (d\<lparr>db_blocks := db_blocks d @
      map (\<lambda>b. \<lparr>br_key = k, br_block = b, br_status = not_stored\<rparr>) bs\<rparr>)"
  using assms
proof (induction bs arbitrary: d)
  case (Cons b bs)
  let ?d = "d\<lparr>db_blocks := db_blocks d @ [\<lparr>br_key = k, br_block = b, br_status = not_stored\<rparr>]\<rparr>"
  have "insert_block lenient k b d = Ok ?d"
    using Cons.prems by (fastforce simp: insert_block_def block_pk_def block_id_def)
  moreover have "for_each bs (insert_block lenient k) ?d =
      Ok (?d\<lparr>db_blocks := db_blocks ?d @ map (\<lambda>b. \<lparr>br_key = k, br_block = b, br_status = not_stored\<rparr>) bs\<rparr>)"
    by (rule Cons.IH) (use Cons.prems in \<open>auto simp: file_keys_def image_iff\<close>)
  ultimately show ?case by simp
qed simp

lemma insert_file_new:
  assumes "db_wf d" and "insertable folder dev d f" and "k = (folder, dev, fi_name f)" and "k \<notin> file_keys d"
  shows "insert_file lenient folder dev f d = Ok (with_file k f d)"
proof -
  obtain v where v: "fi_version f = Some v" "distinct (vec_counters v)"
    "\<forall>c \<in> set (vec_counters v). unat (ctr_value c) < 2 ^ 63"
    using assms(2) by (auto simp: insertable_def storable_def)
  let ?d = "d\<lparr>db_files := db_files d @ [\<lparr>fr_rowid = next_rowid (map fr_rowid (db_files d)), fr_key = k,
         fr_info = columns_of f\<rparr>]\<rparr>"
  have up: "upsert_file k f d = Ok ?d"
  proof -
    have "\<not> (\<exists>r \<in> set (db_files d). fr_key r \<noteq> k \<and> fi_sequence (fr_info r) = fi_sequence f)"
      using assms(2) unfolding insertable_def sequences_def by (metis rev_image_eqI)
    with assms(2-4) show ?thesis
      unfolding upsert_file_def insertable_def storable_def by (simp only: fst_conv snd_conv) simp
  qed
  have key: "k \<in> file_keys ?d" by (simp add: file_keys_def)
  have children: "\<forall>r \<in> set (db_versions d). vr_key r \<noteq> k" "\<forall>r \<in> set (db_blocks d). br_key r \<noteq> k"
    using assms(1,4) by (auto simp: db_wf_def)
  let ?d2 = "?d\<lparr>db_versions := db_versions d @ map (\<lambda>c. \<lparr>vr_key = k, vr_counter = c\<rparr>) (vec_counters v)\<rparr>"
  have "for_each (vec_counters v) (insert_version k) ?d = Ok ?d2"
    using insert_versions_fresh [OF key v(2,3)] children(1) by fastforce
  moreover have "for_each (fi_blocks f) (insert_block lenient k) ?d2 =
      Ok (?d2\<lparr>db_blocks := db_blocks ?d2 @ map (\<lambda>b. \<lparr>br_key = k, br_block = b, br_status = not_stored\<rparr>) (fi_blocks f)\<rparr>)"
    by (rule insert_blocks_fresh)
       (use key assms(2) children(2) in \<open>auto simp: file_keys_def insertable_def storable_def\<close>)
  ultimately show ?thesis
    using up v(1) assms(3) by (simp add: insert_file_def with_file_def Let_def)
qed

lemma file_keys_with_file: "file_keys (with_file k f d) = insert k (file_keys d)"
  by (simp add: file_keys_def with_file_def)

lemma with_file_wf:
  assumes "db_wf d" and "insertable folder dev d f" and "k = (folder, dev, fi_name f)" and "k \<notin> file_keys d"
  shows "db_wf (with_file k f d)"
proof -
  obtain v where v: "fi_version f = Some v" "distinct (vec_counters v)"
    using assms(2) by (auto simp: insertable_def storable_def)
  have blocks: "distinct (map block_id (fi_blocks f))"
    using assms(2) by (simp add: insertable_def storable_def)
  have children: "\<forall>r \<in> set (db_versions d). vr_key r \<noteq> k" "\<forall>r \<in> set (db_blocks d). br_key r \<noteq> k"
    using assms(1,4) by (auto simp: db_wf_def)
  let ?new = "map (\<lambda>b. \<lparr>br_key = k, br_block = b, br_status = not_stored\<rparr>) (fi_blocks f)"
  have "map block_pk ?new = map (\<lambda>i. (k, i)) (map block_id (fi_blocks f))"
    by (simp add: block_pk_def block_id_def)
  then have "distinct (map block_pk ?new)"
    using blocks by (simp add: distinct_map inj_on_def)
  moreover have "set (map block_pk (db_blocks d)) \<inter> set (map block_pk ?new) = {}"
    using children(2) by (auto simp: block_pk_def)
  ultimately have "distinct (map block_pk (db_blocks (with_file k f d)))"
    using assms(1) by (simp add: db_wf_def with_file_def)
  moreover have "distinct (db_versions (with_file k f d))"
    using assms(1) v children(1) by (auto simp: db_wf_def with_file_def distinct_map inj_on_def)
  moreover have "distinct (map fr_rowid (db_files (with_file k f d)))"
    using assms(1) next_rowid_fresh [of "map fr_rowid (db_files d)"]
    by (auto simp: db_wf_def with_file_def)
  moreover have "distinct (map fr_key (db_files (with_file k f d)))"
    using assms(1,4) by (auto simp: db_wf_def with_file_def file_keys_def)
  moreover have "distinct (map (\<lambda>r. fi_sequence (fr_info r)) (db_files (with_file k f d)))"
    using assms(1,2) by (auto simp: db_wf_def with_file_def insertable_def sequences_def columns_of_def)
  ultimately show ?thesis
    using assms unfolding db_wf_def file_keys_with_file
    by (auto simp: with_file_def insertable_def columns_of_def)
qed

lemma find_append: "find P (xs @ ys) = (case find P xs of None \<Rightarrow> find P ys | Some x \<Rightarrow> Some x)"
  by (induction xs) auto

lemma find_SomeD: "find P xs = Some x \<Longrightarrow> x \<in> set xs \<and> P x"
  by (induction xs) (auto split: if_splits)

lemma file_at_with_file:
  assumes "db_wf d" and "insertable folder dev d f" and "k \<notin> file_keys d"
  shows "file_at (with_file k f d) = (file_at d)(k \<mapsto> f)"
proof
  fix j
  obtain v where v: "fi_version f = Some v"
    using assms(2) by (auto simp: insertable_def storable_def)
  have children: "\<forall>r \<in> set (db_versions d). vr_key r \<noteq> k" "\<forall>r \<in> set (db_blocks d). br_key r \<noteq> k"
    using assms(1,3) by (auto simp: db_wf_def)
  let ?d = "with_file k f d"
  show "file_at ?d j = ((file_at d)(k \<mapsto> f)) j"
  proof (cases "j = k")
    case True
    have "find (\<lambda>r. fr_key r = k) (db_files d) = None"
      using assms(3) by (auto simp: find_None_iff file_keys_def)
    moreover have "blocks_of ?d k = fi_blocks f" "counters_of ?d k = vec_counters v"
      using children v by (simp_all add: blocks_of_def counters_of_def with_file_def filter_empty_conv comp_def)
    moreover have "(columns_of f)\<lparr>fi_version := Some \<lparr>vec_counters = vec_counters v\<rparr>,
        fi_blocks := fi_blocks f\<rparr> = f"
      using v by (cases f; cases v) (simp add: columns_of_def)
    ultimately show ?thesis
      using True v by (simp add: file_at_def find_append stored_file_def) (simp add: with_file_def find_append)
  next
    case False
    have "blocks_of ?d j = blocks_of d j" "counters_of ?d j = counters_of d j"
      using False v by (simp_all add: blocks_of_def counters_of_def with_file_def comp_def)
    then have "stored_file ?d r = stored_file d r" if "find (\<lambda>r. fr_key r = j) (db_files d) = Some r" for r
      using find_SomeD [OF that] by (simp add: stored_file_def)
    moreover have "find (\<lambda>r. fr_key r = j) (db_files ?d) = find (\<lambda>r. fr_key r = j) (db_files d)"
      using False by (auto simp: with_file_def find_append split: option.splits)
    ultimately show ?thesis
      using False by (cases "find (\<lambda>r. fr_key r = j) (db_files d)") (simp_all add: file_at_def)
  qed
qed

lemma insertable_with_file:
  "insertable folder dev d g \<Longrightarrow> fi_sequence g \<noteq> fi_sequence f \<Longrightarrow> insertable folder dev (with_file k f d) g"
  by (auto simp: insertable_def sequences_def with_file_def columns_of_def)

lemma insertable_delete: "insertable folder dev d f \<Longrightarrow> insertable folder dev (delete_files P d) f"
  by (auto simp: insertable_def sequences_def delete_files_def)

section \<open>The interface of the file table\<close>

lemma distinct_map_head: "distinct (map h (x # xs)) \<Longrightarrow> y \<in> set xs \<Longrightarrow> h y \<noteq> h x"
  by (metis distinct.simps(2) image_eqI list.set_map list.simps(9))

locale file_table =
  fixes inv :: "'d \<Rightarrow> bool"
    and look :: "'d \<Rightarrow> 'k \<Rightarrow> 'f option"
    and key :: "'f \<Rightarrow> 'k"
    and seq :: "'f \<Rightarrow> int"
    and ready :: "'d \<Rightarrow> 'f \<Rightarrow> bool"
    and put :: "'f \<Rightarrow> 'd \<Rightarrow> ('d, unit) result"
    and del :: "('k \<Rightarrow> bool) \<Rightarrow> 'd \<Rightarrow> 'd"
  assumes put_new: "inv d \<Longrightarrow> ready d f \<Longrightarrow> look d (key f) = None \<Longrightarrow>
      \<exists>d'. put f d = Ok d' \<and> inv d' \<and> look d' = (look d)(key f \<mapsto> f) \<and>
        (\<forall>g. ready d g \<longrightarrow> seq g \<noteq> seq f \<longrightarrow> ready d' g)"
    and inv_del: "inv d \<Longrightarrow> inv (del P d)"
    and look_del: "look (del P d) k = (if P k then None else look d k)"
    and ready_del: "ready d f \<Longrightarrow> ready (del P d) f"
begin

lemma put_all:
  assumes "inv d" and "\<forall>f \<in> set fs. ready d f \<and> look d (key f) = None"
    and "distinct (map key fs)" and "distinct (map seq fs)"
  shows "\<exists>d'. for_each fs put d = Ok d' \<and> inv d' \<and> look d' = look d ++ map_of (map (\<lambda>f. (key f, f)) fs)"
  using assms
proof (induction fs arbitrary: d)
  case (Cons f fs)
  obtain d1 where d1: "put f d = Ok d1" "inv d1" "look d1 = (look d)(key f \<mapsto> f)"
    "\<forall>g. ready d g \<longrightarrow> seq g \<noteq> seq f \<longrightarrow> ready d1 g"
    using put_new [of d f] Cons.prems by auto
  have other: "key g \<noteq> key f \<and> seq g \<noteq> seq f" if "g \<in> set fs" for g
    using Cons.prems(3,4) that by (blast dest: distinct_map_head)
  have "\<forall>g \<in> set fs. ready d1 g \<and> look d1 (key g) = None"
    using Cons.prems(2) d1(3,4) other by simp
  then obtain d' where "for_each fs put d1 = Ok d'" "inv d'"
    "look d' = look d1 ++ map_of (map (\<lambda>f. (key f, f)) fs)"
    using Cons.IH [OF d1(2)] Cons.prems by auto
  moreover have "key f \<notin> dom (map_of (map (\<lambda>f. (key f, f)) fs))"
    using Cons.prems(3) by (auto simp: dom_map_of_conv_image_fst image_iff)
  then have "look d1 ++ map_of (map (\<lambda>f. (key f, f)) fs) = look d ++ map_of (map (\<lambda>f. (key f, f)) (f # fs))"
    using d1(3) by (simp add: map_add_upd_left)
  ultimately show ?case
    using d1(1) by (metis and_then.simps(1) for_each.simps(2))
qed simp

lemma replace_all:
  assumes "inv d" and "\<forall>f \<in> set fs. ready d f" and "distinct (map seq fs)"
  shows "\<exists>d'. for_each fs (\<lambda>f d. put f (del (\<lambda>k. k = key f) d)) d = Ok d' \<and> inv d' \<and>
    look d' = look d ++ map_of (rev (map (\<lambda>f. (key f, f)) fs))"
  using assms
proof (induction fs arbitrary: d)
  case (Cons f fs)
  let ?d = "del (\<lambda>k. k = key f) d"
  obtain d1 where d1: "put f ?d = Ok d1" "inv d1" "look d1 = (look ?d)(key f \<mapsto> f)"
    "\<forall>g. ready ?d g \<longrightarrow> seq g \<noteq> seq f \<longrightarrow> ready d1 g"
    using put_new [of ?d f] inv_del look_del ready_del Cons.prems by auto
  have look: "look d1 = (look d)(key f \<mapsto> f)" using d1(3) look_del by auto
  have "seq g \<noteq> seq f" if "g \<in> set fs" for g
    using Cons.prems(3) that by (blast dest: distinct_map_head)
  then have "\<forall>g \<in> set fs. ready d1 g"
    using Cons.prems(2) d1(4) ready_del by simp
  then obtain d' where "for_each fs (\<lambda>f d. put f (del (\<lambda>k. k = key f) d)) d1 = Ok d'" "inv d'"
    "look d' = look d1 ++ map_of (rev (map (\<lambda>f. (key f, f)) fs))"
    using Cons.IH [OF d1(2)] Cons.prems by auto
  then show ?case
    using d1(1) look by auto
qed simp

end

interpretation file_rows: file_table db_wf file_at "\<lambda>f. (folder, dev, fi_name f)" fi_sequence
  "insertable folder dev" "insert_file lenient folder dev" delete_files for folder dev lenient
proof
  fix d f
  assume "db_wf d" "insertable folder dev d f" "file_at d (folder, dev, fi_name f) = None"
  then show "\<exists>d'. insert_file lenient folder dev f d = Ok d' \<and> db_wf d' \<and>
      file_at d' = (file_at d)((folder, dev, fi_name f) \<mapsto> f) \<and>
      (\<forall>g. insertable folder dev d g \<longrightarrow> fi_sequence g \<noteq> fi_sequence f \<longrightarrow> insertable folder dev d' g)"
    using insert_file_new with_file_wf file_at_with_file insertable_with_file file_at_None by metis
qed (simp_all add: delete_files_wf file_at_delete insertable_delete)

end
