(* ===== verification/Ordered_Map.thy ===== *)
theory Ordered_Map
  imports Main
begin

text \<open>
  The ordered map of the standard library (\<^verbatim>\<open>std::collections::BTreeMap\<close>): the interface that
  the program relies on is the locale \<open>ordered_map\<close>, and its implementation in the models is a
  list of entries with strictly increasing keys.
\<close>

section \<open>The interface\<close>

locale ordered_map =
  fixes valid :: "'m \<Rightarrow> bool"
    and get :: "'m \<Rightarrow> 'k::linorder \<Rightarrow> 'v option"
    and insert_entry :: "'k \<Rightarrow> 'v \<Rightarrow> 'm \<Rightarrow> 'm"
    and remove_entry :: "'k \<Rightarrow> 'm \<Rightarrow> 'm"
    and retain :: "('k \<Rightarrow> 'v \<Rightarrow> bool) \<Rightarrow> 'm \<Rightarrow> 'm"
    and entries :: "'m \<Rightarrow> ('k \<times> 'v) list"
  assumes valid_insert: "valid m \<Longrightarrow> valid (insert_entry k v m)"
    and valid_remove: "valid m \<Longrightarrow> valid (remove_entry k m)"
    and valid_retain: "valid m \<Longrightarrow> valid (retain P m)"
    and get_insert: "valid m \<Longrightarrow> get (insert_entry k v m) j = (if j = k then Some v else get m j)"
    and get_remove: "valid m \<Longrightarrow> get (remove_entry k m) j = (if j = k then None else get m j)"
    and get_retain: "valid m \<Longrightarrow>
      get (retain P m) j = Option.bind (get m j) (\<lambda>v. if P j v then Some v else None)"
    and get_entries: "valid m \<Longrightarrow> map_of (entries m) j = get m j"
    and entries_sorted: "valid m \<Longrightarrow> sorted_wrt (<) (map fst (entries m))"
begin

lemma entries_distinct: "valid m \<Longrightarrow> distinct (map fst (entries m))"
  using entries_sorted strict_sorted_iff by blast

lemma in_entries: "valid m \<Longrightarrow> (k, v) \<in> set (entries m) \<longleftrightarrow> get m k = Some v"
  using entries_distinct [of m] get_entries [of m k] by (auto dest: map_of_SomeD)

lemma keys_entries: "valid m \<Longrightarrow> fst ` set (entries m) = {k. get m k \<noteq> None}"
  using get_entries [of m] map_of_eq_None_iff [of "entries m"] by auto

lemma finite_keys: "valid m \<Longrightarrow> finite {k. get m k \<noteq> None}"
  by (metis keys_entries finite_imageI List.finite_set)

lemma remove_after_insert: "valid m \<Longrightarrow> get m k = None \<Longrightarrow>
    get (remove_entry k (insert_entry k v m)) = get m"
  by (auto simp: valid_insert get_remove get_insert)

end

section \<open>Lists of entries\<close>

fun bt_insert :: "'k::linorder \<Rightarrow> 'v \<Rightarrow> ('k \<times> 'v) list \<Rightarrow> ('k \<times> 'v) list" where
  "bt_insert k v [] = [(k, v)]"
| "bt_insert k v ((j, w) # es) =
     (if k < j then (k, v) # (j, w) # es
      else if k = j then (k, v) # es
      else (j, w) # bt_insert k v es)"

definition bt_remove :: "'k \<Rightarrow> ('k \<times> 'v) list \<Rightarrow> ('k \<times> 'v) list" where
  "bt_remove k es = filter (\<lambda>(j, _). j \<noteq> k) es"

definition bt_retain :: "('k \<Rightarrow> 'v \<Rightarrow> bool) \<Rightarrow> ('k \<times> 'v) list \<Rightarrow> ('k \<times> 'v) list" where
  "bt_retain P es = filter (\<lambda>(j, w). P j w) es"

definition bt_valid :: "('k::linorder \<times> 'v) list \<Rightarrow> bool" where
  "bt_valid es \<longleftrightarrow> sorted_wrt (<) (map fst es)"

lemma keys_bt_insert: "fst ` set (bt_insert k v es) = insert k (fst ` set es)"
  by (induction k v es rule: bt_insert.induct) auto

lemma bt_valid_insert: "bt_valid es \<Longrightarrow> bt_valid (bt_insert k v es)"
proof (induction k v es rule: bt_insert.induct)
  case (2 k v j w es)
  have "x \<in> insert k (fst ` set es)" if "(x, y) \<in> set (bt_insert k v es)" for x y
    using that keys_bt_insert [of k v es] by force
  with 2 show ?case
    by (fastforce simp: bt_valid_def)
qed (simp add: bt_valid_def)

lemma map_of_bt_insert:
  "bt_valid es \<Longrightarrow> map_of (bt_insert k v es) j = (if j = k then Some v else map_of es j)"
  by (induction k v es rule: bt_insert.induct) (auto simp: bt_valid_def)

lemma bt_valid_filter: "bt_valid es \<Longrightarrow> bt_valid (filter P es)"
  unfolding bt_valid_def by (induction es) auto

lemma map_of_filter_entries:
  "bt_valid es \<Longrightarrow>
   map_of (filter (\<lambda>(j, w). P j w) es) k =
     Option.bind (map_of es k) (\<lambda>v. if P k v then Some v else None)"
proof (induction es)
  case (Cons e es)
  obtain j w where e: "e = (j, w)" by (cases e)
  have "map_of es j = None"
    using Cons.prems by (force simp: bt_valid_def e map_of_eq_None_iff)
  with Cons show ?case
    by (auto simp: e bt_valid_def)
qed simp

interpretation btree: ordered_map bt_valid map_of bt_insert bt_remove bt_retain "\<lambda>es. es"
proof
  fix es :: "('a \<times> 'b) list" and k j :: 'a and v :: 'b and P :: "'a \<Rightarrow> 'b \<Rightarrow> bool"
  assume valid: "bt_valid es"
  show "bt_valid (bt_insert k v es)" using valid by (rule bt_valid_insert)
  show "bt_valid (bt_remove k es)" using valid by (simp add: bt_remove_def bt_valid_filter)
  show "bt_valid (bt_retain P es)" using valid by (simp add: bt_retain_def bt_valid_filter)
  show "map_of (bt_insert k v es) j = (if j = k then Some v else map_of es j)"
    using valid by (rule map_of_bt_insert)
  show "map_of (bt_retain P es) j = Option.bind (map_of es j) (\<lambda>v. if P j v then Some v else None)"
    using valid by (simp add: bt_retain_def map_of_filter_entries)
  show "map_of (bt_remove k es) j = (if j = k then None else map_of es j)"
    using valid map_of_filter_entries [OF valid, of "\<lambda>j _. j \<noteq> k" j]
    by (cases "map_of es j") (auto simp: bt_remove_def)
  show "sorted_wrt (<) (map fst es)" using valid by (simp add: bt_valid_def)
qed simp

end
