(* ===== verification/Outgoing_Requests.thy ===== *)
theory Outgoing_Requests
  imports Bep_Messages Ordered_Map "HOL-Library.List_Lexorder" "HOL-Library.Product_Lexorder"
    "HOL-Library.Char_ord" "HOL-Library.Sublist"
begin

text \<open>
  The queue of requests to the peer (\<^verbatim>\<open>src/src/core/outgoing_requests.rs\<close>).  Every request is
  held twice, by its identifier and by its content; the ones that were sent are pending, and the
  number and the total size of the pending requests are limited.

  \<^item> \<open>outgoing_requests\<close> is the struct; \<open>requests_by_request\<close> is the \<^verbatim>\<open>BTreeMap\<close>, ordered by the
    derived lexicographic order of \<^verbatim>\<open>OutgoingRequest\<close>.
  \<^item> \<^verbatim>\<open>Instant\<close> is a number of nanoseconds, \<^verbatim>\<open>usize\<close> a natural number below \<open>2 ^ 64\<close>; a sum
    that leaves the range and a difference below zero panic.
  \<^item> \<open>queue_wf\<close> is the invariant, \<open>abs_queue\<close> the abstract view of the queue: which requests there
    are and which of them were sent.
\<close>

section \<open>Definitions\<close>

definition MAX_TIME_IN_QUEUE :: nat where
  "MAX_TIME_IN_QUEUE = 60 * 60 * 12 * 1000000000"

datatype outgoing_request = OutgoingRequest
  (oreq_folder: string) (oreq_name: string) (oreq_offset: int) (oreq_size: int)
  (oreq_hash: bytes) (oreq_from_temporary: bool)

text \<open>The derived order compares the fields in the order of their declaration.\<close>

definition oreq_key :: "outgoing_request \<Rightarrow> string \<times> string \<times> int \<times> int \<times> bytes \<times> bool" where
  "oreq_key r = (oreq_folder r, oreq_name r, oreq_offset r, oreq_size r, oreq_hash r,
     oreq_from_temporary r)"

lemma oreq_key_inject [simp]: "oreq_key r = oreq_key s \<longleftrightarrow> r = s"
  by (cases r; cases s) (simp add: oreq_key_def)

instantiation outgoing_request :: linorder
begin

definition less_eq_outgoing_request :: "outgoing_request \<Rightarrow> outgoing_request \<Rightarrow> bool" where
  "less_eq_outgoing_request r s \<longleftrightarrow> oreq_key r \<le> oreq_key s"

definition less_outgoing_request :: "outgoing_request \<Rightarrow> outgoing_request \<Rightarrow> bool" where
  "less_outgoing_request r s \<longleftrightarrow> oreq_key r < oreq_key s"

instance
  by standard (auto simp: less_eq_outgoing_request_def less_outgoing_request_def order.strict_iff_order)

end

text \<open>\<^verbatim>\<open>OutgoingRequest::from\<close>: the hash must have 32 bytes.\<close>

definition oreq_of :: "request \<Rightarrow> outgoing_request" where
  "oreq_of r = OutgoingRequest (req_folder r) (req_name r) (req_offset r) (req_size r)
     (req_hash r) (req_from_temporary r)"

definition outgoing_request_from :: "request \<Rightarrow> (outgoing_request, unit) result" where
  "outgoing_request_from other = (if length (req_hash other) = 32 then Ok (oreq_of other) else Panic)"

text \<open>\<^verbatim>\<open>size as usize\<close> of an \<^verbatim>\<open>i32\<close> sign-extends.\<close>

definition as_usize :: "int \<Rightarrow> nat" where
  "as_usize i = nat (i mod 2 ^ 64)"

definition checked_add :: "nat \<Rightarrow> nat \<Rightarrow> (nat, unit) result" where
  "checked_add a b = (if a + b < 2 ^ 64 then Ok (a + b) else Panic)"

record outgoing_requests =
  requests_by_id :: "int \<Rightarrow> request option"
  requests_by_request :: "(outgoing_request \<times> int \<times> nat) list"
  pending_requests :: "outgoing_request set"
  requested_size :: nat

definition outgoing_requests_default :: outgoing_requests where
  "outgoing_requests_default =
     \<lparr>requests_by_id = Map.empty, requests_by_request = [], pending_requests = {}, requested_size = 0\<rparr>"

definition get_request :: "outgoing_requests \<Rightarrow> int \<Rightarrow> request option" where
  "get_request q request_id = requests_by_id q request_id"

definition remove_request ::
    "outgoing_requests \<Rightarrow> int \<Rightarrow> (outgoing_requests \<times> request option, unit) result" where
  "remove_request q request_id =
     (let request = requests_by_id q request_id;
          q = q\<lparr>requests_by_id := (requests_by_id q)(request_id := None)\<rparr>
      in case request of
           None \<Rightarrow> Ok (q, None)
         | Some r \<Rightarrow>
             and_then (outgoing_request_from r) (\<lambda>outgoing_request.
             let removed = map_of (requests_by_request q) outgoing_request;
                 q = q\<lparr>requests_by_request := bt_remove outgoing_request (requests_by_request q)\<rparr>
             in
             and_then (assert_that (removed \<noteq> None)) (\<lambda>_.
             let pending_removed = (outgoing_request \<in> pending_requests q);
                 q = q\<lparr>pending_requests := pending_requests q - {outgoing_request}\<rparr>
             in
             and_then (assert_that pending_removed) (\<lambda>_.
             and_then (assert_that (as_usize (oreq_size outgoing_request) \<le> requested_size q)) (\<lambda>_.
             Ok (q\<lparr>requested_size := requested_size q - as_usize (oreq_size outgoing_request)\<rparr>,
                 request))))))"

definition insert_request ::
    "nat \<Rightarrow> outgoing_requests \<Rightarrow> int \<Rightarrow> request \<Rightarrow> (outgoing_requests \<times> request option, unit) result" where
  "insert_request now q request_id request =
     and_then (outgoing_request_from request) (\<lambda>outgoing_request.
     if map_of (requests_by_request q) outgoing_request \<noteq> None then Ok (q, None)
     else
       Ok (q\<lparr>requests_by_request := bt_insert outgoing_request (request_id, now) (requests_by_request q),
             requests_by_id := (requests_by_id q)(request_id \<mapsto> request)\<rparr>, Some request))"

text \<open>
  A sum of sizes that overflowed would exceed \<open>requested_size\<close>, so the assertion below stands for
  both panics.
\<close>

definition remove_old_requests :: "nat \<Rightarrow> outgoing_requests \<Rightarrow> (outgoing_requests, unit) result" where
  "remove_old_requests now q =
     (let in_queue_less_than_max = (\<lambda>creation_time. now - creation_time < MAX_TIME_IN_QUEUE);
          waiting_requests_ids = (\<lambda>(_, request_id, _). request_id) `
            set (filter (\<lambda>(_, _, creation_time). in_queue_less_than_max creation_time)
              (requests_by_request q));
          q = q\<lparr>requests_by_id := (\<lambda>request_id.
                 if request_id \<in> waiting_requests_ids then requests_by_id q request_id else None)\<rparr>;
          q = q\<lparr>requests_by_request := bt_retain
                 (\<lambda>_ (request_id, _). request_id \<in> waiting_requests_ids) (requests_by_request q)\<rparr>;
          kept = (\<lambda>request. map_of (requests_by_request q) request \<noteq> None);
          size_to_remove = (\<Sum>r | r \<in> pending_requests q \<and> \<not> kept r. as_usize (oreq_size r))
      in
      and_then (assert_that (size_to_remove \<le> requested_size q)) (\<lambda>_.
      Ok (q\<lparr>requested_size := requested_size q - size_to_remove,
            pending_requests := {r \<in> pending_requests q. kept r}\<rparr>)))"

definition max_files :: nat where
  "max_files = 10"

text \<open>The loop over the ordered entries; each \<^verbatim>\<open>break\<close> ends it with what was collected.\<close>

fun update_pending_loop ::
    "nat \<Rightarrow> nat \<Rightarrow> (outgoing_request \<times> int \<times> nat) list \<Rightarrow> outgoing_requests \<Rightarrow> request list \<Rightarrow>
     string set \<Rightarrow> (outgoing_requests \<times> request list, unit) result" where
  "update_pending_loop free_slots max_storage_area [] q processed_requests file_names =
     Ok (q, processed_requests)"
| "update_pending_loop free_slots max_storage_area ((outgoing_request, i, t) # es) q
       processed_requests file_names =
     (if max_files \<le> card file_names \<and> oreq_name outgoing_request \<notin> file_names
      then Ok (q, processed_requests)
      else if free_slots \<le> length processed_requests then Ok (q, processed_requests)
      else
        and_then (checked_add (requested_size q) (as_usize (oreq_size outgoing_request))) (\<lambda>sz.
        if max_storage_area < sz then Ok (q, processed_requests)
        else if outgoing_request \<notin> pending_requests q
        then
          and_then (unwrap_opt (requests_by_id q i)) (\<lambda>r.
          update_pending_loop free_slots max_storage_area es
            (q\<lparr>pending_requests := insert outgoing_request (pending_requests q),
               requested_size := sz\<rparr>)
            (processed_requests @ [r]) (insert (oreq_name outgoing_request) file_names))
        else update_pending_loop free_slots max_storage_area es q processed_requests file_names))"

definition update_pending_requests ::
    "outgoing_requests \<Rightarrow> nat \<Rightarrow> nat \<Rightarrow> (outgoing_requests \<times> request list, unit) result" where
  "update_pending_requests q max_pending max_storage_area =
     and_then (checked_sub max_pending (card (pending_requests q))) (\<lambda>free_slots.
     update_pending_loop free_slots max_storage_area (requests_by_request q) q []
       (oreq_name ` pending_requests q))"

section \<open>The invariant\<close>

definition pending_size :: "outgoing_request set \<Rightarrow> nat" where
  "pending_size rs = (\<Sum>r\<in>rs. as_usize (oreq_size r))"

definition request_at :: "outgoing_requests \<Rightarrow> int \<Rightarrow> outgoing_request \<Rightarrow> bool" where
  "request_at q i oreq \<longleftrightarrow> (\<exists>t. map_of (requests_by_request q) oreq = Some (i, t))"

definition queue_wf :: "outgoing_requests \<Rightarrow> bool" where
  "queue_wf q \<longleftrightarrow>
     bt_valid (requests_by_request q) \<and>
     (\<forall>i r. requests_by_id q i = Some r \<longrightarrow> length (req_hash r) = 32 \<and> request_at q i (oreq_of r)) \<and>
     (\<forall>i oreq. request_at q i oreq \<longrightarrow> (\<exists>r. requests_by_id q i = Some r \<and> oreq_of r = oreq)) \<and>
     (\<forall>oreq \<in> pending_requests q. \<exists>i. request_at q i oreq) \<and>
     requested_size q = pending_size (pending_requests q)"

lemma queue_wfD:
  assumes "queue_wf q"
  shows queue_valid: "bt_valid (requests_by_request q)"
    and queue_by_id: "requests_by_id q i = Some r \<Longrightarrow> length (req_hash r) = 32 \<and> request_at q i (oreq_of r)"
    and queue_by_request: "request_at q i oreq \<Longrightarrow> \<exists>r. requests_by_id q i = Some r \<and> oreq_of r = oreq"
    and queue_pending: "oreq \<in> pending_requests q \<Longrightarrow> \<exists>i. request_at q i oreq"
    and queue_size: "requested_size q = pending_size (pending_requests q)"
  using assms unfolding queue_wf_def by blast+

lemma queue_wf_default [wf_intros]: "queue_wf outgoing_requests_default"
  by (simp add: queue_wf_def outgoing_requests_default_def bt_valid_def request_at_def pending_size_def)

lemma queue_finite_pending: "queue_wf q \<Longrightarrow> finite (pending_requests q)"
proof -
  assume wf: "queue_wf q"
  have "pending_requests q \<subseteq> {k. map_of (requests_by_request q) k \<noteq> None}"
    using queue_pending [OF wf] by (auto simp: request_at_def)
  then show ?thesis
    using btree.finite_keys [OF queue_valid [OF wf]] finite_subset by blast
qed

lemma request_at_unique:
  assumes "queue_wf q" and "request_at q i a" and "request_at q i b"
  shows "a = b"
  using assms queue_by_request by (metis option.inject)

lemma request_at_fun: "request_at q i a \<Longrightarrow> request_at q j a \<Longrightarrow> i = j"
  by (auto simp: request_at_def)

subsection \<open>Insertion\<close>

lemma request_at_insert:
  assumes "bt_valid (requests_by_request q)"
  shows "request_at (q\<lparr>requests_by_request := bt_insert oreq (i, now) (requests_by_request q),
      requests_by_id := m\<rparr>) j a \<longleftrightarrow> (if a = oreq then j = i else request_at q j a)"
  using btree.get_insert [OF assms] by (auto simp: request_at_def)

lemma insert_request_cases:
  assumes "length (req_hash r) = 32"
  shows "insert_request now q i r =
    (if map_of (requests_by_request q) (oreq_of r) \<noteq> None then Ok (q, None)
     else Ok (q\<lparr>requests_by_request := bt_insert (oreq_of r) (i, now) (requests_by_request q),
       requests_by_id := (requests_by_id q)(i \<mapsto> r)\<rparr>, Some r))"
  using assms by (simp add: insert_request_def outgoing_request_from_def)

lemma insert_request_wf:
  assumes "queue_wf q" and "requests_by_id q i = None"
    and "insert_request now q i r = Ok (q', res)"
  shows "queue_wf q'"
proof (cases "map_of (requests_by_request q) (oreq_of r)")
  case None
  have len: "length (req_hash r) = 32"
    using assms(3) by (auto simp: insert_request_def outgoing_request_from_def split: if_splits)
  let ?q = "q\<lparr>requests_by_request := bt_insert (oreq_of r) (i, now) (requests_by_request q),
      requests_by_id := (requests_by_id q)(i \<mapsto> r)\<rparr>"
  have q': "q' = ?q"
    using assms(3) None by (auto simp: insert_request_cases [OF len])
  note valid = queue_valid [OF assms(1)]
  have at: "request_at ?q j a \<longleftrightarrow> (if a = oreq_of r then j = i else request_at q j a)" for j a
    by (rule request_at_insert [OF valid])
  have fresh: "\<not> request_at q j (oreq_of r)" "\<not> request_at q i a" for j a
    using None assms(2) queue_by_request [OF assms(1), of i a] by (auto simp: request_at_def)
  show ?thesis
    unfolding q' queue_wf_def
  proof (intro conjI allI impI ballI)
    show "bt_valid (requests_by_request ?q)"
      using btree.valid_insert [OF valid] by simp
    fix j s assume s: "requests_by_id ?q j = Some s"
    then show "length (req_hash s) = 32"
      using len queue_by_id [OF assms(1), of j s] by (auto split: if_splits)
    show "request_at ?q j (oreq_of s)"
      using s queue_by_id [OF assms(1), of j s] fresh(1) by (auto simp: at split: if_splits)
  next
    fix j a assume "request_at ?q j a"
    then show "\<exists>s. requests_by_id ?q j = Some s \<and> oreq_of s = a"
      using queue_by_request [OF assms(1), of j a] fresh(2) by (auto simp: at split: if_splits)
  next
    fix a assume "a \<in> pending_requests ?q"
    then show "\<exists>j. request_at ?q j a"
      using queue_pending [OF assms(1), of a] unfolding at by auto
  next
    show "requested_size ?q = pending_size (pending_requests ?q)"
      using queue_size [OF assms(1)] by simp
  qed
next
  case (Some v)
  then show ?thesis
    using assms by (auto simp: insert_request_def outgoing_request_from_def split: if_splits)
qed

subsection \<open>Removal\<close>

lemma remove_request_pending:
  assumes "queue_wf q" and "requests_by_id q i = Some r" and "oreq_of r \<in> pending_requests q"
  shows "remove_request q i =
    Ok (q\<lparr>requests_by_id := (requests_by_id q)(i := None),
          requests_by_request := bt_remove (oreq_of r) (requests_by_request q),
          pending_requests := pending_requests q - {oreq_of r},
          requested_size := requested_size q - as_usize (req_size r)\<rparr>, Some r)"
proof -
  have len: "length (req_hash r) = 32" and at: "request_at q i (oreq_of r)"
    using queue_by_id [OF assms(1,2)] by auto
  have "as_usize (req_size r) \<le> requested_size q"
    using member_le_sum [OF assms(3), of "\<lambda>r. as_usize (oreq_size r)"]
      queue_finite_pending [OF assms(1)] queue_size [OF assms(1)]
    by (simp add: pending_size_def oreq_of_def)
  with assms len at show ?thesis
    by (auto simp: remove_request_def outgoing_request_from_def request_at_def oreq_of_def Let_def)
qed

lemma remove_request_waiting:
  assumes "queue_wf q" and "requests_by_id q i = Some r" and "oreq_of r \<notin> pending_requests q"
  shows "remove_request q i = Panic"
proof -
  have len: "length (req_hash r) = 32" and at: "request_at q i (oreq_of r)"
    using queue_by_id [OF assms(1,2)] by auto
  with assms show ?thesis
    by (auto simp: remove_request_def outgoing_request_from_def request_at_def Let_def)
qed

lemma remove_request_unknown: "requests_by_id q i = None \<Longrightarrow> remove_request q i = Ok (q, None)"
  by (simp add: remove_request_def fun_upd_idem)

lemma remove_request_wf:
  assumes "queue_wf q" and "remove_request q i = Ok (q', res)"
  shows "queue_wf q'"
proof (cases "requests_by_id q i")
  case None
  with assms show ?thesis by (simp add: remove_request_unknown)
next
  case (Some r)
  then have pending: "oreq_of r \<in> pending_requests q"
    using remove_request_waiting [OF assms(1)] assms(2) by fastforce
  note valid = queue_valid [OF assms(1)]
  let ?q = "q\<lparr>requests_by_id := (requests_by_id q)(i := None),
      requests_by_request := bt_remove (oreq_of r) (requests_by_request q),
      pending_requests := pending_requests q - {oreq_of r},
      requested_size := requested_size q - as_usize (req_size r)\<rparr>"
  have q': "q' = ?q"
    using remove_request_pending [OF assms(1) Some pending] assms(2) by simp
  have at: "request_at ?q j a \<longleftrightarrow> a \<noteq> oreq_of r \<and> request_at q j a" for j a
    using btree.get_remove [OF valid, of "oreq_of r" a] by (auto simp: request_at_def)
  have here: "request_at q i (oreq_of r)" using queue_by_id [OF assms(1) Some] by simp
  show ?thesis
    unfolding q' queue_wf_def
  proof (intro conjI allI impI ballI)
    show "bt_valid (requests_by_request ?q)" using btree.valid_remove [OF valid] by simp
    fix j s assume s: "requests_by_id ?q j = Some s"
    then have s': "requests_by_id q j = Some s" "j \<noteq> i" by (auto split: if_splits)
    then show "length (req_hash s) = 32" using queue_by_id [OF assms(1)] by simp
    show "request_at ?q j (oreq_of s)"
      using queue_by_id [OF assms(1) s'(1)] s'(2) here request_at_fun unfolding at by metis
  next
    fix j a assume "request_at ?q j a"
    then have a: "a \<noteq> oreq_of r" "request_at q j a" unfolding at by auto
    then have "j \<noteq> i" using request_at_unique [OF assms(1) here] by auto
    with queue_by_request [OF assms(1) a(2)]
    show "\<exists>s. requests_by_id ?q j = Some s \<and> oreq_of s = a" by simp
  next
    fix a assume "a \<in> pending_requests ?q"
    then show "\<exists>j. request_at ?q j a"
      using queue_pending [OF assms(1), of a] unfolding at by auto
  next
    show "requested_size ?q = pending_size (pending_requests ?q)"
      using queue_size [OF assms(1)] pending queue_finite_pending [OF assms(1)]
      by (simp add: pending_size_def sum_diff1_nat oreq_of_def)
  qed
qed

subsection \<open>Old requests\<close>

definition is_young :: "nat \<Rightarrow> outgoing_requests \<Rightarrow> outgoing_request \<Rightarrow> bool" where
  "is_young now q oreq \<longleftrightarrow>
     (\<exists>i t. map_of (requests_by_request q) oreq = Some (i, t) \<and> now - t < MAX_TIME_IN_QUEUE)"

definition without_old :: "nat \<Rightarrow> outgoing_requests \<Rightarrow> outgoing_requests" where
  "without_old now q =
     q\<lparr>requests_by_id := (\<lambda>i. case requests_by_id q i of None \<Rightarrow> None
         | Some r \<Rightarrow> if is_young now q (oreq_of r) then Some r else None),
       requests_by_request := filter (\<lambda>(oreq, _). is_young now q oreq) (requests_by_request q),
       pending_requests := {oreq \<in> pending_requests q. is_young now q oreq},
       requested_size := pending_size {oreq \<in> pending_requests q. is_young now q oreq}\<rparr>"

lemma young_ids:
  assumes "queue_wf q"
  shows "i \<in> (\<lambda>(_, i, _). i) ` set (filter (\<lambda>(_, _, t). now - t < MAX_TIME_IN_QUEUE) (requests_by_request q))
    \<longleftrightarrow> (\<exists>oreq. request_at q i oreq \<and> is_young now q oreq)"
proof -
  have "i \<in> (\<lambda>(_, i, _). i) ` set (filter (\<lambda>(_, _, t). now - t < MAX_TIME_IN_QUEUE) (requests_by_request q))
    \<longleftrightarrow> (\<exists>oreq t. (oreq, i, t) \<in> set (requests_by_request q) \<and> now - t < MAX_TIME_IN_QUEUE)"
    by force
  also have "\<dots> \<longleftrightarrow> (\<exists>oreq t. map_of (requests_by_request q) oreq = Some (i, t) \<and> now - t < MAX_TIME_IN_QUEUE)"
    by (simp add: btree.in_entries [OF queue_valid [OF assms]])
  also have "\<dots> \<longleftrightarrow> (\<exists>oreq. request_at q i oreq \<and> is_young now q oreq)"
    unfolding request_at_def is_young_def by (metis option.inject prod.inject)
  finally show ?thesis .
qed

lemma remove_old_requests_eq:
  assumes "queue_wf q"
  shows "remove_old_requests now q = Ok (without_old now q)"
proof -
  note valid = queue_valid [OF assms]
  define ids where "ids = (\<lambda>(_, i, _). i) `
    set (filter (\<lambda>(_, _, t). now - t < MAX_TIME_IN_QUEUE) (requests_by_request q))"
  have ids: "i \<in> ids \<longleftrightarrow> (\<exists>oreq. request_at q i oreq \<and> is_young now q oreq)" for i
    unfolding ids_def by (rule young_ids [OF assms])
  have at: "i \<in> ids \<longleftrightarrow> is_young now q oreq" if "request_at q i oreq" for i oreq
    using that ids request_at_unique [OF assms] by metis
  have by_id: "(if i \<in> ids then requests_by_id q i else None) =
      (case requests_by_id q i of None \<Rightarrow> None
       | Some r \<Rightarrow> if is_young now q (oreq_of r) then Some r else None)" for i
    using queue_by_id [OF assms, of i] at by (auto split: option.splits)
  have by_req: "bt_retain (\<lambda>_ (i, _). i \<in> ids) (requests_by_request q) =
      filter (\<lambda>(oreq, _). is_young now q oreq) (requests_by_request q)"
    unfolding bt_retain_def
  proof (rule filter_cong [OF refl])
    fix e assume "e \<in> set (requests_by_request q)"
    moreover obtain oreq i t where e: "e = (oreq, i, t)" by (cases e) auto
    ultimately have "request_at q i oreq"
      using btree.in_entries [OF valid] by (auto simp: request_at_def)
    with at show "(case e of (j, w) \<Rightarrow> (case w of (i, _) \<Rightarrow> i \<in> ids)) = (case e of (oreq, _) \<Rightarrow> is_young now q oreq)"
      by (simp add: e)
  qed
  have kept: "map_of (filter (\<lambda>(oreq, _). is_young now q oreq) (requests_by_request q)) oreq \<noteq> None
      \<longleftrightarrow> is_young now q oreq" for oreq
    using map_of_filter_entries [OF valid, of "\<lambda>oreq _. is_young now q oreq" oreq]
    by (cases "map_of (requests_by_request q) oreq") (auto simp: is_young_def)
  let ?P = "pending_requests q" and ?size = "\<lambda>r. as_usize (oreq_size r)"
  have "?P = {r \<in> ?P. is_young now q r} \<union> {r. r \<in> ?P \<and> \<not> is_young now q r}" by auto
  then have split: "pending_size ?P = pending_size {r \<in> ?P. is_young now q r} +
      sum ?size {r. r \<in> ?P \<and> \<not> is_young now q r}"
    unfolding pending_size_def using queue_finite_pending [OF assms]
    by (subst sum.union_disjoint [symmetric]) (auto intro: arg_cong [where f = "sum ?size"])
  show ?thesis
    using queue_size [OF assms] split
    unfolding remove_old_requests_def Let_def ids_def [symmetric]
    by (simp add: by_req by_id kept without_old_def del: not_None_eq)
qed

lemma without_old_wf:
  assumes "queue_wf q"
  shows "queue_wf (without_old now q)"
proof -
  note valid = queue_valid [OF assms]
  let ?q = "without_old now q"
  have at: "request_at ?q i a \<longleftrightarrow> is_young now q a \<and> request_at q i a" for i a
    using map_of_filter_entries [OF valid, of "\<lambda>a _. is_young now q a" a]
    by (cases "map_of (requests_by_request q) a") (auto simp: request_at_def without_old_def)
  show ?thesis
    unfolding queue_wf_def
  proof (intro conjI allI impI ballI)
    show "bt_valid (requests_by_request ?q)"
      using bt_valid_filter [OF valid] by (simp add: without_old_def)
    fix i r assume "requests_by_id ?q i = Some r"
    then have r: "requests_by_id q i = Some r" "is_young now q (oreq_of r)"
      by (auto simp: without_old_def split: option.splits if_splits)
    then show "length (req_hash r) = 32" and "request_at ?q i (oreq_of r)"
      using queue_by_id [OF assms r(1)] by (simp_all add: at)
  next
    fix i a assume "request_at ?q i a"
    then show "\<exists>r. requests_by_id ?q i = Some r \<and> oreq_of r = a"
      using queue_by_request [OF assms, of i a] unfolding at by (auto simp: without_old_def)
  next
    fix a assume "a \<in> pending_requests ?q"
    then show "\<exists>i. request_at ?q i a"
      using queue_pending [OF assms, of a] unfolding at by (auto simp: without_old_def)
  qed (simp add: without_old_def)
qed

subsection \<open>Throttling\<close>

definition mark_sent :: "outgoing_requests \<Rightarrow> request list \<Rightarrow> outgoing_requests" where
  "mark_sent q rs =
     q\<lparr>pending_requests := pending_requests q \<union> set (map oreq_of rs),
       requested_size := pending_size (pending_requests q \<union> set (map oreq_of rs))\<rparr>"

lemma request_at_mark_sent [simp]: "request_at (mark_sent q rs) i a \<longleftrightarrow> request_at q i a"
  by (simp add: request_at_def mark_sent_def)

lemma mark_sent_Nil [simp]: "queue_wf q \<Longrightarrow> mark_sent q [] = q"
  using queue_size [of q] by (simp add: mark_sent_def)

lemma mark_sent_Cons: "mark_sent (mark_sent q [r]) rs = mark_sent q (r # rs)"
  by (simp add: mark_sent_def)

lemma mark_sent_wf:
  assumes "queue_wf q" and "\<forall>r \<in> set rs. \<exists>i. requests_by_id q i = Some r"
  shows "queue_wf (mark_sent q rs)"
proof -
  have "\<exists>i. request_at q i a" if "a \<in> pending_requests q \<union> set (map oreq_of rs)" for a
    using that assms(2) queue_pending [OF assms(1), of a] queue_by_id [OF assms(1)] by fastforce
  then show ?thesis
    using assms(1) unfolding queue_wf_def by (simp add: mark_sent_def request_at_def)
qed

definition file_names :: "outgoing_requests \<Rightarrow> string set" where
  "file_names q = oreq_name ` pending_requests q"

lemma file_names_mark_sent: "file_names (mark_sent q [r]) = insert (req_name r) (file_names q)"
  by (simp add: file_names_def mark_sent_def oreq_of_def)

definition throttled :: "nat \<Rightarrow> nat \<Rightarrow> outgoing_requests \<Rightarrow> outgoing_request list \<Rightarrow> request list \<Rightarrow> bool" where
  "throttled slots max_area q keys rs \<longleftrightarrow>
     (\<forall>r \<in> set rs. \<exists>i. requests_by_id q i = Some r) \<and>
     subseq (map oreq_of rs) keys \<and> set (map oreq_of rs) \<inter> pending_requests q = {} \<and>
     length rs \<le> slots \<and>
     requested_size (mark_sent q rs) \<le> max max_area (requested_size q) \<and>
     card (file_names (mark_sent q rs)) \<le> max max_files (card (file_names q))"

lemma throttled_Nil: "queue_wf q \<Longrightarrow> throttled slots max_area q keys []"
  by (simp add: throttled_def)

lemma throttled_skip: "throttled slots max_area q keys rs \<Longrightarrow> throttled slots max_area q (k # keys) rs"
  by (auto simp: throttled_def)

lemma throttled_take:
  assumes wf: "queue_wf q" and "requests_by_id q i = Some r" and "oreq_of r \<notin> pending_requests q"
    and "requested_size q + as_usize (req_size r) \<le> max_area"
    and "card (file_names q) < max_files \<or> req_name r \<in> file_names q"
    and "throttled slots max_area (mark_sent q [r]) keys rs"
  shows "throttled (Suc slots) max_area q (oreq_of r # keys) (r # rs)"
proof -
  have size: "requested_size (mark_sent q [r]) = requested_size q + as_usize (req_size r)"
    using assms(3) queue_finite_pending [OF wf] queue_size [OF wf]
    by (simp add: mark_sent_def pending_size_def oreq_of_def)
  have fin: "finite (file_names q)"
    using queue_finite_pending [OF wf] by (simp add: file_names_def)
  have "card (file_names (mark_sent q [r])) \<le> max max_files (card (file_names q))"
    using assms(5) fin card_insert_le_m1 [of max_files "file_names q" "req_name r"]
    by (auto simp: file_names_mark_sent insert_absorb card_insert_if)
  moreover have "pending_requests (mark_sent q [r]) = insert (oreq_of r) (pending_requests q)"
    and "requests_by_id (mark_sent q [r]) = requests_by_id q"
    by (simp_all add: mark_sent_def)
  ultimately show ?thesis
    using assms size unfolding throttled_def mark_sent_Cons by auto
qed

lemma update_pending_loop_spec:
  assumes "queue_wf q" and "\<forall>(a, i, t) \<in> set es. request_at q i a"
    and "\<forall>(a, i, t) \<in> set es. max_area + as_usize (oreq_size a) < 2 ^ 64"
    and "requested_size q \<le> max_area"
  shows "\<exists>rs. update_pending_loop slots max_area es q sent (file_names q) =
      Ok (mark_sent q rs, sent @ rs) \<and> throttled (slots - length sent) max_area q (map fst es) rs"
  using assms
proof (induction es arbitrary: q sent)
  case Nil
  then show ?case by (intro exI [of _ "[]"]) (simp add: throttled_Nil)
next
  case (Cons e es)
  obtain a i t where e: "e = (a, i, t)" by (cases e) auto
  have stop: ?case if "update_pending_loop slots max_area (e # es) q sent (file_names q) = Ok (q, sent)"
    using that Cons.prems(1) throttled_Nil by (intro exI [of _ "[]"]) simp
  let ?sz = "requested_size q + as_usize (oreq_size a)"
  have add: "checked_add (requested_size q) (as_usize (oreq_size a)) = Ok ?sz"
    using Cons.prems(3,4) by (simp add: e checked_add_def)
  consider (full) "max_files \<le> card (file_names q) \<and> oreq_name a \<notin> file_names q \<or>
      slots \<le> length sent \<or> max_area < ?sz"
    | (pending) "a \<in> pending_requests q" "\<not> (max_files \<le> card (file_names q) \<and> oreq_name a \<notin> file_names q)"
      "length sent < slots" "?sz \<le> max_area"
    | (fresh) "a \<notin> pending_requests q" "\<not> (max_files \<le> card (file_names q) \<and> oreq_name a \<notin> file_names q)"
      "length sent < slots" "?sz \<le> max_area"
    by fastforce
  then show ?case
  proof cases
    case full
    then show ?thesis by (intro stop) (auto simp: e add)
  next
    case pending
    obtain rs where "update_pending_loop slots max_area es q sent (file_names q) =
        Ok (mark_sent q rs, sent @ rs)" "throttled (slots - length sent) max_area q (map fst es) rs"
      using Cons.IH [of q sent] Cons.prems by auto
    with pending show ?thesis
      by (intro exI [of _ rs]) (auto simp: e add throttled_skip)
  next
    case fresh
    obtain r where r: "requests_by_id q i = Some r" "oreq_of r = a"
      using Cons.prems(1,2) queue_by_request [of q i a] by (auto simp: e)
    let ?q = "mark_sent q [r]"
    have wf: "queue_wf ?q" using mark_sent_wf [OF Cons.prems(1), of "[r]"] r by auto
    have q: "q\<lparr>pending_requests := insert a (pending_requests q), requested_size := ?sz\<rparr> = ?q"
      using fresh(1) r(2) queue_finite_pending [OF Cons.prems(1)] queue_size [OF Cons.prems(1)]
      by (simp add: mark_sent_def pending_size_def)
    have "requested_size ?q \<le> max_area"
      using fresh(4) by (simp flip: q)
    then obtain rs where
      rs: "update_pending_loop slots max_area es ?q (sent @ [r]) (file_names ?q) =
        Ok (mark_sent ?q rs, (sent @ [r]) @ rs)"
      "throttled (slots - length (sent @ [r])) max_area ?q (map fst es) rs"
      using Cons.IH [OF wf, of "sent @ [r]"] Cons.prems(2,3) by auto
    have names: "insert (oreq_name a) (file_names q) = file_names ?q"
      using r(2) by (auto simp: file_names_mark_sent oreq_of_def)
    have "card (file_names q) < max_files \<or> req_name r \<in> file_names q"
      using fresh(2) r(2) by (auto simp: oreq_of_def)
    moreover have "requested_size q + as_usize (req_size r) \<le> max_area"
      using fresh(4) r(2) by (auto simp: oreq_of_def)
    ultimately have "throttled (Suc (slots - length (sent @ [r]))) max_area q (a # map fst es) (r # rs)"
      using throttled_take [OF Cons.prems(1) r(1) _ _ _ rs(2)] fresh(1) r(2) by simp
    moreover have "Suc (slots - length (sent @ [r])) = slots - length sent"
      using fresh(3) by simp
    moreover have "update_pending_loop slots max_area (e # es) q sent (file_names q) =
        Ok (mark_sent q (r # rs), sent @ r # rs)"
      using fresh r(1) rs(1) by (simp add: e add q names mark_sent_Cons)
    ultimately show ?thesis
      by (intro exI [of _ "r # rs"]) (simp add: e)
  qed
qed

lemma update_pending_requests_spec:
  assumes "queue_wf q" and "card (pending_requests q) \<le> max_pending" and "requested_size q \<le> max_area"
    and "\<forall>(a, i, t) \<in> set (requests_by_request q). max_area + as_usize (oreq_size a) < 2 ^ 64"
  shows "\<exists>rs. update_pending_requests q max_pending max_area = Ok (mark_sent q rs, rs) \<and>
    throttled (max_pending - card (pending_requests q)) max_area q (map fst (requests_by_request q)) rs"
proof -
  have "\<forall>(a, i, t) \<in> set (requests_by_request q). request_at q i a"
    using btree.in_entries [OF queue_valid [OF assms(1)]] by (auto simp: request_at_def)
  from update_pending_loop_spec [OF assms(1) this assms(4,3),
      of "max_pending - card (pending_requests q)" "[]"] assms(2)
  show ?thesis
    by (simp add: update_pending_requests_def file_names_def)
qed

section \<open>Abstract view\<close>

definition abs_queue :: "outgoing_requests \<Rightarrow> int \<Rightarrow> (request \<times> bool) option" where
  "abs_queue q i = map_option (\<lambda>r. (r, oreq_of r \<in> pending_requests q)) (requests_by_id q i)"

lemma abs_insert:
  assumes "queue_wf q" and "requests_by_id q i = None" and "length (req_hash r) = 32"
    and "\<forall>j s. requests_by_id q j = Some s \<longrightarrow> oreq_of s \<noteq> oreq_of r"
  shows "\<exists>q'. insert_request now q i r = Ok (q', Some r) \<and> queue_wf q' \<and>
    abs_queue q' = (abs_queue q)(i \<mapsto> (r, False))"
proof -
  have none: "map_of (requests_by_request q) (oreq_of r) = None"
    using assms(4) queue_by_request [OF assms(1), of _ "oreq_of r"]
    by (cases "map_of (requests_by_request q) (oreq_of r)") (auto simp: request_at_def)
  then have "oreq_of r \<notin> pending_requests q"
    using queue_pending [OF assms(1), of "oreq_of r"] by (auto simp: request_at_def)
  moreover obtain q' where q': "insert_request now q i r = Ok (q', Some r)"
    using none by (simp add: insert_request_cases [OF assms(3)])
  ultimately have "abs_queue q' = (abs_queue q)(i \<mapsto> (r, False))"
    using none by (auto simp: insert_request_cases [OF assms(3)] abs_queue_def)
  with q' show ?thesis
    using insert_request_wf [OF assms(1,2) q'] by blast
qed

lemma abs_insert_duplicate:
  assumes "queue_wf q" and "length (req_hash r) = 32"
    and "requests_by_id q j = Some s" and "oreq_of s = oreq_of r"
  shows "insert_request now q i r = Ok (q, None)"
  using assms queue_by_id [OF assms(1,3)] by (auto simp: insert_request_cases request_at_def)

lemma abs_remove:
  assumes "queue_wf q" and "abs_queue q i = Some (r, True)"
  shows "\<exists>q'. remove_request q i = Ok (q', Some r) \<and> queue_wf q' \<and> abs_queue q' = (abs_queue q)(i := None)
    \<and> requested_size q' = requested_size q - as_usize (req_size r)"
proof -
  have r: "requests_by_id q i = Some r" "oreq_of r \<in> pending_requests q"
    using assms(2) by (auto simp: abs_queue_def)
  note eq = remove_request_pending [OF assms(1) r]
  have "oreq_of s \<noteq> oreq_of r" if "requests_by_id q j = Some s" "j \<noteq> i" for j s
    using queue_by_id [OF assms(1)] that r(1) request_at_fun by metis
  then show ?thesis
    using eq remove_request_wf [OF assms(1) eq]
    by (auto simp: abs_queue_def fun_eq_iff intro!: option.map_cong)
qed

lemma abs_remove_waiting:
  "queue_wf q \<Longrightarrow> abs_queue q i = Some (r, False) \<Longrightarrow> remove_request q i = Panic"
  using remove_request_waiting by (auto simp: abs_queue_def)

lemma abs_mark_sent:
  assumes "queue_wf q" and "\<forall>r \<in> set rs. \<exists>i. requests_by_id q i = Some r"
  shows "abs_queue (mark_sent q rs) i = map_option (\<lambda>(r, sent). (r, sent \<or> r \<in> set rs)) (abs_queue q i)"
proof -
  have "s = r" if "requests_by_id q i = Some r" "s \<in> set rs" "oreq_of s = oreq_of r" for r s
    using that assms(2) queue_by_id [OF assms(1)] request_at_fun by (metis option.inject)
  then have "oreq_of r \<in> oreq_of ` set rs \<longleftrightarrow> r \<in> set rs" if "requests_by_id q i = Some r" for r
    using that by (metis image_iff)
  then show ?thesis
    by (cases "requests_by_id q i") (auto simp: abs_queue_def mark_sent_def)
qed

section \<open>Runs\<close>

text \<open>
  Every queue that the program can have: it starts empty, requests come in under identifiers that
  are not in use, responses take sent requests out, old requests are dropped, and the throttling
  sends more.
\<close>

inductive queue_run :: "nat \<Rightarrow> nat \<Rightarrow> outgoing_requests \<Rightarrow> bool" for max_pending max_area where
  start: "queue_run max_pending max_area outgoing_requests_default"
| insertion: "queue_run max_pending max_area q \<Longrightarrow> get_request q i = None \<Longrightarrow>
    0 \<le> req_size r \<Longrightarrow> req_size r < 2 ^ 31 \<Longrightarrow>
    insert_request now q i r = Ok (q', res) \<Longrightarrow> queue_run max_pending max_area q'"
| removal: "queue_run max_pending max_area q \<Longrightarrow> remove_request q i = Ok (q', res) \<Longrightarrow>
    queue_run max_pending max_area q'"
| expiry: "queue_run max_pending max_area q \<Longrightarrow> remove_old_requests now q = Ok q' \<Longrightarrow>
    queue_run max_pending max_area q'"
| throttling: "queue_run max_pending max_area q \<Longrightarrow>
    update_pending_requests q max_pending max_area = Ok (q', rs) \<Longrightarrow> queue_run max_pending max_area q'"

definition queue_limits :: "nat \<Rightarrow> nat \<Rightarrow> outgoing_requests \<Rightarrow> bool" where
  "queue_limits max_pending max_area q \<longleftrightarrow>
     queue_wf q \<and> card (pending_requests q) \<le> max_pending \<and> requested_size q \<le> max_area \<and>
     card (file_names q) \<le> max_files \<and>
     (\<forall>(a, i, t) \<in> set (requests_by_request q). 0 \<le> oreq_size a \<and> oreq_size a < 2 ^ 31)"

lemma as_usize_small: "0 \<le> s \<Longrightarrow> s < 2 ^ 31 \<Longrightarrow> as_usize s < 2 ^ 31"
  by (simp add: as_usize_def)

lemma sent_limits:
  assumes "queue_limits max_pending max_area q" and "max_area < 2 ^ 63"
  shows "\<exists>rs. update_pending_requests q max_pending max_area = Ok (mark_sent q rs, rs) \<and>
    throttled (max_pending - card (pending_requests q)) max_area q (map fst (requests_by_request q)) rs"
proof (rule update_pending_requests_spec)
  show "\<forall>(a, i, t) \<in> set (requests_by_request q). max_area + as_usize (oreq_size a) < 2 ^ 64"
  proof clarify
    fix a i t assume "(a, i, t) \<in> set (requests_by_request q)"
    then have "as_usize (oreq_size a) < 2 ^ 31"
      using assms(1) as_usize_small by (auto simp: queue_limits_def)
    with assms(2) show "max_area + as_usize (oreq_size a) < 2 ^ 64" by simp
  qed
qed (use assms(1) in \<open>auto simp: queue_limits_def\<close>)

lemma throttled_limits:
  assumes "queue_limits max_pending max_area q"
    and rs: "throttled (max_pending - card (pending_requests q)) max_area q keys rs"
  shows "queue_limits max_pending max_area (mark_sent q rs)"
proof -
  have wf: "queue_wf q" and fin: "finite (pending_requests q)"
    using assms(1) queue_finite_pending by (auto simp: queue_limits_def)
  have "card (pending_requests (mark_sent q rs)) \<le> card (pending_requests q) + length rs"
    using card_Un_le [of "pending_requests q" "set (map oreq_of rs)"] card_length [of "map oreq_of rs"]
    by (simp add: mark_sent_def)
  moreover have "queue_wf (mark_sent q rs)"
    using mark_sent_wf [OF wf] rs by (simp add: throttled_def)
  moreover have "requests_by_request (mark_sent q rs) = requests_by_request q"
    by (simp add: mark_sent_def)
  ultimately show ?thesis
    using assms by (auto simp: queue_limits_def throttled_def)
qed

lemma insert_limits:
  assumes "queue_limits max_pending max_area q" and "get_request q i = None"
    and "0 \<le> req_size r" and "req_size r < 2 ^ 31" and ins: "insert_request now q i r = Ok (q', res)"
  shows "queue_limits max_pending max_area q'"
proof -
  have wf: "queue_wf q" using assms(1) by (simp add: queue_limits_def)
  note valid = queue_valid [OF wf]
  have wf': "queue_wf q'"
    using insert_request_wf [OF wf _ ins] assms(2) by (simp add: get_request_def)
  have q': "q' = q \<or> (pending_requests q' = pending_requests q \<and> requested_size q' = requested_size q \<and>
      requests_by_request q' = bt_insert (oreq_of r) (i, now) (requests_by_request q))"
    using ins by (auto simp: insert_request_def outgoing_request_from_def split: if_splits)
  have "0 \<le> oreq_size a \<and> oreq_size a < 2 ^ 31"
    if "(a, j, t) \<in> set (bt_insert (oreq_of r) (i, now) (requests_by_request q))" for a j t
  proof (cases "a = oreq_of r")
    case True
    with assms(3,4) show ?thesis by (simp add: oreq_of_def)
  next
    case False
    then have "(a, j, t) \<in> set (requests_by_request q)"
      using that btree.in_entries [OF btree.valid_insert [OF valid]] btree.in_entries [OF valid]
        btree.get_insert [OF valid] by metis
    with assms(1) show ?thesis by (auto simp: queue_limits_def)
  qed
  with q' wf' assms(1) show ?thesis
    by (auto simp: queue_limits_def file_names_def)
qed

lemma shrink_limits:
  assumes "queue_limits max_pending max_area q" and "queue_wf q'"
    and "pending_requests q' \<subseteq> pending_requests q"
    and "set (requests_by_request q') \<subseteq> set (requests_by_request q)"
  shows "queue_limits max_pending max_area q'"
proof -
  have fin: "finite (pending_requests q)"
    using assms(1) queue_finite_pending by (auto simp: queue_limits_def)
  have "requested_size q' \<le> requested_size q"
    using queue_size [OF assms(2)] queue_size [of q] assms(1)
      sum_mono2 [OF fin assms(3), of "\<lambda>r. as_usize (oreq_size r)"]
    by (simp add: queue_limits_def pending_size_def)
  moreover have "card (pending_requests q') \<le> card (pending_requests q)"
    by (rule card_mono [OF fin assms(3)])
  moreover have "card (file_names q') \<le> card (file_names q)"
    unfolding file_names_def using fin assms(3) by (intro card_mono image_mono) auto
  ultimately show ?thesis
    using assms by (auto simp: queue_limits_def)
qed

lemma remove_request_shrinks:
  assumes "remove_request q i = Ok (q', res)"
  shows "pending_requests q' \<subseteq> pending_requests q"
    and "set (requests_by_request q') \<subseteq> set (requests_by_request q)"
  using assms
  by (auto simp: remove_request_def Let_def bt_remove_def split: option.splits)

lemma queue_run_limits:
  assumes "queue_run max_pending max_area q" and "max_area < 2 ^ 63"
  shows "queue_limits max_pending max_area q"
  using assms(1)
proof (induction rule: queue_run.induct)
  case start
  show ?case
    using queue_wf_default
    by (simp add: queue_limits_def) (simp add: outgoing_requests_default_def file_names_def)
next
  case (insertion q i r now q' res)
  then show ?case using insert_limits by blast
next
  case (removal q i q' res)
  then show ?case
    using shrink_limits remove_request_wf remove_request_shrinks
    by (metis queue_limits_def)
next
  case (expiry q now q')
  then have wf: "queue_wf q" by (simp add: queue_limits_def)
  then have "q' = without_old now q" using expiry.hyps(2) by (simp add: remove_old_requests_eq)
  then show ?case
    using shrink_limits [OF expiry.IH without_old_wf [OF wf, of now]]
    by (auto simp: without_old_def)
next
  case (throttling q q' rs)
  then show ?case
    using sent_limits [OF _ assms(2)] throttled_limits by fastforce
qed

section \<open>The interface of the queue\<close>

text \<open>
  What the state of the program (\<^verbatim>\<open>src/src/core/bep_state.rs\<close>) relies on: a new request is added
  as not sent, a request that is already there is left alone.
\<close>

text \<open>
  The loop of \<^verbatim>\<open>BepState::insert_requests\<close>; \<open>clk\<close> gives the creation time of each request.  The requests before one
  that panics stay in the queue.
\<close>

fun insert_all ::
    "(nat \<Rightarrow> 'q \<Rightarrow> int \<Rightarrow> request \<Rightarrow> ('q \<times> request option, unit) result) \<Rightarrow> (request \<Rightarrow> nat) \<Rightarrow> 'q \<Rightarrow>
     request list \<Rightarrow> 'q \<times> (request list, unit) result" where
  "insert_all ins clk q [] = (q, Ok [])"
| "insert_all ins clk q (r # rs) =
     (case ins (clk r) q (req_id r) r of
        Ok (q, res) \<Rightarrow>
          io_then (insert_all ins clk q rs) (\<lambda>q rest. (q, Ok (case res of None \<Rightarrow> rest | Some x \<Rightarrow> x # rest)))
      | _ \<Rightarrow> (q, Panic))"

locale request_queue =
  fixes inv :: "'q \<Rightarrow> bool"
    and view :: "'q \<Rightarrow> int \<Rightarrow> (request \<times> bool) option"
    and ins :: "nat \<Rightarrow> 'q \<Rightarrow> int \<Rightarrow> request \<Rightarrow> ('q \<times> request option, unit) result"
  assumes ins_new: "inv q \<Longrightarrow> view q i = None \<Longrightarrow> length (req_hash r) = 32 \<Longrightarrow>
      \<forall>j s b. view q j = Some (s, b) \<longrightarrow> oreq_of s \<noteq> oreq_of r \<Longrightarrow>
      \<exists>q'. ins now q i r = Ok (q', Some r) \<and> inv q' \<and> view q' = (view q)(i \<mapsto> (r, False))"
    and ins_known: "inv q \<Longrightarrow> length (req_hash r) = 32 \<Longrightarrow> view q j = Some (s, b) \<Longrightarrow>
      oreq_of s = oreq_of r \<Longrightarrow> ins now q i r = Ok (q, None)"
begin

definition holds :: "'q \<Rightarrow> request \<Rightarrow> bool" where
  "holds q r \<longleftrightarrow> (\<exists>j s b. view q j = Some (s, b) \<and> oreq_of s = oreq_of r)"

lemma ins_cases:
  assumes "inv q" and "view q i = None" and "length (req_hash r) = 32"
  obtains (new) q' where "ins now q i r = Ok (q', Some r)" "inv q'" "view q' = (view q)(i \<mapsto> (r, False))"
      "\<not> holds q r"
    | (known) "ins now q i r = Ok (q, None)" "holds q r"
  using assms ins_new [OF assms(1,2,3), of now] ins_known [OF assms(1,3)] unfolding holds_def by metis

lemma insert_all_spec:
  assumes "inv q" and "distinct (map req_id rs)"
    and "\<forall>r \<in> set rs. view q (req_id r) = None \<and> length (req_hash r) = 32"
  shows "\<exists>q' added. insert_all ins clk q rs = (q', Ok added) \<and> inv q' \<and> set added \<subseteq> set rs \<and>
    (\<forall>r \<in> set rs. holds q' r) \<and>
    (\<forall>i. view q' i = (case find (\<lambda>r. req_id r = i) added of Some r \<Rightarrow> Some (r, False) | None \<Rightarrow> view q i))"
  using assms
proof (induction rs arbitrary: q)
  case Nil
  then show ?case by simp
next
  case (Cons r rs)
  have r: "view q (req_id r) = None" "length (req_hash r) = 32" using Cons.prems(3) by auto
  have ids: "req_id r \<noteq> req_id s" if "s \<in> set rs" for s using Cons.prems(2) that by force
  consider (new) q1 where "ins (clk r) q (req_id r) r = Ok (q1, Some r)" "inv q1"
      "view q1 = (view q)(req_id r \<mapsto> (r, False))" "\<not> holds q r"
    | (known) "ins (clk r) q (req_id r) r = Ok (q, None)" "holds q r"
    using ins_cases [OF Cons.prems(1) r] by metis
  then show ?case
  proof cases
    case new
    have "\<forall>s \<in> set rs. view q1 (req_id s) = None \<and> length (req_hash s) = 32"
      using Cons.prems(3) ids new(3) by (metis fun_upd_other list.set_intros(2))
    then obtain q' added where rec: "insert_all ins clk q1 rs = (q', Ok added)" "inv q'" "set added \<subseteq> set rs"
      "\<forall>r \<in> set rs. holds q' r"
      "\<forall>i. view q' i = (case find (\<lambda>r. req_id r = i) added of Some r \<Rightarrow> Some (r, False) | None \<Rightarrow> view q1 i)"
      using Cons.IH [OF new(2)] Cons.prems(2) by auto
    have none: "find (\<lambda>s. req_id s = req_id r) added = None"
      using ids rec(3) unfolding find_None_iff by (metis subsetD)
    then have "view q' (req_id r) = Some (r, False)" using rec(5) new(3) by simp
    then have "holds q' r" unfolding holds_def by blast
    moreover have "view q' i = (case find (\<lambda>r. req_id r = i) (r # added) of Some r \<Rightarrow> Some (r, False)
        | None \<Rightarrow> view q i)" for i
      using rec(5) new(3) none by (cases "i = req_id r") (auto split: option.splits)
    ultimately show ?thesis
      using rec(1-4) new(1) by (intro exI [of _ q'] exI [of _ "r # added"]) auto
  next
    case known
    obtain q' added where rec: "insert_all ins clk q rs = (q', Ok added)" "inv q'" "set added \<subseteq> set rs"
      "\<forall>r \<in> set rs. holds q' r"
      "\<forall>i. view q' i = (case find (\<lambda>r. req_id r = i) added of Some r \<Rightarrow> Some (r, False) | None \<Rightarrow> view q i)"
      using Cons.IH [OF Cons.prems(1)] Cons.prems(2,3) by auto
    obtain j s b where s: "view q j = Some (s, b)" "oreq_of s = oreq_of r"
      using known(2) unfolding holds_def by blast
    have "\<forall>x \<in> set added. req_id x \<noteq> j" using rec(3) Cons.prems(3) s(1) by force
    then have "view q' j = Some (s, b)" using rec(5) s(1) by (simp add: find_None_iff [THEN iffD2])
    then have "holds q' r" using s(2) unfolding holds_def by blast
    with rec known show ?thesis
      by (intro exI [of _ q'] exI [of _ added]) auto
  qed
qed

end

interpretation outgoing: request_queue queue_wf abs_queue insert_request
proof
  fix q i now and r :: request assume wf: "queue_wf q" and len: "length (req_hash r) = 32"
  show "\<exists>q'. insert_request now q i r = Ok (q', Some r) \<and> queue_wf q' \<and>
      abs_queue q' = (abs_queue q)(i \<mapsto> (r, False))"
    if "abs_queue q i = None" and "\<forall>j s b. abs_queue q j = Some (s, b) \<longrightarrow> oreq_of s \<noteq> oreq_of r"
    using abs_insert [OF wf _ len] that by (auto simp: abs_queue_def)
  show "insert_request now q i r = Ok (q, None)" if "abs_queue q j = Some (s, b)" and "oreq_of s = oreq_of r" for j s b
    using abs_insert_duplicate [OF wf len, of j s] that by (auto simp: abs_queue_def)
qed

section \<open>Properties of the queue\<close>

lemma subseq_sorted_wrt: "subseq xs ys \<Longrightarrow> sorted_wrt P ys \<Longrightarrow> sorted_wrt P xs"
  by (induction rule: list_emb.induct) (auto dest: list_emb_set)

text \<open>
  In every reachable state of the queue the limits hold: at most \<open>max_pending\<close> requests
  are pending, for at most \<open>max_area\<close> bytes in at most ten different file names, and
  \<^verbatim>\<open>requested_size\<close> is exactly the sum of the pending sizes.
\<close>

lemma queue_run_within_limits:
  assumes "queue_run max_pending max_area q" and "max_area < 2 ^ 63"
  shows "queue_wf q \<and> card (pending_requests q) \<le> max_pending \<and>
    requested_size q = (\<Sum>a\<in>pending_requests q. as_usize (oreq_size a)) \<and>
    requested_size q \<le> max_area \<and> card (oreq_name ` pending_requests q) \<le> 10"
  using queue_run_limits [OF assms] queue_size
  by (auto simp: queue_limits_def pending_size_def file_names_def max_files_def)

definition small_request :: request where
  "small_request = \<lparr>req_id = 1, req_folder = ''f'', req_name = ''a'', req_offset = 0, req_size = 5,
     req_hash = replicate 32 7, req_from_temporary = False\<rparr>"

definition small_queue :: outgoing_requests where
  "small_queue = \<lparr>requests_by_id = [1 \<mapsto> small_request],
     requests_by_request = [(oreq_of small_request, 1, 0)], pending_requests = {}, requested_size = 0\<rparr>"

lemma small_queue_run: "queue_run 3 100 small_queue"
  by (rule queue_run.insertion [OF queue_run.start, where i = 1 and r = small_request and now = 0
        and res = "Some small_request"])
     (simp_all add: outgoing_requests_default_def get_request_def small_request_def small_queue_def
       insert_request_def outgoing_request_from_def)

lemma queue_run_within_limits_witness:
  "queue_wf small_queue \<and> card (pending_requests small_queue) \<le> 3 \<and>
    requested_size small_queue = (\<Sum>a\<in>pending_requests small_queue. as_usize (oreq_size a)) \<and>
    requested_size small_queue \<le> 100 \<and> card (oreq_name ` pending_requests small_queue) \<le> 10"
  by (rule queue_run_within_limits [OF small_queue_run]) simp





text \<open>
  Claim C21. Handling a response refines the removal from the abstract queue: a request that was
  sent is returned and taken out, all others stay as they are, and the bytes it asked for are given
  back.  A response for a request that is in the queue but was not sent, which a peer is free to
  send, makes the program panic.
\<close>

theorem remove_request_refines:
  assumes "queue_wf q" and "abs_queue q i = Some (r, sent)"
  shows "if sent then \<exists>q'. remove_request q i = Ok (q', Some r) \<and> queue_wf q' \<and>
        abs_queue q' = (abs_queue q)(i := None) \<and>
        requested_size q' = requested_size q - as_usize (req_size r)
     else remove_request q i = Panic"
  using abs_remove [OF assms(1)] abs_remove_waiting [OF assms(1)] assms(2) by auto

theorem remove_request_refines_witness:
  "remove_request small_queue 1 = Panic"
  using remove_request_refines [of small_queue 1 small_request False]
    queue_run_limits [OF small_queue_run]
  by (simp add: queue_limits_def) (simp add: abs_queue_def small_queue_def)

text \<open>
  Claim C22. Dropping old requests never panics, keeps the invariant and keeps exactly the requests
  that are younger than twelve hours, sent or not.
\<close>

theorem remove_old_requests_keeps_young:
  assumes "queue_wf q"
  shows "\<exists>q'. remove_old_requests now q = Ok q' \<and> queue_wf q' \<and>
    (\<forall>i. abs_queue q' i = (case abs_queue q i of None \<Rightarrow> None
       | Some (r, sent) \<Rightarrow>
           if \<exists>t. map_of (requests_by_request q) (oreq_of r) = Some (i, t) \<and> now - t < MAX_TIME_IN_QUEUE
           then Some (r, sent) else None))"
proof -
  have young: "is_young now q (oreq_of r) \<longleftrightarrow>
      (\<exists>t. map_of (requests_by_request q) (oreq_of r) = Some (i, t) \<and> now - t < MAX_TIME_IN_QUEUE)"
    if "requests_by_id q i = Some r" for i r
    using queue_by_id [OF assms that] by (auto simp: is_young_def request_at_def)
  have "abs_queue (without_old now q) i = (case abs_queue q i of None \<Rightarrow> None
       | Some (r, sent) \<Rightarrow>
           if \<exists>t. map_of (requests_by_request q) (oreq_of r) = Some (i, t) \<and> now - t < MAX_TIME_IN_QUEUE
           then Some (r, sent) else None)" for i
    using young [of i]
    by (cases "requests_by_id q i") (auto simp: abs_queue_def without_old_def)
  then show ?thesis
    using remove_old_requests_eq [OF assms] without_old_wf [OF assms] by blast
qed

theorem remove_old_requests_keeps_young_witness:
  "\<exists>q'. remove_old_requests 9 small_queue = Ok q' \<and> queue_wf q' \<and>
    (\<forall>i. abs_queue q' i = (case abs_queue small_queue i of None \<Rightarrow> None
       | Some (r, sent) \<Rightarrow>
           if \<exists>t. map_of (requests_by_request small_queue) (oreq_of r) = Some (i, t) \<and>
              9 - t < MAX_TIME_IN_QUEUE
           then Some (r, sent) else None))"
  by (rule remove_old_requests_keeps_young)
     (use queue_run_limits [OF small_queue_run] in \<open>simp add: queue_limits_def\<close>)

end
