(* ===== verification/Bep_State.thy ===== *)
theory Bep_State
  imports Database Outgoing_Requests "HOL-Library.Signed_Division"
begin

text \<open>
  The state of the program (\<^verbatim>\<open>src/src/core/bep_state.rs\<close>): the database, the queue of requests, the
  counter of request identifiers, the last file sequence and the indices in memory.

  \<^item> Each method is one definition; a method that only reads takes the state, one that writes
    returns the new state.  The methods run under the mutex of the state, one at a time, and a
    transaction is applied as a whole when it commits.
  \<^item> A statement that fails makes the caller panic (all results are expected).
  \<^item> The clock and the current time are arguments.
\<close>

section \<open>State\<close>

record block_info_ext =
  bx_device_id :: device_id
  bx_folder :: string
  bx_name :: string
  bx_hash :: bytes
  bx_size :: int
  bx_offset :: int

datatype storage_status = NotStored | StoredLocally | StoredRemotely

fun storage_status_into :: "storage_status \<Rightarrow> int" where
  "storage_status_into NotStored = 0"
| "storage_status_into StoredLocally = 1"
| "storage_status_into StoredRemotely = 2"

datatype upload_status = BlocksMissing | AllBlocks

datatype state_error = TooManyBlocks

record file_location =
  floc_location :: string
  floc_backend :: string

record grizol_folder =
  gfo_folder :: folder
  gfo_id :: nat

record grizol_file_info =
  gfi_info :: file_info
  gfi_id :: nat
  gfi_locations :: "file_location list"
  gfi_folder :: string

record bep_state =
  bs_db :: db
  bs_sequence :: "int option"
  bs_request_id :: int
  bs_outgoing :: outgoing_requests
  bs_indices :: grizol_indices

definition bep_state_new :: "db \<Rightarrow> bep_state" where
  "bep_state_new d = \<lparr>bs_db = d, bs_sequence = None, bs_request_id = 0,
     bs_outgoing = outgoing_requests_default, bs_indices = grizol_indices_default\<rparr>"

section \<open>Sequences\<close>

definition max_sequence :: "db \<Rightarrow> int option" where
  "max_sequence d =
     (case db_files d of [] \<Rightarrow> None
      | r # rs \<Rightarrow> Some (fold max (map (\<lambda>r. fi_sequence (fr_info r)) rs) (fi_sequence (fr_info r))))"

definition next_sequence_id :: "bep_state \<Rightarrow> (bep_state \<times> int, unit) result" where
  "next_sequence_id st =
     (let sequence = (if bs_sequence st = None then max_sequence (bs_db st) else bs_sequence st) in
      case sequence of
        Some s \<Rightarrow> if s + 1 < 2 ^ 63 then Ok (st\<lparr>bs_sequence := Some (s + 1)\<rparr>, s + 1) else Panic
      | None \<Rightarrow> Ok (st\<lparr>bs_sequence := Some 1\<rparr>, 1))"

text \<open>\<^verbatim>\<open>for file in files.iter_mut() { file.sequence = self.next_sequence_id().await; }\<close>\<close>

fun assign_sequences :: "bep_state \<Rightarrow> file_info list \<Rightarrow> (bep_state \<times> file_info list, unit) result" where
  "assign_sequences st [] = Ok (st, [])"
| "assign_sequences st (f # fs) =
     and_then (next_sequence_id st) (\<lambda>(st, s).
     map_ok (\<lambda>(st, fs). (st, f\<lparr>fi_sequence := s\<rparr> # fs)) (assign_sequences st fs))"

text \<open>
  A call that panics has its transaction rolled back, but the sequences it has drawn before stay drawn.
\<close>

fun draw_sequences :: "nat \<Rightarrow> bep_state \<Rightarrow> bep_state" where
  "draw_sequences 0 st = st"
| "draw_sequences (Suc n) st = (case next_sequence_id st of Ok (st, _) \<Rightarrow> draw_sequences n st | _ \<Rightarrow> st)"

definition numbering :: "nat \<Rightarrow> (bep_state \<Rightarrow> (bep_state, unit) result) \<Rightarrow> bep_state \<Rightarrow> bep_state \<times> (unit, 'e) result" where
  "numbering n f st = (case f st of Ok st \<Rightarrow> (st, Ok ()) | _ \<Rightarrow> (draw_sequences n st, Panic))"

section \<open>Indices\<close>

definition init_index :: "bep_state \<Rightarrow> string \<Rightarrow> device_id \<Rightarrow> (bep_state, unit) result" where
  "init_index st folder device_id =
     (let d = bs_db st in
      if device_id \<notin> dr_id ` set (db_devices d) \<or> folder \<notin> (\<lambda>r. fol_id (fo_info r)) ` set (db_folders d)
      then Panic
      else if (folder, device_id) \<in> set (db_index d) then Ok st
      else Ok (st\<lparr>bs_db := d\<lparr>db_index := db_index d @ [(folder, device_id)]\<rparr>\<rparr>))"

definition replace_index :: "bep_state \<Rightarrow> index \<Rightarrow> device_id \<Rightarrow> (bep_state, unit) result" where
  "replace_index st index device_id =
     (let d = delete_files (in_folder (idx_folder index) device_id) (bs_db st) in
      and_then (assign_sequences st (idx_files index)) (\<lambda>(st, files).
      and_then (for_each files (insert_file True (idx_folder index) device_id) d) (\<lambda>d.
      Ok (st\<lparr>bs_db := d,
             bs_indices := fst (indices_insert (bs_indices st) device_id (index\<lparr>idx_files := files\<rparr>))\<rparr>))))"

text \<open>
  The rows of the two queries of \<^verbatim>\<open>BepState::index\<close>, and the loops that build the files from them:
  a left join gives one row per block, or one without a block.
\<close>

definition file_block_rows :: "db \<Rightarrow> string \<Rightarrow> device_id \<Rightarrow> (file_row \<times> block_info option) list" where
  "file_block_rows d folder device_id =
     concat (map (\<lambda>f. case blocks_of d (fr_key f) of [] \<Rightarrow> [(f, None)] | bs \<Rightarrow> map (\<lambda>b. (f, Some b)) bs)
       (filter (\<lambda>f. fst (fr_key f) = folder \<and> fst (snd (fr_key f)) = device_id) (db_files d)))"

definition file_version_rows :: "db \<Rightarrow> string \<Rightarrow> device_id \<Rightarrow> (string \<times> counter) list" where
  "file_version_rows d folder device_id =
     concat (map (\<lambda>f. map (\<lambda>c. (fi_name (fr_info f), c)) (counters_of d (fr_key f)))
       (filter (\<lambda>f. fst (fr_key f) = folder \<and> fst (snd (fr_key f)) = device_id) (db_files d)))"

definition add_block_row ::
    "file_row \<times> block_info option \<Rightarrow> (string \<times> file_info) list \<Rightarrow> (string \<times> file_info) list" where
  "add_block_row row existing_files =
     (case row of (file, block) \<Rightarrow>
      let name = fi_name (fr_info file); blocks = (case block of None \<Rightarrow> [] | Some b \<Rightarrow> [b]) in
      case map_of existing_files name of
        Some f \<Rightarrow> AList.update name (f\<lparr>fi_blocks := fi_blocks f @ blocks\<rparr>) existing_files
      | None \<Rightarrow> AList.update name
          ((fr_info file)\<lparr>fi_version := Some \<lparr>vec_counters = []\<rparr>, fi_blocks := blocks\<rparr>) existing_files)"

definition add_counter :: "counter \<Rightarrow> file_info \<Rightarrow> file_info" where
  "add_counter c f = f\<lparr>fi_version := map_option
     (\<lambda>v. v\<lparr>vec_counters := vec_counters v @ [c]\<rparr>) (fi_version f)\<rparr>"

definition add_version_row ::
    "string \<times> counter \<Rightarrow> (string \<times> file_info) list \<Rightarrow> (string \<times> file_info) list" where
  "add_version_row row existing_files =
     (case row of (name, c) \<Rightarrow>
      case map_of existing_files name of
        Some f \<Rightarrow> AList.update name (add_counter c f) existing_files
      | None \<Rightarrow> existing_files)"

definition index_from_db :: "db \<Rightarrow> string \<Rightarrow> device_id \<Rightarrow> index" where
  "index_from_db d folder device_id =
     (let existing_files = fold add_block_row (file_block_rows d folder device_id) [];
          existing_files = fold add_version_row (file_version_rows d folder device_id) existing_files
      in \<lparr>idx_folder = folder, idx_files = map snd existing_files\<rparr>)"

definition bep_index :: "bep_state \<Rightarrow> string \<Rightarrow> device_id \<Rightarrow> bep_state \<times> index option" where
  "bep_index st folder device_id =
     (case indices_index (bs_indices st) \<lparr>fd_folder = folder, fd_device_id = device_id\<rparr> of
        Some i \<Rightarrow> (st, Some i)
      | None \<Rightarrow>
          let index = index_from_db (bs_db st) folder device_id in
          (st\<lparr>bs_indices := fst (indices_insert (bs_indices st) device_id index)\<rparr>, Some index))"

fun collect_indices :: "bep_state \<Rightarrow> (string \<times> device_id) list \<Rightarrow> bep_state \<times> index list" where
  "collect_indices st [] = (st, [])"
| "collect_indices st ((folder, device_id) # rest) =
     (let (st, i) = bep_index st folder device_id; (st, res) = collect_indices st rest
      in (st, (case i of None \<Rightarrow> res | Some i \<Rightarrow> i # res)))"

definition bep_indices ::
    "bep_state \<Rightarrow> string option \<Rightarrow> device_id option \<Rightarrow> device_id \<Rightarrow>
     (bep_state \<times> index list, unit) result" where
  "bep_indices st folder device_id client_device_id =
     (if folder = None \<and> device_id = None then Panic
      else
        let d = bs_db st;
            device_ids = (case device_id of Some i \<Rightarrow> [i]
              | None \<Rightarrow> map snd (filter (\<lambda>(f, _). Some f = folder) (db_index d)))
        in
        and_then
          (case folder of Some f \<Rightarrow> Ok [f]
           | None \<Rightarrow>
               (case device_ids of [] \<Rightarrow> Panic
                | i # _ \<Rightarrow> Ok (concat (map (\<lambda>(fa, da). if da = i
                    then map (\<lambda>_. fa) (filter (\<lambda>(fb, db). fb = fa \<and> db = client_device_id) (db_index d))
                    else []) (db_index d))))) (\<lambda>folders.
        Ok (collect_indices st (concat (map (\<lambda>f. map (\<lambda>i. (f, i)) device_ids) folders)))))"

section \<open>Cluster configuration\<close>

text \<open>\<^verbatim>\<open>join(",")\<close> and \<^verbatim>\<open>split(',')\<close>\<close>

fun join_comma :: "string list \<Rightarrow> string" where
  "join_comma [] = []"
| "join_comma [s] = s"
| "join_comma (s # ss) = s @ CHR '','' # join_comma ss"

fun split_comma :: "string \<Rightarrow> string list" where
  "split_comma [] = [[]]"
| "split_comma (c # cs) =
     (if c = CHR '','' then [] # split_comma cs
      else (case split_comma cs of [] \<Rightarrow> [[c]] | s # ss \<Rightarrow> (c # s) # ss))"

definition upsert_folder :: "folder \<Rightarrow> db \<Rightarrow> db" where
  "upsert_folder f d =
     d\<lparr>db_folders :=
       (if fol_id f \<in> (\<lambda>r. fol_id (fo_info r)) ` set (db_folders d)
        then map (\<lambda>r. if fol_id (fo_info r) = fol_id f
                       then r\<lparr>fo_info := f\<lparr>fol_devices := []\<rparr>\<rparr> else r) (db_folders d)
        else db_folders d @ [\<lparr>fo_rowid = next_rowid (map fo_rowid (db_folders d)),
               fo_info = f\<lparr>fol_devices := []\<rparr>\<rparr>])\<rparr>"

text \<open>A device has one row, whatever the number of folders it shares: the last folder stays.\<close>

definition device_row_from :: "device_id \<Rightarrow> string \<Rightarrow> device_id \<Rightarrow> device \<Rightarrow> device_row" where
  "device_row_from local_device_id folder_id device_id dev =
     (let index_id = (if dvc_id dev = device_id_to_bytes local_device_id then 0 else dvc_index_id dev) in
      \<lparr>dr_folder = folder_id, dr_id = device_id, dr_addresses = join_comma (dvc_addresses dev),
       dr_info = dev\<lparr>dvc_max_sequence := 0, dvc_index_id := index_id, dvc_addresses := []\<rparr>\<rparr>)"

definition upsert_device :: "device_id \<Rightarrow> string \<Rightarrow> device \<Rightarrow> db \<Rightarrow> (db, unit) result" where
  "upsert_device local_device_id folder_id dev d =
     (case device_id_try_from_bytes (dvc_id dev) of
        Ok device_id \<Rightarrow>
          let row = device_row_from local_device_id folder_id device_id dev in
          if dvc_compression dev \<notin> {0, 1, 2} then Panic
          else Ok (d\<lparr>db_devices :=
            (if device_id \<in> dr_id ` set (db_devices d)
             then map (\<lambda>r. if dr_id r = device_id then row else r) (db_devices d)
             else db_devices d @ [row])\<rparr>)
      | _ \<Rightarrow> Panic)"

definition update_cluster_config ::
    "bep_state \<Rightarrow> cluster_config \<Rightarrow> device_id \<Rightarrow> (bep_state, unit) result" where
  "update_cluster_config st other local_device_id =
     map_ok (\<lambda>d. st\<lparr>bs_db := d\<rparr>)
       (for_each (cc_folders other) (\<lambda>f d.
          for_each (fol_devices f) (upsert_device local_device_id (fol_id f)) (upsert_folder f d)) (bs_db st))"

definition compression_never :: int where "compression_never = 1"

definition bep_cluster_config :: "bep_state \<Rightarrow> device_id \<Rightarrow> device_id \<Rightarrow> cluster_config" where
  "bep_cluster_config st local_device_id client_device_id =
     (let d = bs_db st;
          devices = map (\<lambda>r. (dr_folder r, (dr_info r)\<lparr>dvc_id := device_id_to_bytes (dr_id r),
              dvc_addresses := split_comma (dr_addresses r), dvc_compression := compression_never\<rparr>))
            (filter (\<lambda>r. dr_id r = local_device_id \<or> dr_id r = client_device_id) (db_devices d));
          folders = concat (map (\<lambda>fo. map (\<lambda>_. fo_info fo)
            (filter (\<lambda>de. dr_folder de = fol_id (fo_info fo) \<and> dr_id de = client_device_id) (db_devices d)))
            (db_folders d))
      in \<lparr>cc_folders = map (\<lambda>x. x\<lparr>fol_devices := map snd (filter (\<lambda>(f, _). f = fol_id x) devices)\<rparr>) folders\<rparr>)"

section \<open>Blocks\<close>

text \<open>
  \<^verbatim>\<open>UPDATE bep_block_info SET storage_status = 1\<close> for the blocks of a file with a given hash, and the
  count of the stored blocks of a file.
\<close>

definition mark_stored :: "file_key \<Rightarrow> bytes \<Rightarrow> db \<Rightarrow> db" where
  "mark_stored k h d = d\<lparr>db_blocks := map (\<lambda>r. if br_key r = k \<and> bi_hash (br_block r) = h
     then r\<lparr>br_status := storage_status_into StoredLocally\<rparr> else r) (db_blocks d)\<rparr>"

definition stored_count :: "file_key \<Rightarrow> db \<Rightarrow> int" where
  "stored_count k d = int (length (filter (\<lambda>r. br_key r = k \<and> br_status r = 1) (db_blocks d)))"

definition expected_blocks :: "file_info \<Rightarrow> (int, unit) result" where
  "expected_blocks f =
     (let n = fi_size f + fi_block_size f in
      if \<not> in_int64 n \<or> \<not> in_int64 (n - 1) \<or> fi_block_size f = 0 \<or>
         \<not> in_int64 ((n - 1) sdiv fi_block_size f) then Panic
      else Ok (max ((n - 1) sdiv fi_block_size f) 1))"

definition update_block_storage_state ::
    "bep_state \<Rightarrow> int \<Rightarrow> device_id \<Rightarrow> (bep_state \<times> (upload_status, state_error) result, unit) result" where
  "update_block_storage_state st request_id device_id =
     and_then (unwrap_opt (get_request (bs_outgoing st) request_id)) (\<lambda>request.
     let k = (req_folder request, device_id, req_name request);
         d = mark_stored k (req_hash request) (bs_db st);
         stored_blocks = stored_count k d
     in case find (\<lambda>r. fr_key r = k) (db_files d) of
          None \<Rightarrow> Panic
        | Some fi \<Rightarrow>
            if stored_blocks = 0 then Panic
            else and_then (expected_blocks (fr_info fi)) (\<lambda>expected_blocks.
              Ok (st\<lparr>bs_db := d\<rparr>,
                  if stored_blocks = expected_blocks then Ok AllBlocks
                  else if stored_blocks < expected_blocks then Ok BlocksMissing
                  else Err TooManyBlocks)))"

definition blocks_info :: "bep_state \<Rightarrow> device_id \<Rightarrow> storage_status \<Rightarrow> block_info_ext list" where
  "blocks_info st device_id status =
     map (\<lambda>r. \<lparr>bx_device_id = device_id, bx_folder = fst (br_key r), bx_name = snd (snd (br_key r)),
          bx_hash = bi_hash (br_block r), bx_size = bi_size (br_block r), bx_offset = bi_offset (br_block r)\<rparr>)
       (filter (\<lambda>r. fst (snd (br_key r)) = device_id \<and> br_status r = storage_status_into status)
         (db_blocks (bs_db st)))"

section \<open>Files\<close>

definition bep_file_info :: "bep_state \<Rightarrow> string \<Rightarrow> device_id \<Rightarrow> string \<Rightarrow> file_info option" where
  "bep_file_info st folder_name device_id file_name = file_at (bs_db st) (folder_name, device_id, file_name)"

definition insert_file_info ::
    "bep_state \<Rightarrow> string \<Rightarrow> device_id \<Rightarrow> file_info list \<Rightarrow> (bep_state, unit) result" where
  "insert_file_info st folder device_id file_info =
     and_then (assign_sequences st file_info) (\<lambda>(st, file_info).
     and_then (for_each file_info (insert_file True folder device_id) (bs_db st)) (\<lambda>d.
     Ok (st\<lparr>bs_db := d,
            bs_indices := indices_insert_file_info (bs_indices st) folder device_id file_info\<rparr>)))"

text \<open>
  With \<open>move_file\<close> the first file that is not deleted meets an assertion that cannot hold.
\<close>

definition replace_file_info ::
    "bep_state \<Rightarrow> string \<Rightarrow> device_id \<Rightarrow> file_info list \<Rightarrow> bool \<Rightarrow> (bep_state, unit) result" where
  "replace_file_info st folder device_id file_info move_file =
     and_then (assign_sequences st file_info) (\<lambda>(st, file_info).
     let file_info = filter (\<lambda>f. \<not> fi_deleted f) file_info in
     and_then (for_each file_info (\<lambda>f d.
         if move_file then Panic
         else insert_file False folder device_id f
           (delete_files (\<lambda>k. k = (folder, device_id, fi_name f)) d)) (bs_db st)) (\<lambda>d.
     Ok (st\<lparr>bs_db := d,
            bs_indices := indices_insert_file_info (bs_indices st) folder device_id file_info\<rparr>)))"

definition rm_replace_file_info ::
    "bep_state \<Rightarrow> string \<Rightarrow> device_id \<Rightarrow> file_info list \<Rightarrow> (bep_state, unit) result" where
  "rm_replace_file_info st folder device_id file_info = replace_file_info st folder device_id file_info False"

definition rm_file_info :: "bep_state \<Rightarrow> string \<Rightarrow> device_id \<Rightarrow> string \<Rightarrow> bep_state" where
  "rm_file_info st folder device_id file_name =
     st\<lparr>bs_db := delete_files (\<lambda>k. k = (folder, device_id, file_name)) (bs_db st),
        bs_indices := fst (indices_remove_file_info (bs_indices st) folder device_id file_name)\<rparr>"

text \<open>\<^verbatim>\<open>INSERT INTO bep_file_location ... ON CONFLICT ... DO UPDATE\<close>, which changes nothing on conflict.\<close>

definition insert_location :: "file_key \<Rightarrow> string \<times> string \<Rightarrow> db \<Rightarrow> (db, unit) result" where
  "insert_location k loc d =
     (let row = \<lparr>lr_key = k, lr_backend = fst loc, lr_location = snd loc\<rparr> in
      if k \<notin> file_keys d then Panic
      else if row \<in> set (db_locations d) then Ok d
      else Ok (d\<lparr>db_locations := db_locations d @ [row]\<rparr>))"

definition rename_key :: "file_key \<Rightarrow> file_key \<Rightarrow> file_key \<Rightarrow> file_key" where
  "rename_key k k' j = (if j = k then k' else j)"

text \<open>\<^verbatim>\<open>UPDATE OR ROLLBACK bep_file_info SET name = ?, sequence = ? WHERE ...\<close> with its cascade.\<close>

definition rename_file :: "file_key \<Rightarrow> string \<Rightarrow> int \<Rightarrow> db \<Rightarrow> (db, unit) result" where
  "rename_file k name s d =
     (let k' = (fst k, fst (snd k), name) in
      if k \<notin> file_keys d then Ok d
      else if k' \<noteq> k \<and> k' \<in> file_keys d then Panic
      else if (\<exists>r \<in> set (db_files d). fr_key r \<noteq> k \<and> fi_sequence (fr_info r) = s) then Panic
      else Ok (d\<lparr>
        db_files := map (\<lambda>r. if fr_key r = k
          then r\<lparr>fr_key := k', fr_info := (fr_info r)\<lparr>fi_name := name, fi_sequence := s\<rparr>\<rparr> else r) (db_files d),
        db_locations := map (\<lambda>r. r\<lparr>lr_key := rename_key k k' (lr_key r)\<rparr>) (db_locations d),
        db_cache := map (\<lambda>r. r\<lparr>cr_key := rename_key k k' (cr_key r)\<rparr>) (db_cache d),
        db_blocks := map (\<lambda>r. r\<lparr>br_key := rename_key k k' (br_key r)\<rparr>) (db_blocks d),
        db_versions := map (\<lambda>r. r\<lparr>vr_key := rename_key k k' (vr_key r)\<rparr>) (db_versions d)\<rparr>))"

definition mv_file_info ::
    "bep_state \<Rightarrow> string \<Rightarrow> device_id \<Rightarrow> file_info \<Rightarrow> string \<Rightarrow> file_location list \<Rightarrow>
     (bep_state, unit) result" where
  "mv_file_info st folder device_id orig_file_info dest_file_name dest_file_locations =
     and_then (next_sequence_id st) (\<lambda>(st, s).
     let dest = (folder, device_id, dest_file_name) in
     and_then (rename_file (folder, device_id, fi_name orig_file_info) dest_file_name s (bs_db st)) (\<lambda>d.
     let d = d\<lparr>db_locations := filter (\<lambda>r. lr_key r \<noteq> dest) (db_locations d)\<rparr>;
         d = d\<lparr>db_cache := filter (\<lambda>r. cr_key r \<noteq> dest) (db_cache d)\<rparr>
     in
     and_then (for_each dest_file_locations
       (\<lambda>l. insert_location dest (floc_backend l, floc_location l)) d) (\<lambda>d.
     Ok (st\<lparr>bs_db := d\<rparr>))))"

definition update_file_locations ::
    "bep_state \<Rightarrow> string \<Rightarrow> device_id \<Rightarrow> string \<Rightarrow> (string \<times> string) list \<Rightarrow> (bep_state, unit) result" where
  "update_file_locations st folder device_id file_name locations =
     map_ok (\<lambda>d. st\<lparr>bs_db := d\<rparr>)
       (for_each locations (insert_location (folder, device_id, file_name)) (bs_db st))"

definition remove_file_locations ::
    "bep_state \<Rightarrow> string \<Rightarrow> device_id \<Rightarrow> string \<Rightarrow> string list \<Rightarrow> bep_state" where
  "remove_file_locations st folder device_id file_name storage_backends =
     (let d = bs_db st in
      st\<lparr>bs_db := fold (\<lambda>storage_backend d. d\<lparr>db_locations :=
            filter (\<lambda>r. \<not> (lr_key r = (folder, device_id, file_name) \<and> lr_backend r = storage_backend))
              (db_locations d)\<rparr>) storage_backends d\<rparr>)"

section \<open>Views for the file system\<close>

definition top_folders_fuse :: "bep_state \<Rightarrow> device_id \<Rightarrow> grizol_folder list" where
  "top_folders_fuse st device_id =
     (let d = bs_db st in
      map (\<lambda>f. \<lparr>gfo_folder = fo_info f, gfo_id = fo_rowid f\<rparr>)
        (filter (\<lambda>f. \<exists>i \<in> set (db_index d). fst i = fol_id (fo_info f) \<and> snd i = device_id) (db_folders d)))"

text \<open>The rows of the right join: one per location of a file, or one without a location.\<close>

definition file_location_rows :: "db \<Rightarrow> device_id \<Rightarrow> (file_row \<times> location_row option) list" where
  "file_location_rows d device_id =
     concat (map (\<lambda>f. case filter (\<lambda>l. lr_key l = fr_key f) (db_locations d) of
         [] \<Rightarrow> [(f, None)] | ls \<Rightarrow> map (\<lambda>l. (f, Some l)) ls)
       (filter (\<lambda>f. fst (snd (fr_key f)) = device_id) (db_files d)))"

definition add_location_row ::
    "file_row \<times> location_row option \<Rightarrow> (file_key \<times> grizol_file_info) list \<Rightarrow>
     (file_key \<times> grizol_file_info) list" where
  "add_location_row row files_fuse =
     (case row of (file, loc) \<Rightarrow>
      let k = fr_key file;
          g_fin = \<lparr>gfi_info = (fr_info file)\<lparr>fi_version := None, fi_blocks := []\<rparr>, gfi_id = fr_rowid file,
            gfi_locations = [], gfi_folder = fst k\<rparr>;
          files_fuse = (case map_of files_fuse k of
            Some _ \<Rightarrow> files_fuse | None \<Rightarrow> AList.update k g_fin files_fuse)
      in case loc of
           None \<Rightarrow> files_fuse
         | Some l \<Rightarrow>
             if lr_backend l = ''local'' then files_fuse
             else (case map_of files_fuse k of
                 None \<Rightarrow> files_fuse
               | Some g \<Rightarrow> AList.update k (g\<lparr>gfi_locations := gfi_locations g @
                   [\<lparr>floc_location = lr_location l, floc_backend = lr_backend l\<rparr>]\<rparr>) files_fuse))"

definition files_fuse :: "bep_state \<Rightarrow> device_id \<Rightarrow> grizol_file_info list" where
  "files_fuse st device_id =
     map snd (fold add_location_row (file_location_rows (bs_db st) device_id) [])"

section \<open>Requests\<close>

definition load_request_id :: "bep_state \<Rightarrow> int" where
  "load_request_id st = bs_request_id st"

definition fetch_add_request_id :: "bep_state \<Rightarrow> int \<Rightarrow> (bep_state \<times> int, unit) result" where
  "fetch_add_request_id st val =
     (if - (2 ^ 31) \<le> bs_request_id st + val \<and> bs_request_id st + val < 2 ^ 31
      then Ok (st\<lparr>bs_request_id := bs_request_id st + val\<rparr>, bs_request_id st) else Panic)"

definition insert_requests ::
    "nat \<Rightarrow> (request \<Rightarrow> nat) \<Rightarrow> bep_state \<Rightarrow> request list \<Rightarrow> bep_state \<times> (request list, unit) result" where
  "insert_requests now clk st requests =
     (case remove_old_requests now (bs_outgoing st) of
        Ok q \<Rightarrow> apfst (\<lambda>q. st\<lparr>bs_outgoing := q\<rparr>) (insert_all insert_request clk q requests)
      | _ \<Rightarrow> (st, Panic))"

definition bep_update_pending_requests ::
    "bep_state \<Rightarrow> nat \<Rightarrow> nat \<Rightarrow> (bep_state \<times> request list, unit) result" where
  "bep_update_pending_requests st max_pending max_storage_area =
     map_ok (\<lambda>(q, rs). (st\<lparr>bs_outgoing := q\<rparr>, rs))
       (update_pending_requests (bs_outgoing st) max_pending max_storage_area)"

definition bep_get_request :: "bep_state \<Rightarrow> int \<Rightarrow> request option" where
  "bep_get_request st request_id = get_request (bs_outgoing st) request_id"

definition bep_remove_request :: "bep_state \<Rightarrow> int \<Rightarrow> (bep_state \<times> request option, unit) result" where
  "bep_remove_request st request_id =
     map_ok (\<lambda>(q, r). (st\<lparr>bs_outgoing := q\<rparr>, r)) (remove_request (bs_outgoing st) request_id)"

section \<open>Read cache\<close>

definition is_file_in_read_cache :: "bep_state \<Rightarrow> device_id \<Rightarrow> string \<Rightarrow> string \<Rightarrow> bool" where
  "is_file_in_read_cache st device_id folder file \<longleftrightarrow>
     length (filter (\<lambda>r. cr_key r = (folder, device_id, file)) (db_cache (bs_db st))) = 1"

text \<open>The cached regular files with their sizes, oldest first.\<close>

definition cached_files :: "db \<Rightarrow> (cache_row \<times> int) list" where
  "cached_files d =
     sort_key (\<lambda>f. cr_timestamp (fst f))
       (concat (map (\<lambda>c. map (\<lambda>f. (c, fi_size (fr_info f)))
          (filter (\<lambda>f. fr_key f = cr_key c \<and> fi_type (fr_info f) = 0) (db_files d))) (db_cache d)))"

fun evict :: "nat \<Rightarrow> nat \<Rightarrow> (cache_row \<times> int) list \<Rightarrow> (cache_row \<times> int) list" where
  "evict available_bytes needed_bytes [] = []"
| "evict available_bytes needed_bytes ((c, sz) # files) =
     (if needed_bytes \<le> available_bytes then []
      else (c, sz) # evict (available_bytes + nat sz) needed_bytes files)"

definition free_read_cache ::
    "bep_state \<Rightarrow> nat \<Rightarrow> nat \<Rightarrow> (bep_state \<times> (string \<times> string) list, unit) result" where
  "free_read_cache st cache_size needed_bytes =
     (let d = bs_db st; files = cached_files d in
      if \<exists>f \<in> set files. snd f < 0 then Panic
      else
        let used_bytes = sum_list (map (\<lambda>f. nat (snd f)) files) in
        and_then (checked_sub cache_size used_bytes) (\<lambda>available_bytes.
        let removed_files = evict available_bytes needed_bytes files;
            d = fold (\<lambda>f d. d\<lparr>db_cache := filter (\<lambda>r. cr_key r \<noteq> cr_key (fst f)) (db_cache d)\<rparr>) removed_files d
        in Ok (st\<lparr>bs_db := d\<rparr>,
               map (\<lambda>f. (fst (cr_key (fst f)), snd (snd (cr_key (fst f))))) removed_files)))"

definition update_read_cache ::
    "int \<Rightarrow> bep_state \<Rightarrow> device_id \<Rightarrow> string \<Rightarrow> string \<Rightarrow> (bep_state, unit) result" where
  "update_read_cache now st device_id folder file =
     (let d = bs_db st; k = (folder, device_id, file) in
      if k \<notin> file_keys d then Panic
      else if k \<in> cr_key ` set (db_cache d) then Ok st
      else Ok (st\<lparr>bs_db := d\<lparr>db_cache := db_cache d @ [\<lparr>cr_key = k, cr_timestamp = now\<rparr>]\<rparr>\<rparr>))"

section \<open>Reading an index from the tables\<close>

lemma alist_update_new: "n \<notin> fst ` set al \<Longrightarrow> AList.update n v al = al @ [(n, v)]"
  by (induction al) auto

lemma alist_update_last: "n \<notin> fst ` set al \<Longrightarrow> AList.update n v (al @ [(n, w)]) = al @ [(n, v)]"
  by (induction al) auto

lemma alist_update_map:
  "distinct (map fst al) \<Longrightarrow> n \<in> fst ` set al \<Longrightarrow>
   AList.update n v al = map (\<lambda>(m, w). (m, if m = n then v else w)) al"
proof (induction al)
  case (Cons e al)
  obtain m w where e: "e = (m, w)" by (cases e)
  show ?case
  proof (cases "m = n")
    case True
    have "map (\<lambda>(m, w). (m, if m = n then v else w)) al = map (\<lambda>e. e) al"
      using Cons.prems(1) True by (intro map_cong) (auto simp: e image_iff)
    with True e show ?thesis by simp
  next
    case False
    with Cons e show ?thesis by auto
  qed
qed simp

definition folder_rows :: "db \<Rightarrow> string \<Rightarrow> device_id \<Rightarrow> file_row list" where
  "folder_rows d folder device_id =
     filter (\<lambda>f. fst (fr_key f) = folder \<and> fst (snd (fr_key f)) = device_id) (db_files d)"

definition row_name :: "file_row \<Rightarrow> string" where
  "row_name f = fi_name (fr_info f)"

definition bare_file :: "file_row \<Rightarrow> block_info list \<Rightarrow> counter list \<Rightarrow> file_info" where
  "bare_file f bs cs = (fr_info f)\<lparr>fi_version := Some \<lparr>vec_counters = cs\<rparr>, fi_blocks := bs\<rparr>"

lemma fold_more_blocks:
  "row_name f \<notin> fst ` set al \<Longrightarrow>
   fold add_block_row (map (\<lambda>b. (f, Some b)) bs) (al @ [(row_name f, bare_file f bs0 [])]) =
     al @ [(row_name f, bare_file f (bs0 @ bs) [])]"
proof (induction bs arbitrary: bs0)
  case (Cons b bs)
  have "map_of (al @ [(row_name f, bare_file f bs0 [])]) (row_name f) = Some (bare_file f bs0 [])"
    using Cons.prems by (simp add: map_add_def map_of_eq_None_iff [THEN iffD2] split: option.split)
  then have "add_block_row (f, Some b) (al @ [(row_name f, bare_file f bs0 [])]) =
      al @ [(row_name f, bare_file f (bs0 @ [b]) [])]"
    using Cons.prems alist_update_last
    by (simp add: add_block_row_def row_name_def [symmetric] Let_def) (simp add: bare_file_def)
  then show ?case
    using Cons.IH [OF Cons.prems, of "bs0 @ [b]"] by simp
qed simp

lemma fold_file_rows:
  assumes "row_name f \<notin> fst ` set al"
  shows "fold add_block_row (case bs of [] \<Rightarrow> [(f, None)] | bs \<Rightarrow> map (\<lambda>b. (f, Some b)) bs) al =
    al @ [(row_name f, bare_file f bs [])]"
proof -
  have none: "map_of al (row_name f) = None"
    using assms by (simp add: map_of_eq_None_iff)
  show ?thesis
  proof (cases bs)
    case Nil
    then show ?thesis
      using none assms
      by (simp add: add_block_row_def row_name_def [symmetric] alist_update_new Let_def) (simp add: bare_file_def)
  next
    case (Cons b bs')
    have "add_block_row (f, Some b) al = al @ [(row_name f, bare_file f [b] [])]"
      using none assms
      by (simp add: add_block_row_def row_name_def [symmetric] alist_update_new Let_def) (simp add: bare_file_def)
    with Cons show ?thesis
      using fold_more_blocks [OF assms, where bs = bs' and ?bs0.0 = "[b]"] by simp
  qed
qed

lemma fold_block_rows:
  assumes "distinct (map row_name fs)" and "\<forall>f \<in> set fs. row_name f \<notin> fst ` set al"
  shows "fold add_block_row (concat (map (\<lambda>f. case blk f of [] \<Rightarrow> [(f, None)]
      | bs \<Rightarrow> map (\<lambda>b. (f, Some b)) bs) fs)) al =
    al @ map (\<lambda>f. (row_name f, bare_file f (blk f) [])) fs"
  using assms
proof (induction fs arbitrary: al)
  case (Cons f fs)
  have "\<forall>g \<in> set fs. row_name g \<notin> fst ` set (al @ [(row_name f, bare_file f (blk f) [])])"
    using Cons.prems by (auto simp: image_iff)
  then show ?case
    using Cons.IH [of "al @ [(row_name f, bare_file f (blk f) [])]"] Cons.prems
      fold_file_rows [of f al "blk f"]
    by simp
qed simp

lemma add_version_rows:
  assumes "distinct (map fst al)"
  shows "fold add_version_row (map (\<lambda>c. (n, c)) cs) al =
    map (\<lambda>(m, f). (m, if m = n then fold add_counter cs f else f)) al"
  using assms
proof (induction cs arbitrary: al)
  case (Cons c cs)
  let ?al = "map (\<lambda>(m, f). (m, if m = n then add_counter c f else f)) al"
  have "add_version_row (n, c) al = ?al"
  proof (cases "map_of al n")
    case None
    then have "?al = map (\<lambda>e. e) al"
      by (intro map_cong) (auto simp: map_of_eq_None_iff image_iff)
    with None show ?thesis by (simp add: add_version_row_def)
  next
    case (Some f)
    then have "n \<in> fst ` set al" by (metis map_of_eq_None_iff option.distinct(1))
    then have "AList.update n (add_counter c f) al = map (\<lambda>(m, w). (m, if m = n then add_counter c f else w)) al"
      by (rule alist_update_map [OF Cons.prems])
    also have "\<dots> = ?al"
      using Some Cons.prems by (intro map_cong) (auto dest: eq_key_imp_eq_value)
    finally show ?thesis using Some by (simp add: add_version_row_def)
  qed
  moreover have "map fst ?al = map fst al" by (simp add: comp_def split_beta)
  ultimately show ?case
    using Cons.IH [of ?al] Cons.prems by (auto simp: comp_def split_beta)
next
  case Nil
  have "map (\<lambda>(m, f). (m, if m = n then fold add_counter [] f else f)) al = map (\<lambda>e. e) al"
    by (intro map_cong) auto
  then show ?case by simp
qed

lemma add_counter_bare: "add_counter c (bare_file f bs cs) = bare_file f bs (cs @ [c])"
  by (cases "fr_info f") (simp add: add_counter_def bare_file_def)

lemma fold_add_counter: "fold add_counter cs (bare_file f bs cs0) = bare_file f bs (cs0 @ cs)"
  by (induction cs arbitrary: cs0) (simp_all add: add_counter_bare)

lemma fold_version_rows:
  assumes "distinct (map row_name (fs0 @ fs))"
  shows "fold add_version_row (concat (map (\<lambda>f. map (\<lambda>c. (row_name f, c)) (ctr f)) fs))
      (map (\<lambda>f. (row_name f, bare_file f (blk f) (ctr f))) fs0 @
       map (\<lambda>f. (row_name f, bare_file f (blk f) [])) fs) =
    map (\<lambda>f. (row_name f, bare_file f (blk f) (ctr f))) (fs0 @ fs)"
  using assms
proof (induction fs arbitrary: fs0)
  case (Cons f fs)
  let ?al = "map (\<lambda>f. (row_name f, bare_file f (blk f) (ctr f))) fs0 @
       map (\<lambda>f. (row_name f, bare_file f (blk f) [])) (f # fs)"
  have "map fst ?al = map row_name (fs0 @ f # fs)" by (simp add: comp_def)
  then have "distinct (map fst ?al)" using Cons.prems by (simp only:)
  from add_version_rows [OF this, of "row_name f" "ctr f"]
  have "fold add_version_row (map (\<lambda>c. (row_name f, c)) (ctr f)) ?al =
      map (\<lambda>f. (row_name f, bare_file f (blk f) (ctr f))) (fs0 @ [f]) @
      map (\<lambda>f. (row_name f, bare_file f (blk f) [])) fs"
    using Cons.prems fold_add_counter [of "ctr f" f "blk f" "[]"] by (auto simp: image_iff)
  then show ?case
    using Cons.IH [of "fs0 @ [f]"] Cons.prems by simp
qed simp

lemma folder_rows_distinct: "db_wf d \<Longrightarrow> distinct (map row_name (folder_rows d folder dev))"
proof -
  assume wf: "db_wf d"
  have "distinct (map fr_key (folder_rows d folder dev))"
    using wf by (simp add: db_wf_def folder_rows_def distinct_map_filter)
  moreover have "map fr_key (folder_rows d folder dev) = map (\<lambda>n. (folder, dev, n)) (map row_name (folder_rows d folder dev))"
    using wf by (auto simp: db_wf_def folder_rows_def row_name_def prod_eq_iff)
  ultimately show ?thesis
    by (metis distinct_map)
qed

lemma index_from_db_eq:
  assumes "db_wf d"
  shows "index_from_db d folder dev =
    \<lparr>idx_folder = folder, idx_files = map (stored_file d) (folder_rows d folder dev)\<rparr>"
proof -
  let ?fs = "folder_rows d folder dev"
  note dist = folder_rows_distinct [OF assms, of folder dev]
  have blocks: "fold add_block_row (file_block_rows d folder dev) [] =
      map (\<lambda>f. (row_name f, bare_file f (blocks_of d (fr_key f)) [])) ?fs"
    using fold_block_rows [OF dist, of "[]" "\<lambda>f. blocks_of d (fr_key f)"]
    by (simp add: file_block_rows_def folder_rows_def)
  have "fold add_version_row (file_version_rows d folder dev) (fold add_block_row (file_block_rows d folder dev) []) =
      map (\<lambda>f. (row_name f, bare_file f (blocks_of d (fr_key f)) (counters_of d (fr_key f)))) ?fs"
    unfolding blocks
    using fold_version_rows [of "[]" ?fs "\<lambda>f. counters_of d (fr_key f)" "\<lambda>f. blocks_of d (fr_key f)"] dist
    by (simp add: file_version_rows_def row_name_def folder_rows_def)
  then show ?thesis
    by (simp add: index_from_db_def comp_def) (simp add: bare_file_def stored_file_def)
qed

lemma map_of_find: "map_of (map (\<lambda>x. (g x, h x)) xs) n = map_option h (find (\<lambda>x. g x = n) xs)"
  by (induction xs) auto

lemma find_filter: "(\<And>x. P x \<Longrightarrow> Q x) \<Longrightarrow> find P (filter Q xs) = find P xs"
  by (induction xs) auto

lemma file_named_from_db:
  assumes "db_wf d"
  shows "file_named (index_from_db d folder dev) n = file_at d (folder, dev, n)"
proof -
  let ?fs = "folder_rows d folder dev"
  have keys: "\<forall>f \<in> set ?fs. fr_key f = (folder, dev, row_name f)"
    using assms by (auto simp: db_wf_def folder_rows_def row_name_def prod_eq_iff)
  have name: "fi_name (stored_file d f) = row_name f" for f
    by (simp add: stored_file_def row_name_def)
  have dist: "distinct (map fst (map (\<lambda>f. (row_name f, stored_file d f)) ?fs))"
    using folder_rows_distinct [OF assms, of folder dev] by (simp add: comp_def)
  have "file_named (index_from_db d folder dev) n = map_of (map (\<lambda>f. (row_name f, stored_file d f)) ?fs) n"
    using map_of_rev_distinct [OF dist] by (simp add: file_named_def index_from_db_eq [OF assms] name comp_def)
  also have "\<dots> = map_option (stored_file d) (find (\<lambda>f. row_name f = n) ?fs)"
    by (rule map_of_find)
  also have "find (\<lambda>f. row_name f = n) ?fs = find (\<lambda>f. fr_key f = (folder, dev, n)) ?fs"
    using keys by (intro find_cong) auto
  also have "find (\<lambda>f. fr_key f = (folder, dev, n)) ?fs = find (\<lambda>f. fr_key f = (folder, dev, n)) (db_files d)"
    unfolding folder_rows_def by (rule find_filter) simp
  finally show ?thesis by (simp add: file_at_def)
qed

section \<open>Sequences\<close>

text \<open>The last sequence that was given out, 0 before the first.\<close>

definition last_sequence :: "bep_state \<Rightarrow> int" where
  "last_sequence st =
     (case bs_sequence st of Some s \<Rightarrow> s
      | None \<Rightarrow> (case max_sequence (bs_db st) of Some s \<Rightarrow> s | None \<Rightarrow> 0))"

definition state_wf :: "bep_state \<Rightarrow> bool" where
  "state_wf st \<longleftrightarrow> db_wf (bs_db st) \<and> (\<forall>s \<in> sequences (bs_db st). s \<le> last_sequence st)"

fun numbered :: "int \<Rightarrow> file_info list \<Rightarrow> file_info list" where
  "numbered s [] = []"
| "numbered s (f # fs) = f\<lparr>fi_sequence := s + 1\<rparr> # numbered (s + 1) fs"

lemma fold_max_ge_int: "x \<in> set xs \<Longrightarrow> x \<le> fold max xs (n :: int)" "n \<le> fold max xs n"
proof (induction xs arbitrary: n)
  case (Cons i xs)
  { case 1
    then show ?case using Cons.IH(1) [of "max i n"] Cons.IH(2) [of "max i n"] by auto }
  { case 2
    then show ?case using Cons.IH(2) [of "max i n"] by simp }
qed simp_all

lemma max_sequence_bound: "s \<in> sequences d \<Longrightarrow> \<exists>m. max_sequence d = Some m \<and> s \<le> m"
  by (cases "db_files d") (auto simp: sequences_def max_sequence_def fold_max_ge_int)

lemma state_wf_new [wf_intros]: "db_wf d \<Longrightarrow> state_wf (bep_state_new d)"
  using max_sequence_bound [of _ d]
  by (fastforce simp: state_wf_def last_sequence_def bep_state_new_def split: option.splits)

lemma next_sequence_id_eq:
  "last_sequence st + 1 < 2 ^ 63 \<Longrightarrow>
   next_sequence_id st = Ok (st\<lparr>bs_sequence := Some (last_sequence st + 1)\<rparr>, last_sequence st + 1)"
  by (auto simp: next_sequence_id_def last_sequence_def split: option.splits)

lemma last_sequence_set [simp]: "last_sequence (st\<lparr>bs_sequence := Some s\<rparr>) = s"
  by (simp add: last_sequence_def)

lemma assign_sequences_eq:
  "last_sequence st + int (length fs) < 2 ^ 63 \<Longrightarrow>
   assign_sequences st fs =
     Ok (if fs = [] then st else st\<lparr>bs_sequence := Some (last_sequence st + int (length fs))\<rparr>,
         numbered (last_sequence st) fs)"
proof (induction fs arbitrary: st)
  case (Cons f fs)
  let ?st = "st\<lparr>bs_sequence := Some (last_sequence st + 1)\<rparr>"
  have "next_sequence_id st = Ok (?st, last_sequence st + 1)"
    using Cons.prems by (intro next_sequence_id_eq) simp
  then show ?case
    using Cons.IH [of ?st] Cons.prems by (simp add: algebra_simps)
qed simp

lemma numbered_sequences: "map fi_sequence (numbered s fs) = map (\<lambda>i. s + 1 + int i) [0..<length fs]"
  by (induction fs arbitrary: s) (simp_all add: upt_conv_Cons map_Suc_upt [symmetric] comp_def algebra_simps del: upt_Suc)

lemma numbered_fresh: "f \<in> set (numbered s fs) \<Longrightarrow> s < fi_sequence f \<and> fi_sequence f \<le> s + int (length fs)"
  by (induction fs arbitrary: s) fastforce+

lemma distinct_numbered: "distinct (map fi_sequence (numbered s fs))"
  by (simp add: numbered_sequences distinct_map inj_on_def)

lemma numbered_shape:
  "map (\<lambda>f. f\<lparr>fi_sequence := 0\<rparr>) (numbered s fs) = map (\<lambda>f. f\<lparr>fi_sequence := 0\<rparr>) fs"
  by (induction fs arbitrary: s) auto

lemma numbered_names [simp]: "map fi_name (numbered s fs) = map fi_name fs"
  by (induction fs arbitrary: s) auto

lemma storable_sequence [simp]: "storable (f\<lparr>fi_sequence := s\<rparr>) = storable f"
  by (simp add: storable_def)

lemma numbered_storable: "\<forall>f \<in> set fs. storable f \<Longrightarrow> \<forall>f \<in> set (numbered s fs). storable f"
  by (induction fs arbitrary: s) auto

end
