(* ===== verification/Storage.thy ===== *)
theory Storage
  imports File_Writer Configuration Bep_State
begin

text \<open>
  The storage manager (\<^verbatim>\<open>src/src/storage.rs\<close>): the writers of the files that are being received, the
  copies to and from the remote storage, and the cache of files read through the file system.

  \<^item> \<^verbatim>\<open>rclone\<close> is a program that is run: the argument \<open>rclone\<close> gives the exit status and the output
    of a command, or that it could not be started.
  \<^item> \<open>rd\<close> is the number of bytes that one \<^verbatim>\<open>read\<close> call at a position returns at most.
  \<^item> Paths are strings; whether the directories above a file can be created is decided by the
    argument \<open>os\<close> at the path of the file.
\<close>

section \<open>Definitions\<close>

record storage_manager =
  sm_config :: grizol_config
  sm_storage_backends :: "string list"
  sm_file_writers :: "(string \<times> file_writer) list"

datatype rclone_outcome = NotStarted | Exited int bytes

type_synonym rclone = "string list \<Rightarrow> rclone_outcome"
type_synonym storage = "storage_manager \<times> file_system"

text \<open>\<^verbatim>\<open>std::str::from_utf8\<close> accepts the bytes.\<close>

definition utf8_tail :: "nat \<Rightarrow> bool" where
  "utf8_tail b \<longleftrightarrow> 128 \<le> b \<and> b \<le> 191"

fun valid_utf8 :: "nat list \<Rightarrow> bool" where
  "valid_utf8 [] = True"
| "valid_utf8 (b # bs) =
     (if b < 128 then valid_utf8 bs
      else case bs of [] \<Rightarrow> False | c # bs \<Rightarrow>
        if 194 \<le> b \<and> b \<le> 223 then utf8_tail c \<and> valid_utf8 bs
        else case bs of [] \<Rightarrow> False | d # bs \<Rightarrow>
          if 224 \<le> b \<and> b \<le> 239
          then utf8_tail c \<and> (b = 224 \<longrightarrow> 160 \<le> c) \<and> (b = 237 \<longrightarrow> c \<le> 159) \<and> utf8_tail d \<and> valid_utf8 bs
          else case bs of [] \<Rightarrow> False | e # bs \<Rightarrow>
            240 \<le> b \<and> b \<le> 244 \<and> utf8_tail c \<and> (b = 240 \<longrightarrow> 144 \<le> c) \<and> (b = 244 \<longrightarrow> c \<le> 143) \<and>
            utf8_tail d \<and> utf8_tail e \<and> valid_utf8 bs)"

text \<open>
  The names of the sections of the \<^verbatim>\<open>rclone\<close> configuration, one per line in brackets.  The white space
  of a line is that of ASCII.
\<close>

definition is_whitespace :: "char \<Rightarrow> bool" where
  "is_whitespace c \<longleftrightarrow> of_char c \<in> {9, 10, 11, 12, 13, 32 :: nat}"

definition trim :: "string \<Rightarrow> string" where
  "trim s = rev (dropWhile is_whitespace (rev (dropWhile is_whitespace s)))"

fun split_lines :: "string \<Rightarrow> string \<Rightarrow> string list" where
  "split_lines acc [] = (if acc = [] then [] else [rev acc])"
| "split_lines acc (c # s) = (if of_char c = (10 :: nat) then rev acc # split_lines [] s else split_lines (c # acc) s)"

definition section_name :: "string \<Rightarrow> string option" where
  "section_name x = (if 2 \<le> length x \<and> hd x = CHR ''['' \<and> last x = CHR '']'' then Some (butlast (tl x)) else None)"

definition config_location :: "string option \<Rightarrow> string" where
  "config_location rclone_config = (case rclone_config of Some x \<Rightarrow> ''--config='' @ x | None \<Rightarrow> '''')"

definition storage_backends_from_conf :: "rclone \<Rightarrow> string option \<Rightarrow> (string list, unit) result" where
  "storage_backends_from_conf rclone rclone_config =
     (case rclone [config_location rclone_config, ''config'', ''show''] of
        NotStarted \<Rightarrow> Panic
      | Exited status out \<Rightarrow>
          if \<not> valid_utf8 (map unat out) then Panic
          else Ok (List.map_filter section_name (map trim (split_lines [] (map (\<lambda>b. char_of (unat b)) out)))))"

definition storage_manager_new :: "rclone \<Rightarrow> grizol_config \<Rightarrow> (storage_manager, unit) result" where
  "storage_manager_new rclone config =
     map_ok (\<lambda>bs. \<lparr>sm_config = config, sm_storage_backends = bs, sm_file_writers = []\<rparr>)
       (storage_backends_from_conf rclone (gc_rclone_config config))"

definition rel_path :: "string \<Rightarrow> string \<Rightarrow> string" where
  "rel_path folder name = folder @ ''/'' @ name"

definition local_path :: "storage_manager \<Rightarrow> string \<Rightarrow> string \<Rightarrow> string" where
  "local_path sm folder name = gc_local_base_dir (sm_config sm) @ ''/'' @ rel_path folder name"

definition cache_path :: "storage_manager \<Rightarrow> string \<Rightarrow> string \<Rightarrow> string" where
  "cache_path sm folder name = gc_read_cache_dir (sm_config sm) @ ''/'' @ rel_path folder name"

definition remote_path :: "storage_manager \<Rightarrow> string \<Rightarrow> string \<Rightarrow> string \<Rightarrow> string" where
  "remote_path sm storage_backend folder name =
     storage_backend @ '':'' @ gc_remote_base_dir (sm_config sm) @ ''/'' @ rel_path folder name"

text \<open>\<^verbatim>\<open>Path::parent\<close> is \<open>None\<close> for a path that is only the root.\<close>

fun components :: "string \<Rightarrow> string \<Rightarrow> string list" where
  "components acc [] = [rev acc]"
| "components acc (c # s) = (if c = CHR ''/'' then rev acc # components [] s else components (c # acc) s)"

definition has_parent :: "string \<Rightarrow> bool" where
  "has_parent path \<longleftrightarrow> path \<noteq> [] \<and>
     \<not> (hd path = CHR ''/'' \<and> (\<forall>x \<in> set (components [] path). x = '''' \<or> x = ''.''))"

text \<open>\<^verbatim>\<open>file_writers.entry(key).or_insert(FileWriter::new(..))\<close>; the new writer is always built.\<close>

definition entry_writer ::
    "hasher \<Rightarrow> storage_manager \<Rightarrow> string \<Rightarrow> string \<Rightarrow> nat \<Rightarrow> nat \<Rightarrow> (file_writer, io_error) result" where
  "entry_writer hash sm key path file_size chunk_size =
     map_ok (\<lambda>new. case map_of (sm_file_writers sm) key of Some w \<Rightarrow> w | None \<Rightarrow> new)
       (file_writer_new hash path file_size chunk_size)"

definition put_writer :: "string \<Rightarrow> storage_manager \<Rightarrow> file_writer \<times> file_system \<Rightarrow> storage" where
  "put_writer key sm = (\<lambda>(w, fs). (sm\<lparr>sm_file_writers := AList.update key w (sm_file_writers sm)\<rparr>, fs))"

definition store_block_concurrently ::
    "hasher \<Rightarrow> os \<Rightarrow> storage \<Rightarrow> bytes \<Rightarrow> request \<Rightarrow> nat \<Rightarrow> nat \<Rightarrow> storage \<times> (unit, io_error) result" where
  "store_block_concurrently hash os s data request file_size chunk_size =
     (case s of (sm, fs) \<Rightarrow>
      let file_rel_path = rel_path (req_folder request) (req_name request);
          abs_path = local_path sm (req_folder request) (req_name request)
      in if \<not> has_parent abs_path then (s, Panic)
         else if \<not> os_ok os CreateDir abs_path then (s, Err Os)
         else
           io_then (s, entry_writer hash sm file_rel_path abs_path file_size chunk_size) (\<lambda>s file_writer.
           if req_offset request < 0 then (put_writer file_rel_path sm (file_writer, fs), Panic)
           else apfst (put_writer file_rel_path sm)
                  (write_chunk os data (nat (req_offset request)) (file_writer, fs))))"

definition conclude_block_storage ::
    "hasher \<Rightarrow> os \<Rightarrow> storage \<Rightarrow> request \<Rightarrow> nat \<Rightarrow> nat \<Rightarrow> storage \<times> (unit, io_error) result" where
  "conclude_block_storage hash os s request file_size chunk_size =
     (case s of (sm, fs) \<Rightarrow>
      let file_rel_path = rel_path (req_folder request) (req_name request) in
      io_then (s, entry_writer hash sm file_rel_path file_rel_path file_size chunk_size) (\<lambda>s file_writer.
      apfst (put_writer file_rel_path sm) (consolidate os (file_writer, fs))))"

text \<open>The remote copies.  The exit status of \<^verbatim>\<open>rclone\<close> is not looked at.\<close>

datatype storage_error = CommandFailed | BackendNotFound | NoFilePresent | OpenFailed | ReadFailed

definition run_rclone :: "rclone \<Rightarrow> storage_manager \<Rightarrow> string list \<Rightarrow> (bytes, storage_error) result" where
  "run_rclone rclone sm rclone_command =
     (case rclone (config_location (gc_rclone_config (sm_config sm)) # rclone_command) of
        NotStarted \<Rightarrow> Err CommandFailed | Exited status out \<Rightarrow> Ok out)"

fun cp_remote_loop ::
    "rclone \<Rightarrow> storage_manager \<Rightarrow> string \<Rightarrow> string \<Rightarrow> file_location list \<Rightarrow> file_location list \<Rightarrow>
     (file_location list, storage_error) result" where
  "cp_remote_loop rclone sm folder dest_file_name [] new_file_locations = Ok new_file_locations"
| "cp_remote_loop rclone sm folder dest_file_name (file_location # ls) new_file_locations =
     (let dest = remote_path sm (floc_backend file_location) folder dest_file_name in
      and_then (run_rclone rclone sm [''copyto'', floc_location file_location, dest]) (\<lambda>_.
      cp_remote_loop rclone sm folder dest_file_name ls
        (new_file_locations @ [\<lparr>floc_location = dest, floc_backend = floc_backend file_location\<rparr>])))"

definition cp_remote_to_remote ::
    "rclone \<Rightarrow> storage_manager \<Rightarrow> grizol_file_info \<Rightarrow> string \<Rightarrow> (file_location list, storage_error) result" where
  "cp_remote_to_remote rclone sm file dest_file_name =
     cp_remote_loop rclone sm (gfi_folder file) dest_file_name (gfi_locations file) []"

definition cp_remote_to_read_cache ::
    "rclone \<Rightarrow> storage_manager \<Rightarrow> grizol_file_info \<Rightarrow> file_location list \<Rightarrow> (string, storage_error) result" where
  "cp_remote_to_read_cache rclone sm file file_locations =
     and_then (ok_or (find (\<lambda>x. floc_backend x = ''gcs'') file_locations) BackendNotFound) (\<lambda>file_location.
     let orig = floc_location file_location in
     and_then (run_rclone rclone sm [''ls'', orig]) (\<lambda>out.
     if out = [] then Err NoFilePresent
     else
       let dest = cache_path sm (gfi_folder file) (fi_name (gfi_info file)) in
       and_then (run_rclone rclone sm [''copyto'', orig, dest]) (\<lambda>_. Ok dest)))"

text \<open>
  The loop over the storage backends that \<^verbatim>\<open>cp_local_to_remote\<close>, \<^verbatim>\<open>cp\<close> and \<^verbatim>\<open>rm_remote\<close> share: one
  command per backend, which has to start.
\<close>

fun for_backends ::
    "rclone \<Rightarrow> storage_manager \<Rightarrow> (string \<Rightarrow> string list) \<Rightarrow> (string \<Rightarrow> string) \<Rightarrow> string list \<Rightarrow>
     ((string \<times> string) list, 'e) result" where
  "for_backends rclone sm command path [] = Ok []"
| "for_backends rclone sm command path (b # bs) =
     (case rclone (config_location (gc_rclone_config (sm_config sm)) # command b) of
        NotStarted \<Rightarrow> Panic
      | Exited status out \<Rightarrow> map_ok (\<lambda>res. (b, path b) # res) (for_backends rclone sm command path bs))"

definition cp_local_to_remote ::
    "rclone \<Rightarrow> storage_manager \<Rightarrow> string \<Rightarrow> string \<Rightarrow> ((string \<times> string) list, 'e) result" where
  "cp_local_to_remote rclone sm folder name =
     for_backends rclone sm
       (\<lambda>b. [''copyto'', local_path sm folder name, remote_path sm b folder name])
       (\<lambda>b. remote_path sm b folder name) (sm_storage_backends sm)"

definition storage_cp ::
    "rclone \<Rightarrow> storage_manager \<Rightarrow> string \<Rightarrow> string \<Rightarrow> string \<Rightarrow> string \<Rightarrow> ((string \<times> string) list, 'e) result" where
  "storage_cp rclone sm orig_folder orig_name dest_folder dest_name =
     for_backends rclone sm
       (\<lambda>b. [''copyto'', remote_path sm b orig_folder orig_name, remote_path sm b dest_folder dest_name])
       (\<lambda>b. remote_path sm b dest_folder dest_name) (sm_storage_backends sm)"

definition rm_remote ::
    "rclone \<Rightarrow> storage_manager \<Rightarrow> string \<Rightarrow> string \<Rightarrow> ((string \<times> string) list, 'e) result" where
  "rm_remote rclone sm folder file_name =
     for_backends rclone sm (\<lambda>b. [''delete'', remote_path sm b folder file_name])
       (\<lambda>b. remote_path sm b folder file_name) (sm_storage_backends sm)"

definition rm_local_file ::
    "os \<Rightarrow> storage_manager \<Rightarrow> string \<Rightarrow> string \<Rightarrow> file_system \<Rightarrow> file_system \<times> (unit, io_error) result" where
  "rm_local_file os sm folder name fs = remove_file os (local_path sm folder name) fs"

text \<open>Removing evicted files: every removal is started, and the result is the first error.\<close>

fun free_cached_files ::
    "os \<Rightarrow> storage_manager \<Rightarrow> (string \<times> string) list \<Rightarrow> file_system \<Rightarrow> file_system \<times> (unit, io_error) result" where
  "free_cached_files os sm [] fs = (fs, Ok ())"
| "free_cached_files os sm ((folder, name) # removed_files) fs =
     (case remove_file os (cache_path sm folder name) fs of
        (fs, r) \<Rightarrow> apsnd (\<lambda>r'. and_then r (\<lambda>_. r')) (free_cached_files os sm removed_files fs))"

text \<open>
  Reading from a cached file: the position of the file moves past the bytes read and once more by
  their number, and every call fills the buffer from its beginning.
\<close>

function cached_read_loop ::
    "(nat \<Rightarrow> nat) \<Rightarrow> bytes \<Rightarrow> nat \<Rightarrow> nat \<Rightarrow> bytes \<Rightarrow> nat \<Rightarrow> bytes" where
  "cached_read_loop rd content sz pos buffer total_read_bytes =
     (if total_read_bytes < sz then
        let read_bytes = min sz (min (length content - pos) (max 1 (rd pos))) in
        if read_bytes = 0 then buffer
        else cached_read_loop rd content sz (pos + read_bytes + read_bytes)
               (take read_bytes (drop pos content) @ drop read_bytes buffer) (total_read_bytes + read_bytes)
      else buffer)"
  by pat_completeness auto
termination by (relation "measure (\<lambda>(rd, content, sz, pos, buffer, n). sz - n)") (auto simp: Let_def)

declare cached_read_loop.simps [simp del]

definition read_cached ::
    "os \<Rightarrow> (nat \<Rightarrow> nat) \<Rightarrow> storage_manager \<Rightarrow> file_system \<Rightarrow> grizol_file_info \<Rightarrow> int \<Rightarrow> nat \<Rightarrow>
     (bytes, storage_error) result" where
  "read_cached os rd sm fs file base_offset sz =
     (let file_path = cache_path sm (gfi_folder file) (fi_name (gfi_info file)) in
      if \<not> os_ok os OpenRead file_path then Err OpenFailed
      else case fs file_path of
             None \<Rightarrow> Err OpenFailed
           | Some content \<Rightarrow>
               if base_offset < 0 then Panic
               else if sz \<noteq> 0 \<and> \<not> os_ok os ReadData file_path then Err ReadFailed
               else Ok (cached_read_loop rd content sz (nat base_offset) (replicate sz 0) 0))"

section \<open>Blocks\<close>

text \<open>Storing a block that fits, for a file whose writer is idle or not there yet.\<close>

definition writer_for :: "hasher \<Rightarrow> storage_manager \<Rightarrow> request \<Rightarrow> nat \<Rightarrow> nat \<Rightarrow> file_writer \<Rightarrow> bool" where
  "writer_for hash sm r file_size chunk_size w \<longleftrightarrow>
     file_writer_new hash (local_path sm (req_folder r) (req_name r)) file_size chunk_size =
       (Ok w :: (file_writer, io_error) result) \<and>
     map_of (sm_file_writers sm) (rel_path (req_folder r) (req_name r)) \<in> {None, Some w}"

lemma store_block_works:
  assumes "writer_for hash sm r file_size chunk_size w" and "has_parent (local_path sm (req_folder r) (req_name r))"
    and "0 \<le> req_offset r" and "check_chunk w data (nat (req_offset r)) = Ok ()"
  shows "store_block_concurrently hash os_works (sm, fs) data r file_size chunk_size =
    ((sm\<lparr>sm_file_writers := AList.update (rel_path (req_folder r) (req_name r)) w (sm_file_writers sm)\<rparr>,
      fs(chunk_path w (nat (req_offset r) div chunk_size) \<mapsto> data)), Ok ())"
proof -
  have idle: "writer_idle w" and c: "fw_chunk_size w = chunk_size"
    using assms(1) by (auto simp: writer_for_def file_writer_new_def Let_def split: if_splits
        intro!: file_writer_new_idle)
  have "entry_writer hash sm (rel_path (req_folder r) (req_name r)) (local_path sm (req_folder r) (req_name r))
      file_size chunk_size = Ok w"
    using assms(1) by (auto simp: writer_for_def entry_writer_def)
  then show ?thesis
    using assms(2,3) write_chunk_idle [OF idle assms(4), of fs] c
    by (simp add: store_block_concurrently_def os_works_def put_writer_def Let_def)
qed

section \<open>Reading from the cache\<close>

lemma cached_read_step:
  assumes "k < sz" and "min sz (min (length content - pos) (max 1 (rd pos))) \<noteq> 0"
  shows "cached_read_loop rd content sz pos buffer k =
    (let n = min sz (min (length content - pos) (max 1 (rd pos))) in
     cached_read_loop rd content sz (pos + n + n) (take n (drop pos content) @ drop n buffer) (k + n))"
  using assms by (subst cached_read_loop.simps) (simp only: Let_def if_True if_False)

lemma cached_read_stop:
  assumes "sz \<le> k \<or> length content \<le> pos"
  shows "cached_read_loop rd content sz pos buffer k = buffer"
  using assms by (subst cached_read_loop.simps) (auto simp: Let_def)

lemma cached_read_loop_whole:
  assumes "\<And>p. sz \<le> rd p"
  shows "cached_read_loop rd content sz pos (replicate sz 0) 0 =
    take sz (drop pos content) @ replicate (sz - length (take sz (drop pos content))) 0"
proof (cases "sz = 0 \<or> length content \<le> pos")
  case True
  then show ?thesis by (auto simp: cached_read_stop)
next
  case False
  define n where "n = min sz (length content - pos)"
  have n: "min sz (min (length content - pos) (max 1 (rd pos))) = n" "n \<noteq> 0" "0 < sz" "n \<le> sz"
    using False assms [of pos] by (auto simp: n_def)
  let ?b = "take n (drop pos content) @ drop n (replicate sz 0)"
  have "cached_read_loop rd content sz pos (replicate sz 0) 0 = cached_read_loop rd content sz (pos + n + n) ?b n"
    using cached_read_step [OF n(3), of content pos rd "replicate sz 0"] n(2) unfolding n(1) by (simp add: Let_def)
  also have "\<dots> = ?b"
    by (rule cached_read_stop) (auto simp: n_def)
  also have "\<dots> = take sz (drop pos content) @ replicate (sz - length (take sz (drop pos content))) 0"
    by (auto simp: n_def min_def)
  finally show ?thesis .
qed

lemma for_backends_Ok:
  assumes "\<forall>b \<in> set bs. \<exists>st out. rclone (config_location (gc_rclone_config (sm_config sm)) # command b) = Exited st out"
  shows "for_backends rclone sm command path bs = Ok (map (\<lambda>b. (b, path b)) bs)"
  using assms by (induction bs) (auto split: rclone_outcome.splits)

section \<open>Properties\<close>

definition sample_config :: grizol_config where
  "sample_config = \<lparr>gc_local_device_id = sample_device, gc_name = ''g'', gc_trusted_peers = [],
     gc_local_base_dir = ''/b'', gc_net_address = ''0.0.0.0:23456'', gc_db_url = ''d'', gc_storage_strategy = Remote,
     gc_rclone_config = None, gc_remote_base_dir = ''r'', gc_read_cache_dir = ''/c'', gc_read_cache_size = 100,
     gc_mountpoint = None, gc_fuse_refresh_rate_ms = 0, gc_uid = 0, gc_gid = 0, gc_max_pending_requests = 10,
     gc_max_total_pending_requests_size = 1000, gc_fuse_inmem = False\<rparr>"

definition sample_manager :: storage_manager where
  "sample_manager = \<lparr>sm_config = sample_config, sm_storage_backends = [''gcs''], sm_file_writers = []\<rparr>"

lemma sample_paths:
  "local_path sample_manager ''f'' ''a'' = ''/b/f/a''" "cache_path sample_manager ''f'' ''a'' = ''/c/f/a''"
  "rel_path ''f'' ''a'' = ''f/a''"
  by (simp_all add: local_path_def cache_path_def rel_path_def sample_manager_def sample_config_def)

lemma sample_has_parent: "has_parent ''/b/f/a''"
  by (simp add: has_parent_def)

text \<open>
  Reading from a cached file gives the bytes at the position, padded with zeros after the
  end of the file, whenever a read call returns as many bytes as there are and fit.
\<close>

lemma read_cached_correct:
  assumes "fs (cache_path sm (gfi_folder file) (fi_name (gfi_info file))) = Some content" and "0 \<le> off"
    and "\<And>p. sz \<le> rd p"
  shows "read_cached os_works rd sm fs file off sz =
    Ok (take sz (drop (nat off) content) @ replicate (sz - length (take sz (drop (nat off) content))) 0)"
  using assms(1,2) cached_read_loop_whole [where content = content and pos = "nat off", OF assms(3)]
  by (simp add: read_cached_def os_works_def)

definition sample_grizol_file :: grizol_file_info where
  "sample_grizol_file = \<lparr>gfi_info = sample_file, gfi_id = 1, gfi_locations = [], gfi_folder = ''f''\<rparr>"

lemma read_cached_correct_witness:
  "read_cached os_works (\<lambda>_. 4) sample_manager [''/c/f/a'' \<mapsto> [1, 2, 3, 4, 5, 6]] sample_grizol_file 3 4 =
     Ok [4, 5, 6, 0]"
  using read_cached_correct [of "[''/c/f/a'' \<mapsto> [1, 2, 3, 4, 5, 6]]" sample_manager sample_grizol_file
      "[1, 2, 3, 4, 5, 6]" 3 4 "\<lambda>_. 4"]
  by (simp add: sample_paths sample_grizol_file_def sample_file_def)

text \<open>With shorter reads the buffer is overwritten from its beginning and bytes are skipped.\<close>

lemma read_cached_short_reads:
  "cached_read_loop (\<lambda>_. 2) [1, 2, 3, 4, 5, 6] 4 0 [0, 0, 0, 0] 0 = [5, 6, 0, 0]"
  by (simp add: cached_read_loop.simps numeral_eq_Suc)

text \<open>
  Claim C36. The writer of a file is kept for the life of the program with the size the file had
  first: a block of a newer and larger version that lies behind the old end is refused.
\<close>

theorem newer_version_refused:
  assumes "map_of (sm_file_writers sm) (rel_path (req_folder r) (req_name r)) = Some w"
    and "fw_file_size w \<le> nat (req_offset r)" and "0 < req_offset r" and "req_offset r < int file_size"
    and "0 < chunk_size" and "file_size + chunk_size < 2 ^ 64"
    and "has_parent (local_path sm (req_folder r) (req_name r))"
  shows "\<exists>sm'. store_block_concurrently hash os_works (sm, fs) data r file_size chunk_size =
    ((sm', fs), Err InvalidData)"
proof -
  have "entry_writer hash sm (rel_path (req_folder r) (req_name r)) (local_path sm (req_folder r) (req_name r))
      file_size chunk_size = Ok w"
    using assms(1,5,6) by (simp add: entry_writer_def file_writer_new_def Let_def)
  moreover have "check_chunk w data (nat (req_offset r)) = Err InvalidData"
    using assms(2) by (simp add: check_chunk_def)
  ultimately show ?thesis
    using assms(3,7)
    by (simp add: store_block_concurrently_def os_works_def put_writer_def Let_def write_chunk_def)
qed

theorem newer_version_refused_witness:
  "\<exists>sm'. store_block_concurrently (\<lambda>_ _ _. 0) os_works
     (sample_manager\<lparr>sm_file_writers := [(''f/a'', sample_writer)]\<rparr>, Map.empty) [1, 2]
     (small_request\<lparr>req_offset := 6\<rparr>) 8 2 = ((sm', Map.empty), Err InvalidData)"
  by (rule newer_version_refused [where w = sample_writer])
     (simp_all add: small_request_def sample_writer_def local_path_def rel_path_def sample_manager_def
       sample_config_def has_parent_def)



end
