(* ===== verification/Bep_Data_Parser.thy ===== *)
theory Bep_Data_Parser
  imports Bep_Messages
begin

text \<open>
  The incremental parser of a connection (\<^verbatim>\<open>src/src/core/bep_data_parser.rs\<close>).  The bytes
  of a connection arrive in buffers cut at arbitrary places; the parser collects them into a
  Hello message and then into frames (header length, header, message length, message).

  \<^item> The state is \<open>bep_data_parser\<close> with the message under construction.
  \<^item> \<open>parse_iteration\<close> is the body of the loop of \<^verbatim>\<open>parse_incoming_data\<close>; the variable
    \<^verbatim>\<open>processed_bytes\<close> is represented by the rest of the buffer.
  \<^item> The loop itself is a \<open>partial_function\<close>: \<open>None\<close> would be a loop that never returns.
    \<open>parse_loop_total\<close> shows that it always returns from a well-formed state.
  \<^item> A failed \<^verbatim>\<open>unwrap\<close>, an out-of-range slice or an underflow of \<^verbatim>\<open>usize\<close> is \<open>Panic\<close>.
\<close>

section \<open>Definitions\<close>

definition MAGIC_NUMBER :: bytes where
  "MAGIC_NUMBER = [0x2e, 0xa7, 0xd9, 0x0b]"

definition HELLO_LEN_START :: nat where [simp]: "HELLO_LEN_START = 4"
definition HELLO_START :: nat where [simp]: "HELLO_START = 6"
definition HEADER_START :: nat where [simp]: "HEADER_START = 2"

datatype parse_error =
    NoIncomingMessageYet | NotEnoughHeaderLenData | NotEnoughHeaderData | NoMagicHello | Generic

datatype incoming_message_status = Incomplete | Complete

datatype bep_auth_status = PreHello | PostHello

record incoming_message =
  im_auth_status :: bep_auth_status
  im_data :: bytes
  im_header :: "header option"

definition incoming_message_new :: "bep_auth_status \<Rightarrow> incoming_message" where
  "incoming_message_new auth_status =
     \<lparr>im_auth_status = auth_status, im_data = [], im_header = None\<rparr>"

definition total_byte_len :: "incoming_message \<Rightarrow> nat" where
  "total_byte_len im = length (im_data im)"

definition message_start_pos :: "incoming_message \<Rightarrow> (nat option, parse_error) result" where
  "message_start_pos im =
     and_then (slice (im_data im) 0 HEADER_START) (\<lambda>b.
     let header_byte_len = from_be_bytes b;
         message_len_start = HEADER_START + header_byte_len;
         message_start = message_len_start + 4
     in Ok (Some message_start))"

definition message_byte_len :: "incoming_message \<Rightarrow> (nat option, parse_error) result" where
  "message_byte_len im =
     (case im_auth_status im of
        PreHello \<Rightarrow>
          if HELLO_START \<le> length (im_data im)
          then map_ok (\<lambda>b. Some (from_be_bytes b)) (slice (im_data im) HELLO_LEN_START HELLO_START)
          else Ok None
      | PostHello \<Rightarrow>
          if im_header im = None then Ok None
          else
            and_then (slice (im_data im) 0 HEADER_START) (\<lambda>b.
            let message_len_start = HEADER_START + from_be_bytes b;
                message_start = message_len_start + 4
            in if message_start \<le> length (im_data im)
               then map_ok (\<lambda>b. Some (from_be_bytes b))
                      (slice (im_data im) message_len_start message_start)
               else Ok None))"

definition missing_message_bytes :: "incoming_message \<Rightarrow> (nat option, parse_error) result" where
  "missing_message_bytes im =
     (case im_auth_status im of
        PreHello \<Rightarrow>
          and_then (message_byte_len im) (\<lambda>mbl. case mbl of None \<Rightarrow> Ok None
            | Some mbl \<Rightarrow> map_ok Some (checked_sub (mbl + HELLO_START) (length (im_data im))))
      | PostHello \<Rightarrow>
          and_then (message_start_pos im) (\<lambda>pos. case pos of None \<Rightarrow> Ok None
            | Some pos \<Rightarrow>
                and_then (message_byte_len im) (\<lambda>mbl. case mbl of None \<Rightarrow> Ok None
                  | Some mbl \<Rightarrow> map_ok Some (checked_sub (mbl + pos) (length (im_data im))))))"

definition im_status :: "incoming_message \<Rightarrow> (incoming_message_status, parse_error) result" where
  "im_status im =
     (case im_auth_status im of
        PreHello \<Rightarrow>
          map_ok (\<lambda>mbl. case mbl of None \<Rightarrow> Incomplete
              | Some mbl \<Rightarrow> if length (im_data im) = HELLO_START + mbl then Complete else Incomplete)
            (message_byte_len im)
      | PostHello \<Rightarrow>
          if im_header im = None then Ok Incomplete
          else map_ok (\<lambda>m. if m = Some 0 then Complete else Incomplete) (missing_message_bytes im))"

definition header_byte_len :: "incoming_message \<Rightarrow> (nat option, parse_error) result" where
  "header_byte_len im =
     (if length (im_data im) < HEADER_START then Ok None
      else map_ok (\<lambda>b. Some (from_be_bytes b)) (slice (im_data im) 0 HEADER_START))"

definition missing_header_bytes :: "incoming_message \<Rightarrow> (nat option, parse_error) result" where
  "missing_header_bytes im =
     and_then (header_byte_len im) (\<lambda>hbl. case hbl of None \<Rightarrow> Ok None
       | Some hbl \<Rightarrow> map_ok Some (checked_sub (HEADER_START + hbl) (total_byte_len im)))"

definition try_parse_header :: "codec \<Rightarrow> bytes \<Rightarrow> (header, parse_error) result" where
  "try_parse_header cdc buf =
     (if length buf < HEADER_START then Err NotEnoughHeaderLenData
      else
        and_then (slice buf 0 HEADER_START) (\<lambda>b.
        let header_byte_len = from_be_bytes b;
            header_end = HEADER_START + header_byte_len
        in if length buf < header_end then Err NotEnoughHeaderData
           else and_then (slice buf HEADER_START header_end)
                  (\<lambda>b. unwrap_opt (header_decode cdc b))))"

definition add_data ::
    "codec \<Rightarrow> incoming_message \<Rightarrow> bytes \<Rightarrow> (incoming_message, parse_error) result" where
  "add_data cdc im buf =
     (let im = im\<lparr>im_data := im_data im @ buf\<rparr> in
      case im_auth_status im of
        PreHello \<Rightarrow> Ok im
      | PostHello \<Rightarrow>
          if im_header im = None
          then (case try_parse_header cdc (im_data im) of
                  Ok header \<Rightarrow> Ok (im\<lparr>im_header := Some header\<rparr>)
                | Err e \<Rightarrow> Ok im
                | Panic \<Rightarrow> Panic)
          else Ok im)"

definition starts_with_magic_number :: "bytes \<Rightarrow> bool" where
  "starts_with_magic_number buf \<longleftrightarrow>
     HELLO_LEN_START \<le> length buf \<and> take HELLO_LEN_START buf = MAGIC_NUMBER"

definition decode_hello :: "codec \<Rightarrow> bytes \<Rightarrow> (complete_message, parse_error) result" where
  "decode_hello cdc buf =
     (if \<not> starts_with_magic_number buf then Err NoMagicHello
      else
        and_then (slice buf HELLO_LEN_START HELLO_START) (\<lambda>b.
        let message_byte_size = from_be_bytes b in
        and_then (slice buf HELLO_START (HELLO_START + message_byte_size)) (\<lambda>b.
        map_ok Hello (unwrap_opt (hello_decode cdc b)))))"

text \<open>The dispatch on the message type; a decoder that fails gives \<^verbatim>\<open>ParseError::Generic\<close>.\<close>

definition decode_body ::
    "codec \<Rightarrow> message_type \<Rightarrow> bytes \<Rightarrow> (complete_message, parse_error) result" where
  "decode_body cdc t raw_msg =
     ok_or (case t of
         MT_ClusterConfig \<Rightarrow> map_option ClusterConfig (cluster_config_decode cdc raw_msg)
       | MT_Index \<Rightarrow> map_option Index (index_decode cdc raw_msg)
       | MT_IndexUpdate \<Rightarrow> map_option IndexUpdate (index_update_decode cdc raw_msg)
       | MT_Request \<Rightarrow> map_option Request (request_decode cdc raw_msg)
       | MT_Response \<Rightarrow> map_option Response (response_decode cdc raw_msg)
       | MT_DownloadProgress \<Rightarrow>
           map_option DownloadProgress (download_progress_decode cdc raw_msg)
       | MT_Ping \<Rightarrow> map_option (\<lambda>_. Ping) (ping_decode cdc raw_msg)
       | MT_Close \<Rightarrow> map_option Close (close_decode cdc raw_msg)) Generic"

definition decode_post_hello_message ::
    "codec \<Rightarrow> incoming_message \<Rightarrow> (complete_message, parse_error) result" where
  "decode_post_hello_message cdc im =
     and_then (message_start_pos im) (\<lambda>pos.
     and_then (unwrap_opt pos) (\<lambda>message_start_pos.
     and_then (unwrap_opt (im_header im)) (\<lambda>header.
     and_then
       (if message_compression_try_from (hdr_compression header) = Some Lz4
        then
          and_then (slice (im_data im) message_start_pos (message_start_pos + 4)) (\<lambda>b.
          unwrap_opt (lz4_decompress cdc (drop (message_start_pos + 4) (im_data im))
            (from_be_bytes b)))
        else slice (im_data im) message_start_pos (length (im_data im))) (\<lambda>raw_msg.
     and_then (unwrap_opt (message_type_try_from (hdr_type header))) (\<lambda>t.
     decode_body cdc t raw_msg)))))"

definition complete_message_try_from ::
    "codec \<Rightarrow> incoming_message \<Rightarrow> (complete_message, parse_error) result" where
  "complete_message_try_from cdc im =
     (case im_auth_status im of
        PreHello \<Rightarrow> decode_hello cdc (im_data im)
      | PostHello \<Rightarrow> decode_post_hello_message cdc im)"

record bep_data_parser =
  bep_auth :: bep_auth_status
  incoming :: "incoming_message option"

definition bep_data_parser_new :: bep_data_parser where
  "bep_data_parser_new = \<lparr>bep_auth = PreHello, incoming = None\<rparr>"

text \<open>The three \<^verbatim>\<open>populate_*\<close> methods return the number of bytes taken and the message.\<close>

definition populate_hello ::
    "codec \<Rightarrow> bep_data_parser \<Rightarrow> bytes \<Rightarrow> (nat \<times> incoming_message option, parse_error) result" where
  "populate_hello cdc p buf =
     (case incoming p of
        Some im \<Rightarrow>
          and_then (assert_that (1 \<le> total_byte_len im)) (\<lambda>_.
          if total_byte_len im < HELLO_START
          then
            let available_for_hello = min (length buf) (HELLO_START - total_byte_len im) in
            and_then (slice buf 0 available_for_hello) (\<lambda>b.
            map_ok (\<lambda>im. (available_for_hello, Some im)) (add_data cdc im b))
          else
            and_then (missing_message_bytes im) (\<lambda>m.
            if 0 < (case m of None \<Rightarrow> 0 | Some k \<Rightarrow> k)
            then
              and_then (unwrap_opt m) (\<lambda>k.
              let available_for_hello = min (length buf) k in
              and_then (slice buf 0 available_for_hello) (\<lambda>b.
              map_ok (\<lambda>im. (available_for_hello, Some im)) (add_data cdc im b)))
            else Ok (0, Some im)))
      | None \<Rightarrow>
          let available_for_hello = min (length buf) HELLO_START in
          if 0 < available_for_hello
          then
            and_then (slice buf 0 available_for_hello) (\<lambda>b.
            map_ok (\<lambda>im. (available_for_hello, Some im))
              (add_data cdc (incoming_message_new (bep_auth p)) b))
          else Ok (0, None))"

definition populate_header ::
    "codec \<Rightarrow> bep_data_parser \<Rightarrow> bytes \<Rightarrow> (nat \<times> incoming_message option, parse_error) result" where
  "populate_header cdc p buf =
     (case incoming p of
        Some im \<Rightarrow>
          and_then (assert_that (1 \<le> total_byte_len im)) (\<lambda>_.
          if total_byte_len im < HEADER_START
          then
            and_then (slice buf 0 1) (\<lambda>b. map_ok (\<lambda>im. (1, Some im)) (add_data cdc im b))
          else
            and_then (missing_header_bytes im) (\<lambda>m.
            and_then (unwrap_opt m) (\<lambda>k.
            let available_for_header = min (length buf) k in
            and_then (slice buf 0 available_for_header) (\<lambda>b.
            map_ok (\<lambda>im. (available_for_header, Some im)) (add_data cdc im b)))))
      | None \<Rightarrow>
          let available_for_header = min (length buf) 2 in
          if 0 < available_for_header
          then
            and_then (slice buf 0 available_for_header) (\<lambda>b.
            map_ok (\<lambda>im. (available_for_header, Some im))
              (add_data cdc (incoming_message_new (bep_auth p)) b))
          else Ok (0, None))"

definition populate_message ::
    "codec \<Rightarrow> bep_data_parser \<Rightarrow> bytes \<Rightarrow> (nat \<times> incoming_message option, parse_error) result" where
  "populate_message cdc p buf =
     (case incoming p of
        None \<Rightarrow> Panic
      | Some im \<Rightarrow>
          and_then (missing_message_bytes im) (\<lambda>m.
          case m of
            Some missing \<Rightarrow>
              let available_bytes = min missing (length buf) in
              and_then (slice buf 0 available_bytes) (\<lambda>b.
              map_ok (\<lambda>im. (available_bytes, Some im)) (add_data cdc im b))
          | None \<Rightarrow>
              and_then (slice (im_data im) 0 HEADER_START) (\<lambda>b.
              let message_len_start = HEADER_START + from_be_bytes b;
                  message_start = message_len_start + 4
              in
              and_then (checked_sub message_start (length (im_data im))) (\<lambda>missing.
              let available_bytes = min missing (length buf) in
              and_then (slice buf 0 available_bytes) (\<lambda>b.
              map_ok (\<lambda>im. (available_bytes, Some im)) (add_data cdc im b))))))"

text \<open>The dispatch at the top of the loop body of \<^verbatim>\<open>parse_incoming_data\<close>.\<close>

definition populate ::
    "codec \<Rightarrow> bep_data_parser \<Rightarrow> bytes \<Rightarrow> (nat \<times> incoming_message option, parse_error) result" where
  "populate cdc p rest =
     (case bep_auth p of
        PreHello \<Rightarrow> populate_hello cdc p rest
      | PostHello \<Rightarrow>
          if Option.bind (incoming p) im_header = None
          then populate_header cdc p rest
          else populate_message cdc p rest)"

text \<open>
  The rest of the loop body: when the message is complete it is decoded and the parser moves
  to \<open>PostHello\<close>; an error leaves the message in place and ends the function.
\<close>

definition conclude_iteration ::
    "codec \<Rightarrow> bep_data_parser \<Rightarrow>
     (bep_data_parser \<times> complete_message option, bep_data_parser \<times> parse_error) result" where
  "conclude_iteration cdc p =
     (case incoming p of
        None \<Rightarrow> Ok (p, None)
      | Some im \<Rightarrow>
          (case im_status im of
             Ok Complete \<Rightarrow>
               (let p' = p\<lparr>bep_auth := PostHello\<rparr> in
                case complete_message_try_from cdc im of
                  Ok cm \<Rightarrow> Ok (p'\<lparr>incoming := None\<rparr>, Some cm)
                | Err e \<Rightarrow> if e = NoIncomingMessageYet then Ok (p', None) else Err (p', e)
                | Panic \<Rightarrow> Panic)
           | Ok Incomplete \<Rightarrow> Ok (p, None)
           | _ \<Rightarrow> Panic))"

definition parse_iteration ::
    "codec \<Rightarrow> bep_data_parser \<Rightarrow> bytes \<Rightarrow>
     (nat \<times> bep_data_parser \<times> complete_message option, bep_data_parser \<times> parse_error) result" where
  "parse_iteration cdc p rest =
     (case populate cdc p rest of
        Ok (n, im) \<Rightarrow> map_ok (\<lambda>r. (n, r)) (conclude_iteration cdc (p\<lparr>incoming := im\<rparr>))
      | Err e \<Rightarrow> Err (p, e)
      | Panic \<Rightarrow> Panic)"

type_synonym parse_outcome =
  "(bep_data_parser \<times> complete_message list, bep_data_parser \<times> parse_error) result option"

partial_function (option) parse_loop ::
    "codec \<Rightarrow> bep_data_parser \<Rightarrow> bytes \<Rightarrow> complete_message list \<Rightarrow> parse_outcome" where
  "parse_loop cdc p rest res =
     (if rest = [] then Some (Ok (p, res))
      else case parse_iteration cdc p rest of
             Ok (n, p', cm) \<Rightarrow>
               parse_loop cdc p' (drop n rest) (case cm of None \<Rightarrow> res | Some m \<Rightarrow> res @ [m])
           | Err err \<Rightarrow> Some (Err err)
           | Panic \<Rightarrow> Some Panic)"

definition parse_incoming_data :: "codec \<Rightarrow> bep_data_parser \<Rightarrow> bytes \<Rightarrow> parse_outcome" where
  "parse_incoming_data cdc p buf = parse_loop cdc p buf []"

section \<open>Well-formed states\<close>

definition hello_len :: "bytes \<Rightarrow> nat" where
  "hello_len d = from_be_bytes (take 2 (drop 4 d))"

definition hdr_len :: "bytes \<Rightarrow> nat" where
  "hdr_len d = from_be_bytes (take 2 d)"

definition msg_start :: "bytes \<Rightarrow> nat" where
  "msg_start d = 6 + hdr_len d"

definition msg_len :: "bytes \<Rightarrow> nat" where
  "msg_len d = from_be_bytes (take 4 (drop (2 + hdr_len d) d))"

definition chunk_target :: "incoming_message \<Rightarrow> nat" where
  "chunk_target im =
     (let d = im_data im in
      case im_auth_status im of
        PreHello \<Rightarrow> if length d < 6 then 6 else 6 + hello_len d
      | PostHello \<Rightarrow>
          (case im_header im of
             None \<Rightarrow> if length d < 2 then 2 else 2 + hdr_len d
           | Some _ \<Rightarrow>
               if length d < msg_start d then msg_start d else msg_start d + msg_len d))"

definition im_wf :: "incoming_message \<Rightarrow> bool" where
  "im_wf im \<longleftrightarrow>
     length (im_data im) < chunk_target im \<and>
     (case im_auth_status im of
        PreHello \<Rightarrow> im_header im = None
      | PostHello \<Rightarrow> im_header im \<noteq> None \<longrightarrow> 2 + hdr_len (im_data im) \<le> length (im_data im))"

definition im_of :: "bep_data_parser \<Rightarrow> incoming_message" where
  "im_of p = (case incoming p of None \<Rightarrow> incoming_message_new (bep_auth p) | Some im \<Rightarrow> im)"

definition next_chunk :: "bep_data_parser \<Rightarrow> nat" where
  "next_chunk p = chunk_target (im_of p) - length (im_data (im_of p))"

definition parser_wf :: "bep_data_parser \<Rightarrow> bool" where
  "parser_wf p \<longleftrightarrow>
     im_wf (im_of p) \<and> im_auth_status (im_of p) = bep_auth p \<and>
     (incoming p \<noteq> None \<longrightarrow> im_data (im_of p) \<noteq> [])"

lemmas layout_defs = hello_len_def hdr_len_def msg_start_def msg_len_def

lemma hello_len_append: "6 \<le> length d \<Longrightarrow> hello_len (d @ bs) = hello_len d"
  by (simp add: hello_len_def)

lemma hdr_len_append: "2 \<le> length d \<Longrightarrow> hdr_len (d @ bs) = hdr_len d"
  by (simp add: hdr_len_def)

lemma msg_start_append: "2 \<le> length d \<Longrightarrow> msg_start (d @ bs) = msg_start d"
  by (simp add: msg_start_def hdr_len_append)

lemma msg_len_append: "msg_start d \<le> length d \<Longrightarrow> msg_len (d @ bs) = msg_len d"
  by (simp add: msg_len_def msg_start_def hdr_len_append)

lemmas layout_append = hello_len_append hdr_len_append msg_start_append msg_len_append

lemma parser_wf_new [wf_intros]: "parser_wf (p\<lparr>incoming := None\<rparr>)"
  by (cases "bep_auth p")
     (simp_all add: parser_wf_def im_of_def im_wf_def incoming_message_new_def chunk_target_def)

lemma parser_wf_initial [wf_intros]: "parser_wf bep_data_parser_new"
  using parser_wf_new [of bep_data_parser_new] by (simp add: bep_data_parser_new_def)

lemma next_chunk_pos: "parser_wf p \<Longrightarrow> 0 < next_chunk p"
  by (simp add: parser_wf_def im_wf_def next_chunk_def)

subsection \<open>The length fields of a message\<close>

lemma message_byte_len_PreHello:
  "im_auth_status im = PreHello \<Longrightarrow>
   message_byte_len im =
     Ok (if length (im_data im) < 6 then None else Some (hello_len (im_data im)))"
  by (simp add: message_byte_len_def slice_def hello_len_def)

lemma message_start_pos_eq:
  "2 \<le> length (im_data im) \<Longrightarrow> message_start_pos im = Ok (Some (msg_start (im_data im)))"
  by (simp add: message_start_pos_def slice_def layout_defs)

lemma message_byte_len_PostHello:
  "im_auth_status im = PostHello \<Longrightarrow> im_header im \<noteq> None \<Longrightarrow> 2 \<le> length (im_data im) \<Longrightarrow>
   message_byte_len im =
     Ok (if length (im_data im) < msg_start (im_data im) then None
         else Some (msg_len (im_data im)))"
  by (simp add: message_byte_len_def slice_def layout_defs)

lemma missing_message_bytes_PreHello:
  assumes "im_auth_status im = PreHello" and "6 \<le> length (im_data im)"
    and "length (im_data im) \<le> 6 + hello_len (im_data im)"
  shows "missing_message_bytes im = Ok (Some (6 + hello_len (im_data im) - length (im_data im)))"
  using assms by (simp add: missing_message_bytes_def message_byte_len_PreHello add.commute)

lemma missing_message_bytes_PostHello:
  assumes "im_auth_status im = PostHello" and "im_header im \<noteq> None" and "2 \<le> length (im_data im)"
    and "length (im_data im) \<le> msg_start (im_data im) + msg_len (im_data im)
       \<or> length (im_data im) < msg_start (im_data im)"
  shows "missing_message_bytes im =
    Ok (if length (im_data im) < msg_start (im_data im) then None
        else Some (msg_start (im_data im) + msg_len (im_data im) - length (im_data im)))"
  using assms
  by (auto simp: missing_message_bytes_def message_byte_len_PostHello message_start_pos_eq add.commute)

lemmas missing_bytes = missing_message_bytes_PreHello missing_message_bytes_PostHello

text \<open>A well-formed message is never complete: its bytes stop short of the next milestone.\<close>

lemma im_status_wf:
  assumes "im_wf im"
  shows "im_status im = Ok Incomplete"
proof (cases "im_auth_status im")
  case PreHello
  then show ?thesis
    using assms
    by (simp add: im_wf_def im_status_def chunk_target_def message_byte_len_PreHello Let_def
        split: if_splits)
next
  case PostHello
  show ?thesis
  proof (cases "im_header im")
    case (Some h)
    then have "2 + hdr_len (im_data im) \<le> length (im_data im)"
      and "length (im_data im) < chunk_target im"
      using assms PostHello by (simp_all add: im_wf_def)
    then have "missing_message_bytes im =
        Ok (if length (im_data im) < msg_start (im_data im) then None
            else Some (msg_start (im_data im) + msg_len (im_data im) - length (im_data im)))"
      and "length (im_data im) < msg_start (im_data im) + msg_len (im_data im)"
      using PostHello Some
      by (auto simp: missing_message_bytes_PostHello chunk_target_def Let_def split: if_splits)
    then show ?thesis
      using PostHello Some by (simp add: im_status_def)
  qed (simp add: im_status_def PostHello)
qed

subsection \<open>Taking bytes\<close>

lemma chunk_target_append:
  assumes "im_wf im" and "length (im_data im) + length bs < chunk_target im"
  shows "chunk_target (im\<lparr>im_data := im_data im @ bs\<rparr>) = chunk_target im"
    and "im_wf (im\<lparr>im_data := im_data im @ bs\<rparr>)"
  using assms
  by (cases "im_auth_status im"; cases "im_header im";
      auto simp: im_wf_def chunk_target_def layout_append msg_start_def Let_def split: if_splits)+

lemma try_parse_header_short:
  "length d < 2 \<or> length d < 2 + hdr_len d \<Longrightarrow> \<exists>e. try_parse_header cdc d = Err e"
  by (auto simp: try_parse_header_def slice_def hdr_len_def)

lemma try_parse_header_long:
  "2 \<le> length d \<Longrightarrow> 2 + hdr_len d \<le> length d \<Longrightarrow>
   try_parse_header cdc d = unwrap_opt (header_decode cdc (take (hdr_len d) (drop 2 d)))"
  by (simp add: try_parse_header_def slice_def hdr_len_def)

text \<open>Short of the milestone the bytes are only collected.\<close>

lemma add_data_partial:
  assumes "im_wf im" and "length (im_data im) + length bs < chunk_target im"
  shows "add_data cdc im bs = Ok (im\<lparr>im_data := im_data im @ bs\<rparr>)"
proof (cases "im_auth_status im = PostHello \<and> im_header im = None")
  case True
  then have "\<exists>e. try_parse_header cdc (im_data im @ bs) = Err e"
    using assms by (intro try_parse_header_short)
      (auto simp: chunk_target_def Let_def hdr_len_append split: if_splits)
  with True show ?thesis
    by (auto simp: add_data_def)
next
  case False
  then show ?thesis
    by (cases "im_auth_status im") (auto simp: add_data_def)
qed

lemma add_data_append:
  assumes "im_wf im" and "length (im_data im) + length bs < chunk_target im"
  shows "add_data cdc (im\<lparr>im_data := im_data im @ bs\<rparr>) bs' = add_data cdc im (bs @ bs')"
  by (simp add: add_data_def)

text \<open>At the milestone the message is complete or waits for its next part.\<close>

lemma add_data_milestone_hello:
  assumes "im_auth_status im = PreHello" and "im_wf im"
    and "length (im_data im) + length bs = chunk_target im" and "add_data cdc im bs = Ok im'"
  shows "im_wf im' \<or> im_status im' = Ok Complete"
proof -
  have im': "im' = im\<lparr>im_data := im_data im @ bs\<rparr>"
    using assms(1,4) by (simp add: add_data_def)
  show ?thesis
  proof (cases "length (im_data im) < 6")
    case True
    with assms im' show ?thesis
      by (simp add: im_wf_def chunk_target_def im_status_def message_byte_len_PreHello Let_def)
  next
    case False
    with assms im' show ?thesis
      by (simp add: im_wf_def chunk_target_def im_status_def message_byte_len_PreHello Let_def
          hello_len_append)
  qed
qed

lemma add_data_milestone_header:
  assumes "im_auth_status im = PostHello" and "im_header im = None" and "im_wf im"
    and "length (im_data im) + length bs = chunk_target im" and "add_data cdc im bs = Ok im'"
  shows "im_wf im'"
proof -
  let ?d = "im_data im @ bs"
  have len: "2 \<le> length ?d" and full: "length ?d = 2 \<or> length ?d = 2 + hdr_len ?d"
    using assms(1-4) by (auto simp: chunk_target_def Let_def hdr_len_append split: if_splits)
  show ?thesis
  proof (cases "try_parse_header cdc ?d")
    case (Ok h)
    then have "2 + hdr_len ?d \<le> length ?d"
      using try_parse_header_short [of ?d cdc] by fastforce
    moreover have "length ?d \<le> 2 + hdr_len ?d"
      using full by auto
    ultimately show ?thesis
      using assms(1,2,5) Ok
      by (auto simp: add_data_def im_wf_def chunk_target_def msg_start_def Let_def)
  next
    case (Err e)
    then have "length ?d < 2 + hdr_len ?d"
      using len try_parse_header_long [of ?d cdc] by fastforce
    then show ?thesis
      using assms(1,2,5) Err len
      by (auto simp: add_data_def im_wf_def chunk_target_def Let_def)
  next
    case Panic
    then show ?thesis using assms(1,2,5) by (simp add: add_data_def)
  qed
qed

lemma add_data_milestone_message:
  assumes "im_auth_status im = PostHello" and "im_header im = Some h" and "im_wf im"
    and "length (im_data im) + length bs = chunk_target im" and "add_data cdc im bs = Ok im'"
  shows "im_wf im' \<or> im_status im' = Ok Complete"
proof -
  let ?d = "im_data im @ bs"
  have im': "im' = im\<lparr>im_data := ?d\<rparr>"
    using assms(1,2,5) by (simp add: add_data_def)
  have wf: "2 + hdr_len (im_data im) \<le> length (im_data im)"
    using assms(1-3) by (simp add: im_wf_def)
  then have start: "hdr_len ?d = hdr_len (im_data im)" "msg_start ?d = msg_start (im_data im)"
    by (simp_all add: layout_append)
  have "msg_start ?d \<le> length ?d"
    using assms(1,2,4) start by (auto simp: chunk_target_def Let_def split: if_splits)
  moreover have "length ?d \<le> msg_start ?d + msg_len ?d"
    using assms(1,2,4) start by (auto simp: chunk_target_def Let_def msg_len_append split: if_splits)
  ultimately have "missing_message_bytes im' =
      Ok (Some (msg_start ?d + msg_len ?d - length ?d))"
    using assms(1,2) wf by (subst missing_message_bytes_PostHello) (auto simp: im')
  then show ?thesis
    using assms(1,2) wf start \<open>length ?d \<le> msg_start ?d + msg_len ?d\<close> \<open>msg_start ?d \<le> length ?d\<close>
    by (auto simp: im' im_status_def im_wf_def chunk_target_def Let_def)
qed

lemma add_data_milestone:
  assumes "im_wf im" and "length (im_data im) + length bs = chunk_target im"
    and "add_data cdc im bs = Ok im'"
  shows "im_wf im' \<or> im_status im' = Ok Complete"
proof (cases "im_auth_status im")
  case PreHello
  then show ?thesis using assms by (rule add_data_milestone_hello)
next
  case PostHello
  then show ?thesis
    using assms add_data_milestone_header add_data_milestone_message
    by (cases "im_header im") metis+
qed

lemma add_data_auth: "add_data cdc im bs = Ok im' \<Longrightarrow> im_auth_status im' = im_auth_status im"
  by (auto simp: add_data_def Let_def split: bep_auth_status.splits if_splits result.splits)

lemma add_data_data: "add_data cdc im bs = Ok im' \<Longrightarrow> im_data im' = im_data im @ bs"
  by (auto simp: add_data_def Let_def split: bep_auth_status.splits if_splits result.splits)

lemma add_data_no_Err: "add_data cdc im bs \<noteq> Err e"
  by (auto simp: add_data_def Let_def split: bep_auth_status.splits result.splits)

subsection \<open>One iteration\<close>

text \<open>
  From a well-formed state every \<open>populate_*\<close> method takes exactly the bytes up to the next
  milestone, or the whole buffer when it is shorter.
\<close>

definition taken :: "bep_data_parser \<Rightarrow> bytes \<Rightarrow> nat" where
  "taken p rest = min (next_chunk p) (length rest)"

lemma taken_pos: "parser_wf p \<Longrightarrow> rest \<noteq> [] \<Longrightarrow> 0 < taken p rest"
  by (simp add: taken_def next_chunk_pos)

lemma populate_None:
  assumes "parser_wf p" and "rest \<noteq> []" and "incoming p = None"
  shows "populate cdc p rest =
    map_ok (\<lambda>im. (taken p rest, Some im)) (add_data cdc (im_of p) (take (taken p rest) rest))"
  using assms
  by (cases "bep_auth p")
     (simp_all add: populate_def populate_hello_def populate_header_def im_of_def next_chunk_def
        taken_def incoming_message_new_def chunk_target_def slice_def Let_def min.commute)

lemma populate_hello_Some:
  assumes "parser_wf p" and "incoming p = Some im" and "bep_auth p = PreHello"
  shows "populate_hello cdc p rest =
    map_ok (\<lambda>im. (taken p rest, Some im)) (add_data cdc im (take (taken p rest) rest))"
proof -
  have auth: "im_auth_status im = PreHello" and ne: "im_data im \<noteq> []" and wf: "im_wf im"
    using assms by (auto simp: parser_wf_def im_of_def)
  then have lt: "length (im_data im) < chunk_target im"
    by (simp add: im_wf_def)
  then have nx: "next_chunk p = chunk_target im - length (im_data im)" "0 < next_chunk p"
    using assms by (simp_all add: next_chunk_def im_of_def)
  show ?thesis
  proof (cases "length (im_data im) < 6")
    case True
    with auth have "chunk_target im = 6" by (simp add: chunk_target_def)
    with True ne nx assms(2) show ?thesis
      by (simp add: populate_hello_def total_byte_len_def taken_def slice_def Let_def min.commute
          Suc_leI)
  next
    case False
    with auth have target: "chunk_target im = 6 + hello_len (im_data im)"
      by (simp add: chunk_target_def Let_def)
    with False auth lt have "missing_message_bytes im = Ok (Some (next_chunk p))"
      by (simp add: missing_message_bytes_PreHello nx(1))
    with False ne nx(2) assms(2) show ?thesis
      by (simp add: populate_hello_def total_byte_len_def taken_def slice_def Let_def min.commute)
  qed
qed

lemma populate_header_Some:
  assumes "parser_wf p" and "rest \<noteq> []" and "incoming p = Some im" and "bep_auth p = PostHello"
    and "im_header im = None"
  shows "populate_header cdc p rest =
    map_ok (\<lambda>im. (taken p rest, Some im)) (add_data cdc im (take (taken p rest) rest))"
proof -
  have auth: "im_auth_status im = PostHello" and ne: "im_data im \<noteq> []" and wf: "im_wf im"
    using assms by (auto simp: parser_wf_def im_of_def)
  then have nx: "next_chunk p = chunk_target im - length (im_data im)"
    and lt: "length (im_data im) < chunk_target im"
    using assms by (simp_all add: next_chunk_def im_of_def im_wf_def)
  show ?thesis
  proof (cases "length (im_data im) < 2")
    case True
    then have "length (im_data im) = 1"
      using ne by (cases "im_data im") auto
    with auth assms(5) have one: "next_chunk p = 1" by (simp add: nx chunk_target_def)
    have "1 \<le> length rest" using assms(2) by (cases rest) auto
    then show ?thesis
      using True ne one assms(3)
      by (simp add: populate_header_def total_byte_len_def taken_def slice_def Suc_leI)
  next
    case False
    with auth assms(5) lt have "missing_header_bytes im = Ok (Some (next_chunk p))"
      by (simp add: missing_header_bytes_def header_byte_len_def total_byte_len_def slice_def
          hdr_len_def nx chunk_target_def Let_def)
    with False ne assms(3) show ?thesis
      by (simp add: populate_header_def total_byte_len_def taken_def slice_def Let_def min.commute)
  qed
qed

lemma populate_message_Some:
  assumes "parser_wf p" and "incoming p = Some im" and "bep_auth p = PostHello"
    and "im_header im = Some h"
  shows "populate_message cdc p rest =
    map_ok (\<lambda>im. (taken p rest, Some im)) (add_data cdc im (take (taken p rest) rest))"
proof -
  have auth: "im_auth_status im = PostHello" and wf: "im_wf im"
    using assms by (auto simp: parser_wf_def im_of_def)
  then have nx: "next_chunk p = chunk_target im - length (im_data im)"
    and lt: "length (im_data im) < chunk_target im"
    and hdr: "2 + hdr_len (im_data im) \<le> length (im_data im)"
    using assms by (simp_all add: next_chunk_def im_of_def im_wf_def)
  show ?thesis
  proof (cases "length (im_data im) < msg_start (im_data im)")
    case True
    then have "missing_message_bytes im = Ok None"
      using auth assms(4) hdr by (simp add: missing_message_bytes_PostHello)
    moreover have "next_chunk p = msg_start (im_data im) - length (im_data im)"
      using True auth assms(4) by (simp add: nx chunk_target_def Let_def)
    ultimately show ?thesis
      using True assms(2) hdr
      by (simp add: populate_message_def slice_def hdr_len_def [symmetric] msg_start_def
          taken_def Let_def)
  next
    case False
    then have "missing_message_bytes im = Ok (Some (next_chunk p))"
      using auth assms(4) hdr lt
      by (simp add: missing_message_bytes_PostHello nx chunk_target_def Let_def)
    then show ?thesis
      using assms(2) by (simp add: populate_message_def taken_def slice_def Let_def)
  qed
qed

lemma populate_eq:
  assumes "parser_wf p" and "rest \<noteq> []"
  shows "populate cdc p rest =
    map_ok (\<lambda>im. (taken p rest, Some im)) (add_data cdc (im_of p) (take (taken p rest) rest))"
proof (cases "incoming p")
  case None
  with assms show ?thesis by (rule populate_None)
next
  case (Some im)
  show ?thesis
  proof (cases "bep_auth p")
    case PreHello
    with Some assms show ?thesis
      by (simp add: populate_def populate_hello_Some im_of_def)
  next
    case PostHello
    with Some assms show ?thesis
      by (cases "im_header im")
         (simp_all add: populate_def populate_header_Some populate_message_Some im_of_def)
  qed
qed

definition absorb ::
    "codec \<Rightarrow> bep_data_parser \<Rightarrow> bytes \<Rightarrow>
     (bep_data_parser \<times> complete_message option, bep_data_parser \<times> parse_error) result" where
  "absorb cdc p bs =
     (case add_data cdc (im_of p) bs of
        Ok im \<Rightarrow> conclude_iteration cdc (p\<lparr>incoming := Some im\<rparr>)
      | Err e \<Rightarrow> Err (p, e)
      | Panic \<Rightarrow> Panic)"

lemma parse_iteration_eq:
  assumes "parser_wf p" and "rest \<noteq> []"
  shows "parse_iteration cdc p rest =
    map_ok (\<lambda>r. (taken p rest, r)) (absorb cdc p (take (taken p rest) rest))"
  using populate_eq [OF assms, of cdc] add_data_no_Err
  by (cases "add_data cdc (im_of p) (take (taken p rest) rest)")
     (auto simp: parse_iteration_def absorb_def)

definition extended :: "bep_data_parser \<Rightarrow> bytes \<Rightarrow> bep_data_parser" where
  "extended p bs = p\<lparr>incoming := Some ((im_of p)\<lparr>im_data := im_data (im_of p) @ bs\<rparr>)\<rparr>"

lemma im_of_extended [simp]:
  "im_of (extended p bs) = (im_of p)\<lparr>im_data := im_data (im_of p) @ bs\<rparr>"
  by (simp add: extended_def im_of_def)

lemma short_of_target:
  "length bs < next_chunk p \<Longrightarrow> length (im_data (im_of p)) + length bs < chunk_target (im_of p)"
  by (simp add: next_chunk_def)

lemma absorb_partial:
  assumes "parser_wf p" and "length bs < next_chunk p"
  shows "absorb cdc p bs = Ok (extended p bs, None)"
proof -
  have wf: "im_wf (im_of p)" using assms(1) by (simp add: parser_wf_def)
  note short = short_of_target [OF assms(2)]
  show ?thesis
    using add_data_partial [OF wf short, of cdc] im_status_wf [OF chunk_target_append(2) [OF wf short]]
    by (simp add: absorb_def conclude_iteration_def extended_def)
qed

lemma extended_wf:
  assumes "parser_wf p" and "bs \<noteq> []" and "length bs < next_chunk p"
  shows "parser_wf (extended p bs)" and "next_chunk (extended p bs) = next_chunk p - length bs"
    and "absorb cdc (extended p bs) bs' = absorb cdc p (bs @ bs')"
proof -
  have wf: "im_wf (im_of p)" using assms(1) by (simp add: parser_wf_def)
  note short = short_of_target [OF assms(3)]
  show "parser_wf (extended p bs)"
    using assms chunk_target_append(2) [OF wf short]
    by (simp add: parser_wf_def) (simp add: extended_def)
  show "next_chunk (extended p bs) = next_chunk p - length bs"
    using chunk_target_append(1) [OF wf short] by (simp add: next_chunk_def)
  show "absorb cdc (extended p bs) bs' = absorb cdc p (bs @ bs')"
    using add_data_append [OF wf short, of cdc bs'] add_data_no_Err
    by (cases "add_data cdc (im_of p) (bs @ bs')")
       (auto simp: absorb_def, auto simp: extended_def)
qed

lemma decode_not_yet: "complete_message_try_from cdc im \<noteq> Err NoIncomingMessageYet"
  by (auto simp: complete_message_try_from_def decode_hello_def decode_post_hello_message_def
      message_start_pos_def decode_body_def Let_def split: bep_auth_status.splits if_splits)

lemma conclude_iteration_wf:
  assumes "conclude_iteration cdc (p\<lparr>incoming := Some im\<rparr>) = Ok (p', cm)"
    and "im_wf im \<or> im_status im = Ok Complete" and "im_auth_status im = bep_auth p"
    and "im_data im \<noteq> []"
  shows "parser_wf p'"
proof (cases "im_wf im")
  case True
  then have "p' = p\<lparr>incoming := Some im\<rparr>"
    using assms(1) by (simp add: conclude_iteration_def im_status_wf)
  then show ?thesis
    using True assms(3,4) by (simp add: parser_wf_def im_of_def)
next
  case False
  then have "im_status im = Ok Complete" using assms(2) by simp
  then have "\<exists>cm. p' = p\<lparr>bep_auth := PostHello, incoming := None\<rparr>"
    using assms(1) decode_not_yet [of cdc im]
    by (auto simp: conclude_iteration_def Let_def split: result.splits if_splits)
  then show ?thesis
    using parser_wf_new [of "p\<lparr>bep_auth := PostHello\<rparr>"] by simp
qed

lemma absorb_wf:
  assumes "parser_wf p" and "bs \<noteq> []" and "length bs \<le> next_chunk p"
    and "absorb cdc p bs = Ok (p', cm)"
  shows "parser_wf p'"
proof (cases "length bs = next_chunk p")
  case True
  obtain im where im: "add_data cdc (im_of p) bs = Ok im"
    using assms(4) by (auto simp: absorb_def split: result.splits)
  have wf: "im_wf (im_of p)" using assms(1) by (simp add: parser_wf_def)
  then have "length (im_data (im_of p)) + length bs = chunk_target (im_of p)"
    using True by (simp add: next_chunk_def im_wf_def)
  then have "im_wf im \<or> im_status im = Ok Complete"
    using add_data_milestone [OF wf _ im] by simp
  then show ?thesis
    using assms(1,2,4) im add_data_auth [OF im] add_data_data [OF im]
    by (intro conclude_iteration_wf [where p = p and im = im]) (auto simp: absorb_def parser_wf_def)
next
  case False
  then show ?thesis
    using assms absorb_partial [OF assms(1)] extended_wf(1) [OF assms(1,2)] by simp
qed

lemma parse_iteration_wf:
  assumes "parser_wf p" and "rest \<noteq> []" and "parse_iteration cdc p rest = Ok (n, p', cm)"
  shows "parser_wf p'" and "n = taken p rest"
  using assms absorb_wf [OF assms(1), of "take (taken p rest) rest" cdc p' cm] taken_pos [OF assms(1,2)]
  by (auto simp: parse_iteration_eq taken_def)

subsection \<open>The loop\<close>

lemma parse_loop_Nil [simp]: "parse_loop cdc p [] res = Some (Ok (p, res))"
  by (simp add: parse_loop.simps)

lemma parse_loop_absorb:
  assumes "parser_wf p" and "rest \<noteq> []"
  shows "parse_loop cdc p rest res =
    (case absorb cdc p (take (taken p rest) rest) of
       Ok (p', cm) \<Rightarrow>
         parse_loop cdc p' (drop (taken p rest) rest)
           (case cm of None \<Rightarrow> res | Some m \<Rightarrow> res @ [m])
     | Err err \<Rightarrow> Some (Err err)
     | Panic \<Rightarrow> Some Panic)"
  using assms
  by (cases "absorb cdc p (take (taken p rest) rest)")
     (simp_all add: parse_loop.simps [of cdc p rest] parse_iteration_eq split: prod.splits)

lemma drop_taken_less: "parser_wf p \<Longrightarrow> rest \<noteq> [] \<Longrightarrow> length (drop (taken p rest) rest) < length rest"
  using taken_pos [of p rest] by (cases rest) auto

lemma absorb_taken_wf:
  assumes "parser_wf p" and "rest \<noteq> []" and "absorb cdc p (take (taken p rest) rest) = Ok (p', cm)"
  shows "parser_wf p'"
  using assms absorb_wf [OF assms(1) _ _ assms(3)] taken_pos [OF assms(1,2)]
  by (auto simp: taken_def)

lemma parse_loop_total:
  "parser_wf p \<Longrightarrow>
   \<exists>r. parse_loop cdc p rest res = Some r \<and> (\<forall>p' ms. r = Ok (p', ms) \<longrightarrow> parser_wf p')"
proof (induction "length rest" arbitrary: p rest res rule: less_induct)
  case less
  show ?case
  proof (cases "rest = []")
    case True
    with less.prems show ?thesis by simp
  next
    case False
    note unfold = parse_loop_absorb [OF less.prems False, of cdc res]
    show ?thesis
    proof (cases "absorb cdc p (take (taken p rest) rest)")
      case (Ok r)
      obtain p1 cm where r: "r = (p1, cm)" by (cases r)
      have "parser_wf p1"
        using absorb_taken_wf [OF less.prems False] Ok r by blast
      then show ?thesis
        using less.hyps [OF drop_taken_less [OF less.prems False]] unfold Ok r by simp
    qed (auto simp: unfold split: prod.splits)
  qed
qed

lemma parse_loop_accumulator:
  "parser_wf p \<Longrightarrow>
   parse_loop cdc p rest (pre @ res) =
     map_option (map_ok (\<lambda>(p', ms). (p', pre @ ms))) (parse_loop cdc p rest res)"
proof (induction "length rest" arbitrary: p rest res rule: less_induct)
  case less
  show ?case
  proof (cases "rest = []")
    case False
    note unfold = parse_loop_absorb [OF less.prems False]
    show ?thesis
    proof (cases "absorb cdc p (take (taken p rest) rest)")
      case (Ok r)
      obtain p1 cm where r: "r = (p1, cm)" by (cases r)
      have "parser_wf p1"
        using absorb_taken_wf [OF less.prems False] Ok r by blast
      then show ?thesis
        using less.hyps [OF drop_taken_less [OF less.prems False], of p1]
        by (cases cm) (simp_all add: unfold Ok r)
    qed (auto simp: unfold split: prod.splits)
  qed simp
qed

lemma parse_loop_append:
  "parser_wf p \<Longrightarrow>
   parse_loop cdc p (a @ b) res =
     (case parse_loop cdc p a res of
        Some (Ok (p', res')) \<Rightarrow> parse_loop cdc p' b res'
      | r \<Rightarrow> r)"
proof (induction "length a" arbitrary: p a res rule: less_induct)
  case less
  show ?case
  proof (cases "a = []")
    case False
    show ?thesis
    proof (cases "length a < next_chunk p")
      case True
      then have taken_a: "take (taken p a) a = a" "drop (taken p a) a = []"
        by (simp_all add: taken_def)
      note ext = extended_wf [OF less.prems False True]
      have first: "parse_loop cdc p a res = Some (Ok (extended p a, res))"
        using parse_loop_absorb [OF less.prems False, of cdc res] taken_a
          absorb_partial [OF less.prems True, of cdc] by simp
      show ?thesis
      proof (cases "b = []")
        case False
        have n: "taken p (a @ b) = length a + taken (extended p a) b"
          using True by (auto simp: taken_def ext(2))
        have "parse_loop cdc p (a @ b) res = parse_loop cdc (extended p a) b res"
          using parse_loop_absorb [OF less.prems, of "a @ b" cdc res]
            parse_loop_absorb [OF ext(1) False, of cdc res] False n
            absorb_partial [OF less.prems True, of cdc]
          by (auto simp: ext(3) split: result.splits)
        then show ?thesis by (simp add: first)
      qed (simp add: first)
    next
      case False': False
      then have n: "taken p (a @ b) = taken p a" "taken p a \<le> length a"
        by (auto simp: taken_def)
      note unfold = parse_loop_absorb [OF less.prems False, of cdc res]
        parse_loop_absorb [OF less.prems, of "a @ b" cdc res]
      show ?thesis
      proof (cases "absorb cdc p (take (taken p a) a)")
        case (Ok r)
        obtain p1 cm where r: "r = (p1, cm)" by (cases r)
        have "parser_wf p1"
          using absorb_taken_wf [OF less.prems False] Ok r by blast
        then show ?thesis
          using less.hyps [OF drop_taken_less [OF less.prems False], of p1]
          by (simp add: unfold False n Ok r)
      qed (auto simp: unfold False n split: prod.splits)
    qed
  qed simp
qed

section \<open>Frames\<close>

text \<open>A frame as the protocol defines it: two length fields, the header and the message.\<close>

definition frame :: "bytes \<Rightarrow> bytes \<Rightarrow> bytes" where
  "frame hb body = to_be_bytes 2 (length hb) @ hb @ to_be_bytes 4 (length body) @ body"

definition parser_ready :: bep_data_parser where
  "parser_ready = \<lparr>bep_auth = PostHello, incoming = None\<rparr>"

definition parser_at :: "bytes \<Rightarrow> header option \<Rightarrow> bep_data_parser" where
  "parser_at d h =
     \<lparr>bep_auth = PostHello,
      incoming = Some \<lparr>im_auth_status = PostHello, im_data = d, im_header = h\<rparr>\<rparr>"

lemma parser_ready_wf [wf_intros]: "parser_wf parser_ready"
  using parser_wf_new [of parser_ready] by (simp add: parser_ready_def)

lemma hdr_len_frame: "hl < 65536 \<Longrightarrow> hdr_len (to_be_bytes 2 hl @ xs) = hl"
  by (simp add: hdr_len_def)

lemma msg_len_frame:
  "length hb < 65536 \<Longrightarrow> ml < 4294967296 \<Longrightarrow>
   msg_len (to_be_bytes 2 (length hb) @ hb @ to_be_bytes 4 ml @ xs) = ml"
  by (simp add: msg_len_def hdr_len_frame)

lemma next_chunk_at:
  "next_chunk (parser_at d h) =
     (case h of None \<Rightarrow> (if length d < 2 then 2 else 2 + hdr_len d)
      | Some _ \<Rightarrow> if length d < msg_start d then msg_start d else msg_start d + msg_len d) - length d"
  by (simp add: next_chunk_def im_of_def parser_at_def chunk_target_def Let_def split: option.splits)

lemma parse_loop_exact:
  assumes "parser_wf p" and "bs \<noteq> []" and "length bs = next_chunk p"
  shows "parse_loop cdc p bs res =
    (case absorb cdc p bs of
       Ok (p', cm) \<Rightarrow> Some (Ok (p', case cm of None \<Rightarrow> res | Some m \<Rightarrow> res @ [m]))
     | Err err \<Rightarrow> Some (Err err)
     | Panic \<Rightarrow> Some Panic)"
  using assms parse_loop_absorb [OF assms(1,2), of cdc res]
  by (auto simp: taken_def split: result.splits)

text \<open>The header of a frame.\<close>

lemma absorb_header_len:
  assumes "length hb < 65536" and "header_decode cdc [] = Some h \<or> hb \<noteq> []"
  shows "absorb cdc parser_ready (to_be_bytes 2 (length hb)) =
    Ok (parser_at (to_be_bytes 2 (length hb)) (if hb = [] then Some h else None), None)"
proof -
  let ?lh = "to_be_bytes 2 (length hb)"
  have hl: "hdr_len ?lh = length hb"
    using hdr_len_frame [OF assms(1), of "[]"] by simp
  show ?thesis
  proof (cases "hb = []")
    case True
    with assms(2) hl have "try_parse_header cdc ?lh = Ok h"
      by (subst try_parse_header_long) auto
    with True hl show ?thesis
      by (simp add: absorb_def im_of_def parser_ready_def incoming_message_new_def add_data_def
          conclude_iteration_def im_status_wf im_wf_def chunk_target_def msg_start_def parser_at_def)
  next
    case False
    with hl obtain e where "try_parse_header cdc ?lh = Err e"
      using try_parse_header_short [of ?lh cdc] by auto
    with False hl show ?thesis
      by (simp add: absorb_def im_of_def parser_ready_def incoming_message_new_def add_data_def
          conclude_iteration_def im_status_wf im_wf_def chunk_target_def parser_at_def)
  qed
qed

lemma absorb_header:
  assumes "length hb < 65536" and "hb \<noteq> []" and "header_decode cdc hb = Some h"
  shows "absorb cdc (parser_at (to_be_bytes 2 (length hb)) None) hb =
    Ok (parser_at (to_be_bytes 2 (length hb) @ hb) (Some h), None)"
proof -
  let ?d = "to_be_bytes 2 (length hb) @ hb"
  have hl: "hdr_len ?d = length hb"
    by (rule hdr_len_frame [OF assms(1)])
  then have "try_parse_header cdc ?d = Ok h"
    using assms(3) by (subst try_parse_header_long) auto
  then show ?thesis
    using hl
    by (simp add: absorb_def im_of_def parser_at_def add_data_def
        conclude_iteration_def im_status_wf im_wf_def chunk_target_def msg_start_def)
qed

lemma parser_at_wf:
  "d \<noteq> [] \<Longrightarrow> 0 < next_chunk (parser_at d h) \<Longrightarrow> h \<noteq> None \<longrightarrow> 2 + hdr_len d \<le> length d \<Longrightarrow>
   parser_wf (parser_at d h)"
  by (simp add: parser_wf_def next_chunk_def im_of_def parser_at_def im_wf_def)

lemma parse_frame_header:
  assumes "length hb < 65536" and "header_decode cdc hb = Some h"
  shows "parse_loop cdc parser_ready (to_be_bytes 2 (length hb) @ hb) res =
    Some (Ok (parser_at (to_be_bytes 2 (length hb) @ hb) (Some h), res))"
proof -
  let ?lh = "to_be_bytes 2 (length hb)"
  have ne: "?lh \<noteq> []" by (metis length_to_be_bytes list.size(3) zero_neq_numeral)
  have nx: "next_chunk parser_ready = 2"
    by (simp add: next_chunk_def im_of_def parser_ready_def incoming_message_new_def chunk_target_def)
  have first: "parse_loop cdc parser_ready ?lh res =
      Some (Ok (parser_at ?lh (if hb = [] then Some h else None), res))"
    using parse_loop_exact [OF parser_ready_wf ne] absorb_header_len [OF assms(1)] assms(2)
    by (cases "hb = []") (simp_all add: nx)
  show ?thesis
  proof (cases "hb = []")
    case True
    with first show ?thesis by simp
  next
    case False
    have chunk: "next_chunk (parser_at ?lh None) = length hb"
      using hdr_len_frame [OF assms(1), of "[]"] by (simp add: next_chunk_at)
    have "parse_loop cdc (parser_at ?lh None) hb res =
        Some (Ok (parser_at (?lh @ hb) (Some h), res))"
      using parse_loop_exact [OF parser_at_wf [OF ne, of None], of hb] chunk False
        absorb_header [OF assms(1) False assms(2)] by simp
    with False first show ?thesis
      by (simp add: parse_loop_append [OF parser_ready_wf])
  qed
qed

text \<open>The message of a frame: it is decoded as soon as its last byte is there.\<close>

definition frame_outcome ::
    "codec \<Rightarrow> header \<Rightarrow> bytes \<Rightarrow>
     (bep_data_parser \<times> complete_message option, bep_data_parser \<times> parse_error) result" where
  "frame_outcome cdc h d =
     (case decode_post_hello_message cdc \<lparr>im_auth_status = PostHello, im_data = d, im_header = Some h\<rparr> of
        Ok m \<Rightarrow> Ok (parser_ready, Some m)
      | Err e \<Rightarrow> Err (parser_at d (Some h), e)
      | Panic \<Rightarrow> Panic)"

lemma absorb_message:
  assumes "length hb < 65536" and "length body < 4294967296"
    and d: "d = to_be_bytes 2 (length hb) @ hb @ to_be_bytes 4 (length body) @ body"
    and split: "pre @ bs = d" and "2 + length hb \<le> length pre"
  shows "absorb cdc (parser_at pre (Some h)) bs = frame_outcome cdc h d"
proof -
  let ?im = "\<lparr>im_auth_status = PostHello, im_data = d, im_header = Some h\<rparr>"
  have layout: "hdr_len d = length hb" "msg_len d = length body" "msg_start d = 6 + length hb"
    "length d = 6 + length hb + length body"
    using hdr_len_frame [OF assms(1)] msg_len_frame [OF assms(1,2)] by (simp_all add: d msg_start_def)
  have "add_data cdc (im_of (parser_at pre (Some h))) bs = Ok ?im"
    using split by (simp add: im_of_def parser_at_def add_data_def)
  moreover have "im_status ?im = Ok Complete"
    using layout by (simp add: im_status_def missing_message_bytes_PostHello)
  moreover have "complete_message_try_from cdc ?im = decode_post_hello_message cdc ?im"
    by (simp add: complete_message_try_from_def)
  ultimately show ?thesis
    using decode_not_yet [of cdc ?im]
    by (auto simp: absorb_def conclude_iteration_def parser_at_def parser_ready_def Let_def
        frame_outcome_def split: result.splits)
qed

lemma parse_frame_message:
  assumes "length hb < 65536" and "length body < 4294967296"
  shows "parse_loop cdc (parser_at (to_be_bytes 2 (length hb) @ hb) (Some h))
      (to_be_bytes 4 (length body) @ body) res =
    (case frame_outcome cdc h (frame hb body) of
       Ok (p', cm) \<Rightarrow> Some (Ok (p', case cm of None \<Rightarrow> res | Some m \<Rightarrow> res @ [m]))
     | Err err \<Rightarrow> Some (Err err)
     | Panic \<Rightarrow> Some Panic)"
proof -
  let ?h = "to_be_bytes 2 (length hb) @ hb" and ?lm = "to_be_bytes 4 (length body)"
  have ne: "?h \<noteq> []" "?lm \<noteq> []"
    by (metis append_is_Nil_conv length_to_be_bytes list.size(3) zero_neq_numeral)+
  have hl: "hdr_len (?h @ xs) = length hb" "hdr_len ?h = length hb" for xs
    using hdr_len_frame [OF assms(1)] by simp_all
  have chunk: "next_chunk (parser_at ?h (Some h)) = 4"
    by (simp add: next_chunk_at msg_start_def hl)
  have wf: "parser_wf (parser_at ?h (Some h))"
    by (rule parser_at_wf) (use ne chunk hl in auto)
  have final: "absorb cdc (parser_at pre (Some h)) bs = frame_outcome cdc h (frame hb body)"
    if "pre @ bs = frame hb body" and "2 + length hb \<le> length pre" for pre bs
    using absorb_message [OF assms frame_def] that by metis
  show ?thesis
  proof (cases "body = []")
    case True
    then have "absorb cdc (parser_at ?h (Some h)) ?lm = frame_outcome cdc h (frame hb body)"
      by (intro final) (auto simp: frame_def)
    with True show ?thesis
      using parse_loop_exact [OF wf ne(2), of cdc res] chunk by simp
  next
    case False
    have len: "msg_len (?h @ ?lm) = length body"
      using msg_len_frame [OF assms(1,2), of "[]"] by simp
    have chunk2: "next_chunk (parser_at (?h @ ?lm) (Some h)) = length body"
      using hl(1) [of ?lm] len by (simp add: next_chunk_at msg_start_def)
    have wf2: "parser_wf (parser_at (?h @ ?lm) (Some h))"
      by (rule parser_at_wf) (use ne chunk2 False hl(1) [of ?lm] in auto)
    have "absorb cdc (parser_at ?h (Some h)) ?lm = Ok (parser_at (?h @ ?lm) (Some h), None)"
    proof -
      have "im_wf (im_of (parser_at (?h @ ?lm) (Some h)))"
        using wf2 by (simp add: parser_wf_def)
      then show ?thesis
        by (simp add: absorb_def conclude_iteration_def parser_at_def im_of_def add_data_def
            im_status_wf)
    qed
    then have "parse_loop cdc (parser_at ?h (Some h)) ?lm res =
        Some (Ok (parser_at (?h @ ?lm) (Some h), res))"
      using parse_loop_exact [OF wf ne(2), of cdc res] chunk by simp
    moreover have "absorb cdc (parser_at (?h @ ?lm) (Some h)) body = frame_outcome cdc h (frame hb body)"
      by (intro final) (auto simp: frame_def)
    ultimately show ?thesis
      using parse_loop_exact [OF wf2 False, of cdc res] chunk2
      by (simp add: parse_loop_append [OF wf])
  qed
qed

lemma parse_frame_outcome:
  assumes "length hb < 65536" and "length body < 4294967296" and "header_decode cdc hb = Some h"
  shows "parse_loop cdc parser_ready (frame hb body) res =
    (case frame_outcome cdc h (frame hb body) of
       Ok (p', cm) \<Rightarrow> Some (Ok (p', case cm of None \<Rightarrow> res | Some m \<Rightarrow> res @ [m]))
     | Err err \<Rightarrow> Some (Err err)
     | Panic \<Rightarrow> Some Panic)"
  using parse_loop_append [OF parser_ready_wf, of cdc "to_be_bytes 2 (length hb) @ hb"
      "to_be_bytes 4 (length body) @ body" res]
  by (simp add: parse_frame_header [OF assms(1,3)] parse_frame_message [OF assms(1,2)])
     (simp add: frame_def)

lemma frame_start:
  assumes "length hb < 65536"
  shows "message_start_pos \<lparr>im_auth_status = PostHello, im_data = frame hb body, im_header = h\<rparr> =
    Ok (Some (6 + length hb))"
  using hdr_len_frame [OF assms, of "hb @ to_be_bytes 4 (length body) @ body"]
  by (simp add: message_start_pos_eq frame_def msg_start_def)

lemma parse_frame:
  assumes "length hb < 65536" and "length body < 4294967296" and "header_decode cdc hb = Some h"
    and "hdr_compression h = 0" and "hdr_type h = message_type_into t"
  shows "parse_loop cdc parser_ready (frame hb body) res =
    (case decode_body cdc t body of
       Ok m \<Rightarrow> Some (Ok (parser_ready, res @ [m]))
     | Err e \<Rightarrow> Some (Err (parser_at (frame hb body) (Some h), e))
     | Panic \<Rightarrow> Some Panic)"
proof -
  have "slice (frame hb body) (6 + length hb) (length (frame hb body)) =
      (Ok body :: (bytes, parse_error) result)"
    by (simp add: slice_def frame_def)
  then have "decode_post_hello_message cdc
      \<lparr>im_auth_status = PostHello, im_data = frame hb body, im_header = Some h\<rparr> = decode_body cdc t body"
    using assms(4,5) by (simp add: decode_post_hello_message_def frame_start [OF assms(1)]
        message_compression_try_from_def)
  then show ?thesis
    by (simp add: parse_frame_outcome [OF assms(1-3)] frame_outcome_def split: result.splits)
qed

text \<open>An LZ4 message begins with its uncompressed length; the parser reads it unchecked.\<close>

lemma parse_frame_lz4_short:
  assumes "length hb < 65536" and "length body < 4" and "header_decode cdc hb = Some h"
    and "hdr_compression h = 1"
  shows "parse_loop cdc parser_ready (frame hb body) res = Some Panic"
proof -
  have "slice (frame hb body) (6 + length hb) (6 + length hb + 4) =
      (Panic :: (bytes, parse_error) result)"
    using assms(2) by (simp add: slice_def frame_def)
  then have "frame_outcome cdc h (frame hb body) = Panic"
    using assms(4) by (simp add: frame_outcome_def decode_post_hello_message_def
        frame_start [OF assms(1)] message_compression_try_from_def)
  then show ?thesis
    using assms by (subst parse_frame_outcome [OF assms(1) _ assms(3)]) simp_all
qed

text \<open>The Hello message that opens a connection.\<close>

lemma parse_hello_outcome:
  assumes "length magic = 4" and "length body < 65536"
    and d: "d = magic @ to_be_bytes 2 (length body) @ body"
  shows "parse_loop cdc bep_data_parser_new d res =
    (case decode_hello cdc d of
       Ok m \<Rightarrow> Some (Ok (parser_ready, res @ [m]))
     | Err e \<Rightarrow> Some (Err (\<lparr>bep_auth = PostHello, incoming =
         Some \<lparr>im_auth_status = PreHello, im_data = d, im_header = None\<rparr>\<rparr>, e))
     | Panic \<Rightarrow> Some Panic)"
proof -
  let ?pre = "magic @ to_be_bytes 2 (length body)"
  define im where "im = (\<lambda>d. \<lparr>im_auth_status = PreHello, im_data = d, im_header = None\<rparr>)"
  define st where "st = (\<lambda>d. \<lparr>bep_auth = PreHello, incoming = Some (im d)\<rparr>)"
  have six: "length ?pre = 6" using assms(1) by simp
  then have ne: "?pre \<noteq> []" by auto
  have hl: "hello_len (?pre @ xs) = length body" for xs
    using assms(1,2) by (simp add: hello_len_def)
  have nx: "next_chunk bep_data_parser_new = 6"
    by (simp add: next_chunk_def im_of_def bep_data_parser_new_def incoming_message_new_def
        chunk_target_def)
  have decode: "complete_message_try_from cdc (im d) = decode_hello cdc d"
    by (simp add: complete_message_try_from_def im_def)
  have "im_status (im d) = Ok Complete"
    using hl [of body] six by (simp add: im_def im_status_def message_byte_len_PreHello d)
  then have finish: "conclude_iteration cdc (st d) =
      (case decode_hello cdc d of
         Ok m \<Rightarrow> Ok (parser_ready, Some m)
       | Err e \<Rightarrow> Err (\<lparr>bep_auth = PostHello, incoming = Some (im d)\<rparr>, e)
       | Panic \<Rightarrow> Panic)"
    using decode decode_not_yet [of cdc "im d"]
    by (auto simp: conclude_iteration_def st_def parser_ready_def Let_def split: result.splits)
  show ?thesis
  proof (cases "body = []")
    case True
    have "absorb cdc bep_data_parser_new ?pre = conclude_iteration cdc (st d)"
      using True by (simp add: absorb_def im_of_def bep_data_parser_new_def incoming_message_new_def
          add_data_def st_def im_def d)
    with True finish show ?thesis
      using parse_loop_exact [OF parser_wf_initial ne, of cdc res] six nx
      by (simp add: d im_def split: result.splits)
  next
    case False
    have wf_im: "im_wf (im ?pre)"
      using six hl [of "[]"] False by (simp add: im_wf_def im_def chunk_target_def)
    then have wf: "parser_wf (st ?pre)"
      using ne by (simp add: parser_wf_def st_def im_of_def) (simp add: im_def)
    have "absorb cdc bep_data_parser_new ?pre = Ok (st ?pre, None)"
      using im_status_wf [OF wf_im]
      by (simp add: absorb_def im_of_def bep_data_parser_new_def incoming_message_new_def
          add_data_def conclude_iteration_def) (simp add: st_def im_def)
    then have "parse_loop cdc bep_data_parser_new ?pre res = Some (Ok (st ?pre, res))"
      using parse_loop_exact [OF parser_wf_initial ne, of cdc res] six nx by simp
    moreover have "absorb cdc (st ?pre) body = conclude_iteration cdc (st d)"
      by (simp add: absorb_def im_of_def st_def add_data_def d) (simp add: im_def)
    moreover have "next_chunk (st ?pre) = length body"
      using six hl [of "[]"] by (simp add: next_chunk_def im_of_def st_def im_def chunk_target_def)
    ultimately show ?thesis
      using parse_loop_append [OF parser_wf_initial, of cdc ?pre body res]
        parse_loop_exact [OF wf False, of cdc res] finish
      by (simp add: d im_def split: result.splits)
  qed
qed

lemma parse_hello:
  assumes "length body < 65536" and "hello_decode cdc body = Some h"
  shows "parse_loop cdc bep_data_parser_new (MAGIC_NUMBER @ to_be_bytes 2 (length body) @ body) res =
    Some (Ok (parser_ready, res @ [Hello h]))"
proof -
  let ?d = "MAGIC_NUMBER @ to_be_bytes 2 (length body) @ body"
  have "slice ?d 6 (6 + length body) = (Ok body :: (bytes, parse_error) result)"
    by (simp add: slice_def MAGIC_NUMBER_def)
  moreover have "slice ?d 4 6 = (Ok (to_be_bytes 2 (length body)) :: (bytes, parse_error) result)"
    by (simp add: slice_def MAGIC_NUMBER_def)
  ultimately have "decode_hello cdc ?d = Ok (Hello h)"
    using assms by (simp add: decode_hello_def starts_with_magic_number_def MAGIC_NUMBER_def)
  then show ?thesis
    by (subst parse_hello_outcome [where magic = MAGIC_NUMBER and body = body])
       (use assms in \<open>simp_all add: MAGIC_NUMBER_def\<close>)
qed

lemma parse_hello_bad_magic:
  assumes "length magic = 4" and "magic \<noteq> MAGIC_NUMBER" and "length body < 65536"
  shows "\<exists>p. parse_loop cdc bep_data_parser_new
    ((magic @ to_be_bytes 2 (length body) @ body) @ rest) res = Some (Err (p, NoMagicHello))"
proof -
  have "decode_hello cdc (magic @ to_be_bytes 2 (length body) @ body) = Err NoMagicHello"
    using assms(1,2) by (simp add: decode_hello_def starts_with_magic_number_def)
  then show ?thesis
    using parse_hello_outcome [OF assms(1,3) refl, of cdc res]
    by (subst parse_loop_append [OF parser_wf_initial]) simp
qed

section \<open>Panics\<close>

text \<open>
  A codec is lenient when it decodes every Hello and every header, and the headers name a known
  message type and no compression.  For such a codec none of the slices, subtractions, assertions
  and unwraps of the parser can fail.
\<close>

definition lenient :: "codec \<Rightarrow> bool" where
  "lenient cdc \<longleftrightarrow>
     (\<forall>b. hello_decode cdc b \<noteq> None) \<and>
     (\<forall>b. \<exists>h t. header_decode cdc b = Some h \<and> hdr_type h = message_type_into t \<and>
        hdr_compression h = 0)"

definition im_lenient :: "incoming_message \<Rightarrow> bool" where
  "im_lenient im \<longleftrightarrow> (\<forall>h. im_header im = Some h \<longrightarrow>
     (\<exists>t. hdr_type h = message_type_into t) \<and> hdr_compression h = 0)"

lemma try_parse_header_lenient:
  assumes "lenient cdc"
  shows "try_parse_header cdc d \<noteq> Panic"
    and "try_parse_header cdc d = Ok h \<Longrightarrow> (\<exists>t. hdr_type h = message_type_into t) \<and> hdr_compression h = 0"
proof -
  have "header_decode cdc b \<noteq> None \<and> (header_decode cdc b = Some h \<longrightarrow>
      (\<exists>t. hdr_type h = message_type_into t) \<and> hdr_compression h = 0)" for b
    using assms unfolding lenient_def by (metis option.distinct(1) option.inject)
  then show "try_parse_header cdc d \<noteq> Panic"
    and "try_parse_header cdc d = Ok h \<Longrightarrow> (\<exists>t. hdr_type h = message_type_into t) \<and> hdr_compression h = 0"
    by (auto simp: try_parse_header_def slice_def Let_def panic_simps split: if_splits)
qed

lemma add_data_lenient:
  assumes "lenient cdc"
  shows "add_data cdc im bs \<noteq> Panic"
    and "add_data cdc im bs = Ok im' \<Longrightarrow> im_lenient im \<Longrightarrow> im_lenient im'"
  using try_parse_header_lenient [OF assms, of "im_data im @ bs"]
  by (auto simp: add_data_def Let_def im_lenient_def split: bep_auth_status.splits result.splits if_splits)

lemma decode_lenient:
  assumes "lenient cdc" and "im_status im = Ok Complete" and "im_lenient im"
  shows "complete_message_try_from cdc im \<noteq> Panic"
proof (cases "im_auth_status im")
  case PreHello
  obtain n where n: "n = hello_len (im_data im)" by simp
  have six: "6 \<le> length (im_data im)" and len: "6 + n \<le> length (im_data im)"
    using assms(2) PreHello
    by (auto simp: im_status_def message_byte_len_PreHello n split: if_splits option.splits)
  have "slice (im_data im) 4 6 = (Ok (take 2 (drop 4 (im_data im))) :: (bytes, parse_error) result)"
    using six by (simp add: slice_def)
  moreover have "slice (im_data im) 6 (6 + n) = (Ok (take n (drop 6 (im_data im))) :: (bytes, parse_error) result)"
    using len by (simp add: slice_def)
  ultimately show ?thesis
    using PreHello assms(1) n [unfolded hello_len_def, symmetric]
    by (simp add: complete_message_try_from_def decode_hello_def lenient_def panic_simps)
next
  case PostHello
  then obtain h where h: "im_header im = Some h" and m: "missing_message_bytes im = Ok (Some 0)"
    using assms(2) by (auto simp: im_status_def split: if_splits)
  then obtain t where t: "hdr_type h = message_type_into t" "hdr_compression h = 0"
    using assms(3) by (auto simp: im_lenient_def)
  have two: "2 \<le> length (im_data im)"
    using m PostHello h by (auto simp: missing_message_bytes_def message_start_pos_def slice_def
        split: if_splits)
  have "msg_start (im_data im) \<le> length (im_data im)"
    using m PostHello h two
    by (auto simp: missing_message_bytes_def message_start_pos_def message_byte_len_def slice_def
        msg_start_def hdr_len_def Let_def split: if_splits option.splits)
  then show ?thesis
    using PostHello h t two
    by (auto simp: complete_message_try_from_def decode_post_hello_message_def message_start_pos_eq
        message_compression_try_from_def slice_def decode_body_def panic_simps)
qed

lemma add_data_status:
  assumes "im_wf im" and "length (im_data im) + length bs \<le> chunk_target im"
    and "add_data cdc im bs = Ok im'"
  shows "im_wf im' \<or> im_status im' = Ok Complete"
  using assms add_data_milestone [OF assms(1) _ assms(3)] add_data_partial [OF assms(1), of bs cdc]
    chunk_target_append(2) [OF assms(1), of bs]
  by (cases "length (im_data im) + length bs = chunk_target im") auto

lemma absorb_lenient:
  assumes "lenient cdc" and "parser_wf p" and "length bs \<le> next_chunk p" and "im_lenient (im_of p)"
  shows "absorb cdc p bs \<noteq> Panic"
    and "absorb cdc p bs = Ok (p', cm) \<Longrightarrow> im_lenient (im_of p')"
proof -
  have wf: "im_wf (im_of p)" using assms(2) by (simp add: parser_wf_def)
  obtain im where im: "add_data cdc (im_of p) bs = Ok im"
    using add_data_lenient(1) [OF assms(1)] add_data_no_Err
    by (cases "add_data cdc (im_of p) bs") auto
  have len: "im_lenient im" using add_data_lenient(2) [OF assms(1) im assms(4)] .
  have "length (im_data (im_of p)) + length bs \<le> chunk_target (im_of p)"
    using wf assms(3) unfolding next_chunk_def im_wf_def by linarith
  from add_data_status [OF wf this im] have status: "im_status im = Ok Incomplete \<or> im_status im = Ok Complete"
    using im_status_wf by blast
  then show "absorb cdc p bs \<noteq> Panic"
    using decode_lenient [OF assms(1) _ len] im
    by (auto simp: absorb_def conclude_iteration_def Let_def split: result.splits if_splits)
  show "absorb cdc p bs = Ok (p', cm) \<Longrightarrow> im_lenient (im_of p')"
    using status len im decode_not_yet [of cdc im]
    by (auto simp: absorb_def conclude_iteration_def Let_def im_of_def incoming_message_new_def
        im_lenient_def split: result.splits if_splits)
qed

lemma parse_loop_lenient:
  assumes "lenient cdc"
  shows "parser_wf p \<Longrightarrow> im_lenient (im_of p) \<Longrightarrow> parse_loop cdc p rest res \<noteq> Some Panic"
proof (induction "length rest" arbitrary: p rest res rule: less_induct)
  case less
  show ?case
  proof (cases "rest = []")
    case False
    note unfold = parse_loop_absorb [OF less.prems(1) False, of cdc res]
    have chunk: "length (take (taken p rest) rest) \<le> next_chunk p" by (simp add: taken_def)
    note safe = absorb_lenient [OF assms less.prems(1) chunk less.prems(2)]
    show ?thesis
    proof (cases "absorb cdc p (take (taken p rest) rest)")
      case (Ok r)
      obtain p' cm where r: "r = (p', cm)" by (cases r)
      have "parser_wf p'" using absorb_taken_wf [OF less.prems(1) False] Ok r by simp
      moreover have "im_lenient (im_of p')" using safe(2) Ok r by simp
      ultimately show ?thesis
        using less.hyps [OF drop_taken_less [OF less.prems(1) False]] by (simp add: unfold Ok r)
    qed (use safe(1) unfold in simp_all)
  qed simp
qed

end
