(* ===== verification/Connection.thy ===== *)
theory Connection
  imports Bep_Data_Parser
begin

text \<open>
  The two directions of a connection (\<^verbatim>\<open>handle_incoming_data\<close>, \<^verbatim>\<open>serialize_message\<close> and
  \<^verbatim>\<open>serialize_hello\<close> of \<^verbatim>\<open>src/src/main.rs\<close>).

  \<^item> \<open>read_loop\<close> is the task that reads the socket: the list of buffers is what successive
    \<^verbatim>\<open>reader.read\<close> calls return, the empty buffer is the end of the stream.
  \<^item> \<open>event_data\<close> turns one event of the channel into the bytes written to the peer;
    \<open>events_data\<close> is the loop over the channel.  The requests that
    \<^verbatim>\<open>throttled_requests\<close> returns for an event are given with the event.

  The locale \<open>prost_codec\<close> states what is relied on of the generated coders: decoding what was
  encoded, for the headers this program writes and for the messages of a set \<open>msgs\<close>.
\<close>

section \<open>Definitions\<close>

datatype grizol_event = Message complete_message | RequestProcessed | RequestCreated

datatype conn_error = UnexpectedEof

definition serialize_message :: "codec \<Rightarrow> header \<Rightarrow> bytes \<Rightarrow> (bytes, conn_error) result" where
  "serialize_message cdc header message_bytes =
     (let header_bytes = header_encode cdc header in
      if length header_bytes < 2 ^ 16
      then
        if length message_bytes < 2 ^ 32
        then Ok (to_be_bytes 2 (length header_bytes) @ header_bytes
               @ to_be_bytes 4 (length message_bytes) @ message_bytes)
        else Panic
      else Panic)"

definition serialize_hello :: "bytes \<Rightarrow> (bytes, conn_error) result" where
  "serialize_hello message_bytes =
     (if length message_bytes < 2 ^ 16
      then Ok (MAGIC_NUMBER @ to_be_bytes 2 (length message_bytes) @ message_bytes)
      else Panic)"

text \<open>The type and the encoded body of a message; requests must come as events.\<close>

definition message_parts ::
    "codec \<Rightarrow> complete_message \<Rightarrow> (message_type option \<times> bytes list, conn_error) result" where
  "message_parts cdc m =
     (case m of
        Hello m \<Rightarrow> Ok (None, [hello_encode cdc m])
      | ClusterConfig m \<Rightarrow> Ok (Some MT_ClusterConfig, [cluster_config_encode cdc m])
      | Index m \<Rightarrow> Ok (Some MT_Index, [index_encode cdc m])
      | IndexUpdate m \<Rightarrow> Ok (Some MT_IndexUpdate, [index_update_encode cdc m])
      | Response m \<Rightarrow> Ok (Some MT_Response, [response_encode cdc m])
      | DownloadProgress m \<Rightarrow> Ok (Some MT_DownloadProgress, [download_progress_encode cdc m])
      | Ping \<Rightarrow> Ok (Some MT_Ping, [ping_encode cdc])
      | Close m \<Rightarrow> Ok (Some MT_Close, [close_encode cdc m])
      | Request _ \<Rightarrow> Panic)"

definition event_parts ::
    "codec \<Rightarrow> request list \<Rightarrow> grizol_event \<Rightarrow>
     (message_type option \<times> bytes list, conn_error) result" where
  "event_parts cdc requests ev =
     (case ev of
        Message m \<Rightarrow> message_parts cdc m
      | RequestProcessed \<Rightarrow> Ok (Some MT_Request, map (request_encode cdc) requests)
      | RequestCreated \<Rightarrow> Ok (Some MT_Request, map (request_encode cdc) requests))"

definition wire_header :: "message_type \<Rightarrow> header" where
  "wire_header t = \<lparr>hdr_type = message_type_into t, hdr_compression = 0\<rparr>"

fun serialize_bodies :: "codec \<Rightarrow> header \<Rightarrow> bytes list \<Rightarrow> (bytes, conn_error) result" where
  "serialize_bodies cdc header [] = Ok []"
| "serialize_bodies cdc header (body # bodies) =
     and_then (serialize_message cdc header body) (\<lambda>data.
     map_ok (\<lambda>rest. data @ rest) (serialize_bodies cdc header bodies))"

definition event_data ::
    "codec \<Rightarrow> request list \<Rightarrow> grizol_event \<Rightarrow> (bytes, conn_error) result" where
  "event_data cdc requests ev =
     and_then (event_parts cdc requests ev) (\<lambda>(message_type, bodies).
     case message_type of
       Some t \<Rightarrow> serialize_bodies cdc (wire_header t) bodies
     | None \<Rightarrow> (case bodies of [] \<Rightarrow> Panic | body # _ \<Rightarrow> serialize_hello body))"

fun events_data :: "codec \<Rightarrow> (grizol_event \<times> request list) list \<Rightarrow> (bytes, conn_error) result" where
  "events_data cdc [] = Ok []"
| "events_data cdc ((ev, requests) # evs) =
     and_then (event_data cdc requests ev) (\<lambda>data.
     map_ok (\<lambda>rest. data @ rest) (events_data cdc evs))"

text \<open>
  The reading task: an empty read ends it with \<^verbatim>\<open>UnexpectedEof\<close>, a parse error makes the
  \<^verbatim>\<open>unwrap\<close> panic.  The result pairs the messages handed over so far with the way the task
  ends (\<open>Ok\<close> when it waits for more bytes).
\<close>

fun read_loop ::
    "codec \<Rightarrow> bep_data_parser \<Rightarrow> bytes list \<Rightarrow> complete_message list \<Rightarrow>
     (complete_message list \<times> (bep_data_parser, conn_error) result) option" where
  "read_loop cdc p [] ms = Some (ms, Ok p)"
| "read_loop cdc p (buf # bufs) ms =
     (if buf = [] then Some (ms, Err UnexpectedEof)
      else case parse_incoming_data cdc p buf of
             Some (Ok (p', complete_messages)) \<Rightarrow> read_loop cdc p' bufs (ms @ complete_messages)
           | Some _ \<Rightarrow> Some (ms, Panic)
           | None \<Rightarrow> None)"

section \<open>Reading\<close>

lemma parse_incoming_data_append:
  assumes "parser_wf p"
  shows "parse_incoming_data cdc p (a @ b) =
    (case parse_incoming_data cdc p a of
       Some (Ok (p', ms)) \<Rightarrow>
         map_option (map_ok (\<lambda>(p'', ms'). (p'', ms @ ms'))) (parse_incoming_data cdc p' b)
     | r \<Rightarrow> r)"
proof -
  obtain r where r: "parse_loop cdc p a [] = Some r"
    and wf: "\<And>p' ms. r = Ok (p', ms) \<Longrightarrow> parser_wf p'"
    using parse_loop_total [OF assms] by blast
  show ?thesis
  proof (cases r)
    case (Ok pm)
    obtain p' ms where pm: "pm = (p', ms)" by (cases pm)
    have "parser_wf p'" using wf Ok pm by blast
    from parse_loop_accumulator [OF this, of cdc b ms "[]"] show ?thesis
      using r Ok pm by (simp add: parse_incoming_data_def parse_loop_append [OF assms])
  qed (use r in \<open>simp_all add: parse_incoming_data_def parse_loop_append [OF assms]\<close>)
qed

lemma read_loop_concat:
  assumes "parser_wf p" and "\<forall>buf \<in> set bufs. buf \<noteq> []"
    and "parse_incoming_data cdc p (concat bufs) = Some (Ok (p', ms))"
  shows "read_loop cdc p bufs pre = Some (pre @ ms, Ok p')"
  using assms
proof (induction bufs arbitrary: p pre ms)
  case Nil
  then show ?case by (simp add: parse_incoming_data_def)
next
  case (Cons buf bufs)
  obtain r where r: "parse_loop cdc p buf [] = Some r"
    and wf: "\<And>p' ms. r = Ok (p', ms) \<Longrightarrow> parser_wf p'"
    using parse_loop_total [OF Cons.prems(1)] by blast
  then obtain p1 ms1 where first: "parse_incoming_data cdc p buf = Some (Ok (p1, ms1))"
    and "parser_wf p1"
    using Cons.prems(3) parse_incoming_data_append [OF Cons.prems(1), of cdc buf "concat bufs"]
    by (cases r) (auto simp: parse_incoming_data_def)
  moreover obtain ms2 where "parse_incoming_data cdc p1 (concat bufs) = Some (Ok (p', ms2))"
    and "ms = ms1 @ ms2"
    using Cons.prems(3) first
    by (auto simp: parse_incoming_data_append [OF Cons.prems(1)])
  ultimately show ?case
    using Cons by simp
qed

section \<open>Writing and reading back\<close>

definition fits :: "codec \<Rightarrow> complete_message \<Rightarrow> bool" where
  "fits cdc m =
     (case m of
        Hello h \<Rightarrow> length (hello_encode cdc h) < 2 ^ 16
      | ClusterConfig x \<Rightarrow> length (cluster_config_encode cdc x) < 2 ^ 32
      | Index x \<Rightarrow> length (index_encode cdc x) < 2 ^ 32
      | IndexUpdate x \<Rightarrow> length (index_update_encode cdc x) < 2 ^ 32
      | Request x \<Rightarrow> length (request_encode cdc x) < 2 ^ 32
      | Response x \<Rightarrow> length (response_encode cdc x) < 2 ^ 32
      | DownloadProgress x \<Rightarrow> length (download_progress_encode cdc x) < 2 ^ 32
      | Ping \<Rightarrow> length (ping_encode cdc) < 2 ^ 32
      | Close x \<Rightarrow> length (close_encode cdc x) < 2 ^ 32)"

text \<open>The messages an event stands for on the wire.\<close>

fun event_messages :: "grizol_event \<times> request list \<Rightarrow> complete_message list" where
  "event_messages (Message m, requests) = [m]"
| "event_messages (_, requests) = map Request requests"

definition is_hello :: "complete_message \<Rightarrow> bool" where
  "is_hello m = (case m of Hello _ \<Rightarrow> True | _ \<Rightarrow> False)"

definition is_request :: "complete_message \<Rightarrow> bool" where
  "is_request m = (case m of Request _ \<Rightarrow> True | _ \<Rightarrow> False)"

locale prost_codec =
  fixes cdc :: codec and msgs :: "complete_message set"
  assumes header_coder: "header_decode cdc (header_encode cdc (wire_header t)) = Some (wire_header t)"
    and header_short: "length (header_encode cdc (wire_header t)) < 2 ^ 16"
    and hello_coder: "Hello h \<in> msgs \<Longrightarrow> hello_decode cdc (hello_encode cdc h) = Some h"
    and cluster_config_coder: "ClusterConfig c \<in> msgs \<Longrightarrow>
      cluster_config_decode cdc (cluster_config_encode cdc c) = Some c"
    and index_coder: "Index i \<in> msgs \<Longrightarrow> index_decode cdc (index_encode cdc i) = Some i"
    and index_update_coder: "IndexUpdate u \<in> msgs \<Longrightarrow>
      index_update_decode cdc (index_update_encode cdc u) = Some u"
    and request_coder: "Request r \<in> msgs \<Longrightarrow> request_decode cdc (request_encode cdc r) = Some r"
    and response_coder: "Response s \<in> msgs \<Longrightarrow> response_decode cdc (response_encode cdc s) = Some s"
    and download_progress_coder: "DownloadProgress d \<in> msgs \<Longrightarrow>
      download_progress_decode cdc (download_progress_encode cdc d) = Some d"
    and ping_coder: "Ping \<in> msgs \<Longrightarrow> ping_decode cdc (ping_encode cdc) = Some ()"
    and close_coder: "Close x \<in> msgs \<Longrightarrow> close_decode cdc (close_encode cdc x) = Some x"
begin

lemmas coders = cluster_config_coder index_coder index_update_coder request_coder response_coder
  download_progress_coder ping_coder close_coder

lemma serialize_message_frame:
  "length body < 2 ^ 32 \<Longrightarrow>
   serialize_message cdc (wire_header t) body = Ok (frame (header_encode cdc (wire_header t)) body)"
  using header_short by (simp add: serialize_message_def frame_def Let_def)

lemma parse_serialized:
  assumes "length body < 2 ^ 32" and "decode_body cdc t body = Ok m"
    and "serialize_message cdc (wire_header t) body = Ok data"
  shows "parse_loop cdc parser_ready data res = Some (Ok (parser_ready, res @ [m]))"
  using assms header_short [of t] header_coder [of t] serialize_message_frame [of body t]
    parse_frame [where t = t and h = "wire_header t" and hb = "header_encode cdc (wire_header t)"
      and body = body and cdc = cdc and res = res]
  by (simp add: wire_header_def)

lemma event_data_message:
  assumes "m \<in> msgs" and "fits cdc m" and "\<not> is_hello m" and "\<not> is_request m"
  obtains t body data where "event_parts cdc requests (Message m) = Ok (Some t, [body])"
    and "length body < 2 ^ 32" and "decode_body cdc t body = Ok m"
  using assms
  by (cases m) (auto simp: event_parts_def message_parts_def fits_def is_hello_def is_request_def
      decode_body_def coders)

lemma parse_requests:
  assumes "\<forall>r \<in> set rs. Request r \<in> msgs \<and> fits cdc (Request r)"
  obtains data where "serialize_bodies cdc (wire_header MT_Request) (map (request_encode cdc) rs) = Ok data"
    and "\<And>res. parse_loop cdc parser_ready data res =
           Some (Ok (parser_ready, res @ map Request rs))"
  using assms
proof (induction rs arbitrary: thesis)
  case Nil
  then show ?case by simp
next
  case (Cons r rs)
  then obtain data where data:
    "serialize_bodies cdc (wire_header MT_Request) (map (request_encode cdc) rs) = Ok data"
    "\<And>res. parse_loop cdc parser_ready data res = Some (Ok (parser_ready, res @ map Request rs))"
    by auto
  have r: "Request r \<in> msgs" "length (request_encode cdc r) < 2 ^ 32"
    using Cons.prems(2) by (auto simp: fits_def)
  note ser = serialize_message_frame [OF r(2), of MT_Request]
  have "parse_loop cdc parser_ready (frame (header_encode cdc (wire_header MT_Request))
      (request_encode cdc r) @ data) res = Some (Ok (parser_ready, res @ map Request (r # rs)))" for res
    using parse_serialized [OF r(2) _ ser, of "Request r"] request_coder [OF r(1)] data(2)
    by (simp add: parse_loop_append [OF parser_ready_wf] decode_body_def)
  then show ?case
    using Cons.prems(1) data(1) ser by simp
qed

lemma parse_event:
  assumes "\<forall>m \<in> set (event_messages (ev, rs)). m \<in> msgs \<and> fits cdc m \<and> \<not> is_hello m"
    and "\<forall>m. ev = Message m \<longrightarrow> \<not> is_request m"
  obtains data where "event_data cdc rs ev = Ok data"
    and "\<And>res. parse_loop cdc parser_ready data res =
           Some (Ok (parser_ready, res @ event_messages (ev, rs)))"
proof (cases ev)
  case (Message m)
  with assms obtain t body where parts: "event_parts cdc rs (Message m) = Ok (Some t, [body])"
    and body: "length body < 2 ^ 32" "decode_body cdc t body = Ok m"
    using event_data_message [of m rs] by auto
  note ser = serialize_message_frame [OF body(1), of t]
  show thesis
    by (rule that [of "frame (header_encode cdc (wire_header t)) body"])
       (use Message parts ser parse_serialized [OF body ser] in \<open>simp_all add: event_data_def\<close>)
next
  case RequestProcessed
  with assms that show thesis
    using parse_requests [of rs] by (auto simp: event_data_def event_parts_def)
next
  case RequestCreated
  with assms that show thesis
    using parse_requests [of rs] by (auto simp: event_data_def event_parts_def)
qed

lemma parse_events:
  assumes "\<forall>m \<in> set (concat (map event_messages evs)). m \<in> msgs \<and> fits cdc m \<and> \<not> is_hello m"
    and "\<forall>(ev, rs) \<in> set evs. \<forall>m. ev = Message m \<longrightarrow> \<not> is_request m"
  obtains data where "events_data cdc evs = Ok data"
    and "\<And>res. parse_loop cdc parser_ready data res =
           Some (Ok (parser_ready, res @ concat (map event_messages evs)))"
  using assms
proof (induction evs arbitrary: thesis)
  case Nil
  then show ?case by simp
next
  case (Cons e evs)
  obtain ev rs where e: "e = (ev, rs)" by (cases e)
  obtain data where data: "events_data cdc evs = Ok data"
    "\<And>res. parse_loop cdc parser_ready data res =
       Some (Ok (parser_ready, res @ concat (map event_messages evs)))"
    using Cons.IH Cons.prems(2,3) by auto
  obtain first where first: "event_data cdc rs ev = Ok first"
    "\<And>res. parse_loop cdc parser_ready first res =
       Some (Ok (parser_ready, res @ event_messages (ev, rs)))"
    using parse_event [of ev rs] Cons.prems(2,3) by (auto simp: e)
  show ?case
    by (rule Cons.prems(1) [of "first @ data"])
       (simp_all add: e data first parse_loop_append [OF parser_ready_wf])
qed

lemma parse_connection:
  assumes "Hello h \<in> msgs" and "fits cdc (Hello h)"
    and "\<forall>m \<in> set (concat (map event_messages evs)). m \<in> msgs \<and> fits cdc m \<and> \<not> is_hello m"
    and "\<forall>(ev, rs) \<in> set evs. \<forall>m. ev = Message m \<longrightarrow> \<not> is_request m"
  obtains data where "events_data cdc ((Message (Hello h), []) # evs) = Ok data"
    and "parse_incoming_data cdc bep_data_parser_new data =
           Some (Ok (parser_ready, Hello h # concat (map event_messages evs)))"
proof -
  obtain data where data: "events_data cdc evs = Ok data"
    "\<And>res. parse_loop cdc parser_ready data res =
       Some (Ok (parser_ready, res @ concat (map event_messages evs)))"
    using parse_events [OF assms(3,4)] by blast
  let ?hb = "hello_encode cdc h"
  have len: "length ?hb < 65536" using assms(2) by (simp add: fits_def)
  have "event_data cdc [] (Message (Hello h)) = Ok (MAGIC_NUMBER @ to_be_bytes 2 (length ?hb) @ ?hb)"
    using len by (simp add: event_data_def event_parts_def message_parts_def serialize_hello_def)
  moreover have "parse_loop cdc bep_data_parser_new
      ((MAGIC_NUMBER @ to_be_bytes 2 (length ?hb) @ ?hb) @ data) [] =
      Some (Ok (parser_ready, Hello h # concat (map event_messages evs)))"
    using parse_hello [OF len hello_coder [OF assms(1)], of "[]"] data(2)
    by (subst parse_loop_append [OF parser_wf_initial]) simp
  ultimately show thesis
    using that data(1) by (simp add: parse_incoming_data_def)
qed

end

end
