(* ===== verification/State_Consistency.thy ===== *)
theory State_Consistency
  imports Bep_State
begin

text \<open>
  The tables, the sequences and the indices in memory belong together: \<open>state_wf\<close> is the invariant
  of the tables with the sequences, \<open>coherent\<close> says that an index in memory has the files of the tables.
  The operations that write files are shown to keep both and to change exactly what they should, and
  the bookkeeping of stored blocks is related to the blocks of a file.
\<close>

section \<open>Writing files keeps memory and tables in step\<close>

text \<open>An index in memory has the files that the tables have.\<close>

definition coherent :: "bep_state \<Rightarrow> bool" where
  "coherent st \<longleftrightarrow>
     indices_wf (bs_indices st) \<and>
     (\<forall>folder dev idx. indices_index (bs_indices st) \<lparr>fd_folder = folder, fd_device_id = dev\<rparr> = Some idx \<longrightarrow>
        idx_folder idx = folder \<and> (\<forall>n. file_named idx n = file_at (bs_db st) (folder, dev, n)))"

lemma numbered_insertable:
  assumes "state_wf st" and "\<forall>f \<in> set fs. storable f" and "(folder, dev) \<in> set (db_index (bs_db st))"
  shows "\<forall>f \<in> set (numbered (last_sequence st) fs). insertable folder dev (bs_db st) f"
  using numbered_storable [OF assms(2)] numbered_fresh assms(1,3)
  by (fastforce simp: insertable_def state_wf_def)

lemma state_wf_after_write:
  assumes "db_wf d'" and "\<forall>s \<in> sequences d'. s \<le> last_sequence st + int n"
  shows "state_wf (if n = 0 then st\<lparr>bs_db := d', bs_indices := x\<rparr>
     else st\<lparr>bs_sequence := Some (last_sequence st + int n), bs_db := d', bs_indices := x\<rparr>)"
  using assms max_sequence_bound [of _ d']
  by (fastforce simp: state_wf_def last_sequence_def split: option.splits)

lemma sequences_file_at:
  assumes "db_wf d"
  shows "s \<in> sequences d \<longleftrightarrow> (\<exists>k f. file_at d k = Some f \<and> fi_sequence f = s)"
proof
  assume "s \<in> sequences d"
  then obtain r where r: "r \<in> set (db_files d)" "fi_sequence (fr_info r) = s" by (auto simp: sequences_def)
  then have "find (\<lambda>x. fr_key x = fr_key r) (db_files d) = Some r"
    using assms find_key [of "db_files d" "fr_key r" r] by (simp add: db_wf_def)
  then show "\<exists>k f. file_at d k = Some f \<and> fi_sequence f = s"
    using r(2) by (intro exI [of _ "fr_key r"]) (simp add: file_at_def stored_file_def)
next
  assume "\<exists>k f. file_at d k = Some f \<and> fi_sequence f = s"
  then show "s \<in> sequences d"
    by (auto simp: file_at_def sequences_def stored_file_def dest!: find_SomeD)
qed

lemma written_sequences:
  assumes "state_wf st" and "db_wf d'"
    and "\<And>k f. file_at d' k = Some f \<Longrightarrow> file_at (bs_db st) k = Some f \<or> f \<in> set (numbered (last_sequence st) fs)"
  shows "\<forall>s \<in> sequences d'. s \<le> last_sequence st + int (length fs)"
proof
  fix s assume "s \<in> sequences d'"
  then obtain k f where f: "file_at d' k = Some f" "fi_sequence f = s"
    using sequences_file_at [OF assms(2)] by blast
  from assms(3) [OF f(1)] show "s \<le> last_sequence st + int (length fs)"
  proof
    assume "file_at (bs_db st) k = Some f"
    then have "s \<in> sequences (bs_db st)"
      using assms(1) f(2) unfolding state_wf_def by (metis sequences_file_at)
    then show ?thesis using assms(1) by (force simp: state_wf_def)
  qed (use f(2) numbered_fresh in auto)
qed

text \<open>Replacing the index of a folder and a device.\<close>

lemma map_of_keyed:
  "map_of (map (\<lambda>f. ((folder, dev, fi_name f), f)) fs) k =
     (if in_folder folder dev k then map_of (map (\<lambda>f. (fi_name f, f)) fs) (snd (snd k)) else None)"
  by (cases k, induction fs) (auto simp: in_folder_def)

lemma map_of_keyed_rev:
  "map_of (rev (map (\<lambda>f. ((folder, dev, fi_name f), f)) fs)) k =
     (if in_folder folder dev k then map_of (rev (map (\<lambda>f. (fi_name f, f)) fs)) (snd (snd k)) else None)"
  using map_of_keyed [of folder dev "rev fs"] by (simp add: rev_map)

lemma replace_index_spec:
  assumes "state_wf st" and "(idx_folder idx, dev) \<in> set (db_index (bs_db st))"
    and "\<forall>f \<in> set (idx_files idx). storable f" and "distinct (map fi_name (idx_files idx))"
    and "last_sequence st + int (length (idx_files idx)) < 2 ^ 63"
  shows "\<exists>st'. replace_index st idx dev = Ok st' \<and> state_wf st' \<and> bs_outgoing st' = bs_outgoing st \<and>
    bs_request_id st' = bs_request_id st \<and>
    bs_indices st' = fst (indices_insert (bs_indices st) dev
      (idx\<lparr>idx_files := numbered (last_sequence st) (idx_files idx)\<rparr>)) \<and>
    (\<forall>k. file_at (bs_db st') k =
       (if in_folder (idx_folder idx) dev k
        then file_named (idx\<lparr>idx_files := numbered (last_sequence st) (idx_files idx)\<rparr>) (snd (snd k))
        else file_at (bs_db st) k))"
proof -
  let ?fs = "numbered (last_sequence st) (idx_files idx)"
  let ?P = "in_folder (idx_folder idx) dev"
  let ?d = "delete_files ?P (bs_db st)"
  let ?key = "\<lambda>f. (idx_folder idx, dev, fi_name f)"
  have wf: "db_wf (bs_db st)" using assms(1) by (simp add: state_wf_def)
  have ready: "\<forall>f \<in> set ?fs. insertable (idx_folder idx) dev ?d f \<and> file_at ?d (?key f) = None"
    using numbered_insertable [OF assms(1,3,2)]
    by (simp add: insertable_delete file_at_delete in_folder_def)
  have keys: "distinct (map ?key ?fs)"
    using assms(4) by (simp add: distinct_map inj_on_def) (metis distinct_map inj_on_def numbered_names)
  obtain d' where d': "for_each ?fs (insert_file True (idx_folder idx) dev) ?d = Ok d'" "db_wf d'"
    "file_at d' = file_at ?d ++ map_of (map (\<lambda>f. (?key f, f)) ?fs)"
    using file_rows.put_all [OF delete_files_wf [OF wf] ready keys distinct_numbered] by blast
  have names: "distinct (map fst (map (\<lambda>f. (fi_name f, f)) ?fs))"
    using assms(4) by (simp add: comp_def)
  have look: "file_at d' k = (if in_folder (idx_folder idx) dev k
      then file_named (idx\<lparr>idx_files := ?fs\<rparr>) (snd (snd k)) else file_at (bs_db st) k)" for k
    using map_of_rev_distinct [OF names]
    by (simp add: d'(3) map_add_def map_of_keyed file_at_delete file_named_def split: option.splits)
  have "file_at (bs_db st) k = Some f \<or> f \<in> set ?fs" if "file_at d' k = Some f" for k f
    using that look [of k] by (auto simp: file_named_def split: if_splits dest!: map_of_SomeD)
  then have seqs: "\<forall>s \<in> sequences d'. s \<le> last_sequence st + int (length (idx_files idx))"
    by (rule written_sequences [OF assms(1) d'(2)])
  show ?thesis
    using d'(1) look state_wf_after_write [OF d'(2) seqs]
    by (auto simp: replace_index_def assign_sequences_eq [OF assms(5)])
qed

lemma file_named_numbered_cong:
  "file_named (idx\<lparr>idx_folder := x\<rparr>) n = file_named idx n"
  by (simp add: file_named_def)

lemma coherent_indices_insert:
  assumes "coherent st" and "indices' = fst (indices_insert (bs_indices st) dev idx)"
    and "bs_indices st' = indices'"
    and "\<And>n. file_at (bs_db st') (idx_folder idx, dev, n) = file_named idx n"
    and "\<And>k. \<not> in_folder (idx_folder idx) dev k \<Longrightarrow> file_at (bs_db st') k = file_at (bs_db st) k"
  shows "coherent st'"
proof -
  have wf: "indices_wf (bs_indices st)" using assms(1) by (simp add: coherent_def)
  obtain old where ins: "indices_insert (bs_indices st) dev idx = (indices', old)"
    using assms(2) by (cases "indices_insert (bs_indices st) dev idx") auto
  note spec = indices_insert_lookup [OF wf ins]
  show ?thesis
    unfolding coherent_def assms(3)
  proof (intro conjI allI impI)
    show "indices_wf indices'" using spec by blast
    fix folder d i n
    assume i: "indices_index indices' \<lparr>fd_folder = folder, fd_device_id = d\<rparr> = Some i"
    show "idx_folder i = folder" and "file_named i n = file_at (bs_db st') (folder, d, n)"
    proof (atomize (full), cases "folder = idx_folder idx \<and> d = dev")
      case True
      then show "idx_folder i = folder \<and> file_named i n = file_at (bs_db st') (folder, d, n)"
        using spec i assms(4) by auto
    next
      case False
      then have "indices_index (bs_indices st) \<lparr>fd_folder = folder, fd_device_id = d\<rparr> = Some i"
        using spec i by auto
      moreover have "\<not> in_folder (idx_folder idx) dev (folder, d, n)"
        using False by (auto simp: in_folder_def)
      ultimately show "idx_folder i = folder \<and> file_named i n = file_at (bs_db st') (folder, d, n)"
        using assms(1) assms(5) by (auto simp: coherent_def)
    qed
  qed
qed

lemma replace_index_coherent:
  assumes "coherent st" and "state_wf st" and "(idx_folder idx, dev) \<in> set (db_index (bs_db st))"
    and "\<forall>f \<in> set (idx_files idx). storable f" and "distinct (map fi_name (idx_files idx))"
    and "last_sequence st + int (length (idx_files idx)) < 2 ^ 63"
    and "replace_index st idx dev = Ok st'"
  shows "coherent st'"
proof -
  note spec = replace_index_spec [OF assms(2-6)]
  let ?idx = "idx\<lparr>idx_files := numbered (last_sequence st) (idx_files idx)\<rparr>"
  show ?thesis
    by (rule coherent_indices_insert [OF assms(1), where idx = ?idx and dev = dev])
       (use spec assms(7) in \<open>auto simp: in_folder_def\<close>)
qed

lemma bep_index_spec:
  assumes "coherent st" and "state_wf st" and "bep_index st folder dev = (st', res)"
  shows "coherent st'" and "bs_db st' = bs_db st"
    and "\<exists>idx. res = Some idx \<and> idx_folder idx = folder \<and>
      (\<forall>n. file_named idx n = file_at (bs_db st) (folder, dev, n))"
proof -
  have wf: "db_wf (bs_db st)" using assms(2) by (simp add: state_wf_def)
  let ?k = "\<lparr>fd_folder = folder, fd_device_id = dev\<rparr>"
  let ?idx = "index_from_db (bs_db st) folder dev"
  have folder: "idx_folder ?idx = folder" by (simp add: index_from_db_eq [OF wf])
  have "coherent st' \<and> bs_db st' = bs_db st \<and> (\<exists>idx. res = Some idx \<and> idx_folder idx = folder \<and>
      (\<forall>n. file_named idx n = file_at (bs_db st) (folder, dev, n)))"
  proof (cases "indices_index (bs_indices st) ?k")
    case None
    then have st': "st' = st\<lparr>bs_indices := fst (indices_insert (bs_indices st) dev ?idx)\<rparr>" "res = Some ?idx"
      using assms(3) by (simp_all add: bep_index_def Let_def)
    moreover have "coherent st'"
      by (rule coherent_indices_insert [OF assms(1), where idx = ?idx and dev = dev])
         (simp_all add: st' folder file_named_from_db [OF wf])
    ultimately show ?thesis
      using folder file_named_from_db [OF wf] by simp
  next
    case (Some idx)
    then have "st' = st" "res = Some idx" using assms(3) by (simp_all add: bep_index_def)
    moreover have "idx_folder idx = folder \<and> (\<forall>n. file_named idx n = file_at (bs_db st) (folder, dev, n))"
      using assms(1) Some unfolding coherent_def by blast
    ultimately show ?thesis using assms(1) by simp
  qed
  then show "coherent st'" and "bs_db st' = bs_db st"
    and "\<exists>idx. res = Some idx \<and> idx_folder idx = folder \<and>
      (\<forall>n. file_named idx n = file_at (bs_db st) (folder, dev, n))" by auto
qed

lemma replace_file_info_spec:
  assumes "state_wf st" and "(folder, dev) \<in> set (db_index (bs_db st))"
    and "\<forall>f \<in> set fs. storable f" and "last_sequence st + int (length fs) < 2 ^ 63"
    and "new = \<lparr>idx_folder = folder, idx_files = filter (\<lambda>f. \<not> fi_deleted f) (numbered (last_sequence st) fs)\<rparr>"
  shows "\<exists>st'. rm_replace_file_info st folder dev fs = Ok st' \<and> state_wf st' \<and>
    bs_outgoing st' = bs_outgoing st \<and> bs_request_id st' = bs_request_id st \<and>
    bs_indices st' = indices_insert_file_info (bs_indices st) folder dev (idx_files new) \<and>
    (\<forall>k. file_at (bs_db st') k =
       (if in_folder folder dev k
        then (case file_named new (snd (snd k)) of None \<Rightarrow> file_at (bs_db st) k | Some f \<Rightarrow> Some f)
        else file_at (bs_db st) k))"
proof -
  let ?fs = "filter (\<lambda>f. \<not> fi_deleted f) (numbered (last_sequence st) fs)"
  let ?key = "\<lambda>f. (folder, dev, fi_name f)"
  have wf: "db_wf (bs_db st)" using assms(1) by (simp add: state_wf_def)
  have ready: "\<forall>f \<in> set ?fs. insertable folder dev (bs_db st) f"
    using numbered_insertable [OF assms(1,3,2)] by simp
  have seq: "distinct (map fi_sequence ?fs)"
    using distinct_numbered by (simp add: distinct_map_filter)
  obtain d' where d': "for_each ?fs (\<lambda>f d. insert_file False folder dev f (delete_files (\<lambda>k. k = ?key f) d)) (bs_db st) = Ok d'"
    "db_wf d'" "file_at d' = file_at (bs_db st) ++ map_of (rev (map (\<lambda>f. (?key f, f)) ?fs))"
    using file_rows.replace_all [OF wf ready seq, where lenient = False] by blast
  have look: "file_at d' k = (if in_folder folder dev k
      then (case file_named new (snd (snd k)) of None \<Rightarrow> file_at (bs_db st) k | Some f \<Rightarrow> Some f)
      else file_at (bs_db st) k)" for k
    by (simp add: d'(3) map_add_def map_of_keyed_rev file_named_def assms(5) split: option.splits)
  have "file_at (bs_db st) k = Some f \<or> f \<in> set (numbered (last_sequence st) fs)" if "file_at d' k = Some f" for k f
    using that look [of k]
    by (auto simp: file_named_def assms(5) split: if_splits option.splits dest!: map_of_SomeD)
  then have seqs: "\<forall>s \<in> sequences d'. s \<le> last_sequence st + int (length fs)"
    by (rule written_sequences [OF assms(1) d'(2)])
  show ?thesis
    using d'(1) look state_wf_after_write [OF d'(2) seqs] assms(5)
    by (auto simp: rm_replace_file_info_def replace_file_info_def assign_sequences_eq [OF assms(4)])
qed

lemma rm_replace_coherent:
  assumes "coherent st" and "state_wf st" and "(folder, dev) \<in> set (db_index (bs_db st))"
    and "\<forall>f \<in> set fs. storable f" and "last_sequence st + int (length fs) < 2 ^ 63"
    and "indices_index (bs_indices st) \<lparr>fd_folder = folder, fd_device_id = dev\<rparr> \<noteq> None"
    and "rm_replace_file_info st folder dev fs = Ok st'"
  shows "coherent st'"
proof -
  let ?k = "\<lparr>fd_folder = folder, fd_device_id = dev\<rparr>"
  define new where "new = \<lparr>idx_folder = folder, idx_files = filter (\<lambda>f. \<not> fi_deleted f) (numbered (last_sequence st) fs)\<rparr>"
  have st': "bs_indices st' = indices_insert_file_info (bs_indices st) folder dev (idx_files new)"
    "\<And>k. file_at (bs_db st') k = (if in_folder folder dev k
        then (case file_named new (snd (snd k)) of None \<Rightarrow> file_at (bs_db st) k | Some f \<Rightarrow> Some f)
        else file_at (bs_db st) k)"
    using replace_file_info_spec [OF assms(2-5) new_def] assms(7) by auto
  have wf: "indices_wf (bs_indices st)" using assms(1) by (simp add: coherent_def)
  obtain idx where idx: "indices_index (bs_indices st) ?k = Some idx" using assms(6) by blast
  have old: "idx_folder idx = folder" "\<And>n. file_named idx n = file_at (bs_db st) (folder, dev, n)"
    using assms(1) idx unfolding coherent_def by blast+
  have new: "new = \<lparr>idx_folder = folder, idx_files = idx_files new\<rparr>" by (simp add: new_def)
  note look = insert_file_info_lookup [OF wf, of ?k folder dev "idx_files new", OF refl]
  have other: "indices_index (bs_indices st') k = indices_index (bs_indices st) k" if "k \<noteq> ?k" for k
    using that by (simp add: st'(1) indices_insert_file_info_def index_update Let_def)
  show ?thesis
    unfolding coherent_def
  proof (intro conjI allI impI)
    show "indices_wf (bs_indices st')" using look st'(1) by simp
    fix fo d i n assume i: "indices_index (bs_indices st') \<lparr>fd_folder = fo, fd_device_id = d\<rparr> = Some i"
    show "idx_folder i = fo" and "file_named i n = file_at (bs_db st') (fo, d, n)"
    proof (atomize (full), cases "fo = folder \<and> d = dev")
      case True
      then show "idx_folder i = fo \<and> file_named i n = file_at (bs_db st') (fo, d, n)"
        using look i idx old st' new by (auto simp: in_folder_def split: option.splits)
    next
      case False
      then have "indices_index (bs_indices st) \<lparr>fd_folder = fo, fd_device_id = d\<rparr> = Some i"
        using other [of "\<lparr>fd_folder = fo, fd_device_id = d\<rparr>"] i by auto
      then show "idx_folder i = fo \<and> file_named i n = file_at (bs_db st') (fo, d, n)"
        using assms(1) False st'(2) by (auto simp: coherent_def in_folder_def)
    qed
  qed
qed

section \<open>Stored blocks\<close>

lemma for_each_blocks_mono:
  "for_each bs (insert_block lenient k) d = Ok d' \<Longrightarrow> set (db_blocks d) \<subseteq> set (db_blocks d')"
proof (induction bs arbitrary: d)
  case (Cons b bs)
  then obtain d1 where "insert_block lenient k b d = Ok d1" "for_each bs (insert_block lenient k) d1 = Ok d'"
    by auto
  moreover from this(1) have "set (db_blocks d) \<subseteq> set (db_blocks d1)"
    by (auto simp: insert_block_def Let_def split: if_splits)
  ultimately show ?case using Cons.IH by blast
qed simp

lemma for_each_versions_blocks:
  "for_each cs (insert_version k) d = Ok d' \<Longrightarrow> db_blocks d' = db_blocks d"
proof (induction cs arbitrary: d)
  case (Cons c cs)
  then obtain d1 where "insert_version k c d = Ok d1" "for_each cs (insert_version k) d1 = Ok d'"
    by auto
  moreover from this(1) have "db_blocks d1 = db_blocks d"
    by (auto simp: insert_version_def Let_def split: if_splits)
  ultimately show ?case using Cons.IH by simp
qed simp

lemma insert_file_keeps_blocks:
  assumes "insert_file lenient folder dev f d = Ok d'"
  shows "set (db_blocks d) \<subseteq> set (db_blocks d')"
proof -
  obtain d1 d2 and v :: version_vector where "upsert_file (folder, dev, fi_name f) f d = Ok d1"
    "for_each (vec_counters v) (insert_version (folder, dev, fi_name f)) d1 = Ok d2"
    "for_each (fi_blocks f) (insert_block lenient (folder, dev, fi_name f)) d2 = Ok d'"
    using assms by (auto simp: insert_file_def Let_def)
  moreover from this(1) have "db_blocks d1 = db_blocks d"
    by (auto simp: upsert_file_def split: if_splits)
  ultimately show ?thesis
    using for_each_versions_blocks for_each_blocks_mono by metis
qed

lemma assign_sequences_db: "assign_sequences st fs = Ok (st', fs') \<Longrightarrow> bs_db st' = bs_db st"
  by (induction fs arbitrary: st st' fs')
     (fastforce simp: next_sequence_id_def Let_def split: option.splits if_splits)+

lemma insert_file_info_keeps:
  assumes "insert_file_info st folder dev fs = Ok st'"
  shows "set (db_blocks (bs_db st)) \<subseteq> set (db_blocks (bs_db st'))"
proof -
  obtain st1 files d where assign: "assign_sequences st fs = Ok (st1, files)"
    and each: "for_each files (insert_file True folder dev) (bs_db st1) = Ok d" and st': "bs_db st' = d"
    using assms by (auto simp: insert_file_info_def)
  from assign have "bs_db st1 = bs_db st" by (rule assign_sequences_db)
  with each have "set (db_blocks (bs_db st)) \<subseteq> set (db_blocks d)"
    using for_each_invariant [OF each, where P = "\<lambda>d. set (db_blocks (bs_db st)) \<subseteq> set (db_blocks d)"]
      insert_file_keeps_blocks by (metis subset_refl subset_trans)
  with st' show ?thesis by simp
qed

definition block_rows :: "db \<Rightarrow> file_key \<Rightarrow> block_row list" where
  "block_rows d k = filter (\<lambda>r. br_key r = k) (db_blocks d)"

lemma block_rows_marked:
  "block_rows (mark_stored k h d) k = map (\<lambda>r. if bi_hash (br_block r) = h then r\<lparr>br_status := 1\<rparr> else r) (block_rows d k)"
  by (auto simp: block_rows_def mark_stored_def filter_map comp_def intro!: map_cong filter_cong)

lemma filter_length_all: "length (filter P xs) = length xs \<longleftrightarrow> (\<forall>x \<in> set xs. P x)"
proof (induction xs)
  case (Cons x xs)
  have "length (filter P xs) \<noteq> Suc (length xs)"
    using length_filter_le [of P xs] by linarith
  with Cons show ?case by auto
qed simp

lemma stored_count_rows: "stored_count k d = int (length (filter (\<lambda>b. br_status b = 1) (block_rows d k)))"
  by (simp add: stored_count_def block_rows_def conj_commute)

lemma update_block_storage_state_eq:
  assumes "get_request (bs_outgoing st) i = Some r" and "k = (req_folder r, dev, req_name r)"
    and "find (\<lambda>f. fr_key f = k) (db_files (bs_db st)) = Some f" and "expected_blocks (fr_info f) = Ok n"
    and "b \<in> set (block_rows (bs_db st) k)" and "bi_hash (br_block b) = req_hash r"
    and "stored = stored_count k (mark_stored k (req_hash r) (bs_db st))"
  shows "update_block_storage_state st i dev =
    Ok (st\<lparr>bs_db := mark_stored k (req_hash r) (bs_db st)\<rparr>,
        if stored = n then Ok AllBlocks else if stored < n then Ok BlocksMissing else Err TooManyBlocks)"
proof -
  let ?d = "mark_stored k (req_hash r) (bs_db st)"
  have "b\<lparr>br_status := 1\<rparr> \<in> set (block_rows ?d k)"
    using assms(5,6) by (force simp: block_rows_marked)
  then have "filter (\<lambda>b. br_status b = 1) (block_rows ?d k) \<noteq> []"
    by (force simp: filter_empty_conv)
  then have "stored \<noteq> 0" using assms(7) by (simp add: stored_count_rows)
  moreover have "db_files ?d = db_files (bs_db st)" by (simp add: mark_stored_def)
  ultimately show ?thesis
    using assms(1-4,7) by (simp add: update_block_storage_state_def Let_def)
qed

section \<open>Sample states\<close>

definition sample_block :: "int \<Rightarrow> block_info" where
  "sample_block off = \<lparr>bi_offset = off, bi_size = 5, bi_hash = replicate 32 7, bi_weak_hash = 0\<rparr>"

definition sample_row :: "int \<Rightarrow> file_row" where
  "sample_row sz = \<lparr>fr_rowid = 1, fr_key = (''f'', sample_device, ''a''),
     fr_info = columns_of (sample_file\<lparr>fi_size := sz\<rparr>)\<rparr>"

definition sample_db :: "int \<Rightarrow> block_info list \<Rightarrow> db" where
  "sample_db sz bs = db_empty\<lparr>db_index := [(''f'', sample_device)], db_files := [sample_row sz],
     db_blocks := map (\<lambda>b. \<lparr>br_key = (''f'', sample_device, ''a''), br_block = b, br_status = 0\<rparr>) bs\<rparr>"

definition sample_state :: "int \<Rightarrow> block_info list \<Rightarrow> bep_state" where
  "sample_state sz bs = (bep_state_new (sample_db sz bs))\<lparr>bs_outgoing := small_queue\<rparr>"

definition fresh_state :: bep_state where
  "fresh_state = bep_state_new (db_empty\<lparr>db_index := [(''f'', sample_device)]\<rparr>)"

lemmas sample_state_defs = sample_state_def sample_db_def sample_row_def sample_block_def sample_file_def
  bep_state_new_def db_empty_def columns_of_def small_queue_def small_request_def get_request_def

lemma fresh_state_ok:
  "coherent fresh_state" "state_wf fresh_state" "last_sequence fresh_state = 0"
  "db_index (bs_db fresh_state) = [(''f'', sample_device)]" "db_wf (bs_db fresh_state)"
  by (simp_all add: fresh_state_def coherent_def state_wf_def sequences_def bep_state_new_def db_wf_def
      db_empty_def file_keys_def indices_wf_def grizol_indices_default_def indices_index_def
      last_sequence_def max_sequence_def)

lemma sample_file_storable: "storable sample_file"
  by (simp add: storable_def sample_file_def)

section \<open>Properties of the state\<close>

text \<open>
  Claim C10. Replacing the index of a folder and a device never panics for files that the schema
  accepts.  It numbers the files with fresh sequences, makes the tables hold exactly these files for
  the folder and the device and leaves all other files as they were, keeps the invariant of the
  tables, and keeps the indices in memory in step with the tables.
\<close>

theorem replace_index_correct:
  assumes "coherent st" and "state_wf st" and "(idx_folder idx, dev) \<in> set (db_index (bs_db st))"
    and "\<forall>f \<in> set (idx_files idx). storable f" and "distinct (map fi_name (idx_files idx))"
    and "last_sequence st + int (length (idx_files idx)) < 2 ^ 63"
  shows "\<exists>st' files. replace_index st idx dev = Ok st' \<and> state_wf st' \<and> coherent st' \<and>
    map (\<lambda>f. f\<lparr>fi_sequence := 0\<rparr>) files = map (\<lambda>f. f\<lparr>fi_sequence := 0\<rparr>) (idx_files idx) \<and>
    map fi_sequence files = map (\<lambda>i. last_sequence st + 1 + int i) [0..<length (idx_files idx)] \<and>
    (\<forall>k. file_at (bs_db st') k =
       (if in_folder (idx_folder idx) dev k then file_named (idx\<lparr>idx_files := files\<rparr>) (snd (snd k))
        else file_at (bs_db st) k))"
  using replace_index_spec [OF assms(2-6)] replace_index_coherent [OF assms] numbered_shape
    numbered_sequences by blast

theorem replace_index_correct_witness:
  "\<exists>st'. replace_index fresh_state \<lparr>idx_folder = ''f'', idx_files = [sample_file]\<rparr> sample_device = Ok st' \<and>
    state_wf st' \<and> coherent st'"
  using replace_index_correct [OF fresh_state_ok(1,2), of "\<lparr>idx_folder = ''f'', idx_files = [sample_file]\<rparr>" sample_device]
  by (auto simp: fresh_state_ok sample_file_storable)



text \<open>
  Claim C24. The loops over the rows of the left join and of the version join build the list of the
  stored files of the folder and the device: each file once, with all its blocks and all its
  counters.
\<close>

theorem index_from_db_correct:
  assumes "db_wf d"
  shows "index_from_db d folder dev =
    \<lparr>idx_folder = folder, idx_files = map (stored_file d)
       (filter (\<lambda>r. fst (fr_key r) = folder \<and> fst (snd (fr_key r)) = dev) (db_files d))\<rparr>"
  using index_from_db_eq [OF assms] by (simp add: folder_rows_def)

theorem index_from_db_correct_witness:
  "index_from_db (bs_db fresh_state) ''f'' sample_device = \<lparr>idx_folder = ''f'', idx_files = []\<rparr>"
  using index_from_db_correct [OF fresh_state_ok(5), of "''f''" sample_device]
  by (simp add: fresh_state_def bep_state_new_def db_empty_def)

text \<open>
  Claim C11. Replacing files of an index that is in memory makes the tables hold the new files that
  are not deleted, with fresh sequences, in place of the files of the same names, and nothing else
  changes; deleted files are ignored.  The invariants are kept and memory stays in step.
\<close>

theorem rm_replace_file_info_correct:
  assumes "coherent st" and "state_wf st" and "(folder, dev) \<in> set (db_index (bs_db st))"
    and "\<forall>f \<in> set fs. storable f" and "last_sequence st + int (length fs) < 2 ^ 63"
    and "indices_index (bs_indices st) \<lparr>fd_folder = folder, fd_device_id = dev\<rparr> \<noteq> None"
  shows "\<exists>st' files. rm_replace_file_info st folder dev fs = Ok st' \<and> state_wf st' \<and> coherent st' \<and>
    map (\<lambda>f. f\<lparr>fi_sequence := 0\<rparr>) files = map (\<lambda>f. f\<lparr>fi_sequence := 0\<rparr>) fs \<and>
    (\<forall>f \<in> set files. last_sequence st < fi_sequence f) \<and> distinct (map fi_sequence files) \<and>
    (\<forall>k. file_at (bs_db st') k =
       (if in_folder folder dev k
        then (case file_named \<lparr>idx_folder = folder, idx_files = filter (\<lambda>f. \<not> fi_deleted f) files\<rparr> (snd (snd k)) of
                None \<Rightarrow> file_at (bs_db st) k | Some f \<Rightarrow> Some f)
        else file_at (bs_db st) k))"
proof -
  let ?files = "numbered (last_sequence st) fs"
  obtain st' where st': "rm_replace_file_info st folder dev fs = Ok st'" "state_wf st'"
    "\<forall>k. file_at (bs_db st') k =
       (if in_folder folder dev k
        then (case file_named \<lparr>idx_folder = folder, idx_files = filter (\<lambda>f. \<not> fi_deleted f) ?files\<rparr> (snd (snd k)) of
                None \<Rightarrow> file_at (bs_db st) k | Some f \<Rightarrow> Some f)
        else file_at (bs_db st) k)"
    using replace_file_info_spec [OF assms(2-5) refl] by blast
  then show ?thesis
    using rm_replace_coherent [OF assms st'(1)] numbered_shape [of "last_sequence st" fs] distinct_numbered
      numbered_fresh by blast
qed

definition warm_state :: bep_state where
  "warm_state = fst (bep_index fresh_state ''f'' sample_device)"

theorem rm_replace_file_info_correct_witness:
  "\<exists>st'. rm_replace_file_info warm_state ''f'' sample_device [sample_file] = Ok st' \<and>
    state_wf st' \<and> coherent st'"
proof -
  obtain st' res where eq: "bep_index fresh_state ''f'' sample_device = (st', res)" by fastforce
  then have warm: "warm_state = st'" by (simp add: warm_state_def)
  have db: "bs_db warm_state = bs_db fresh_state"
    using bep_index_spec(2) [OF fresh_state_ok(1,2) eq] warm by simp
  have seq: "bs_sequence warm_state = bs_sequence fresh_state"
    by (simp add: warm_state_def bep_index_def Let_def split: option.split)
  have cached: "indices_index (bs_indices warm_state) \<lparr>fd_folder = ''f'', fd_device_id = sample_device\<rparr> \<noteq> None"
    by (simp add: warm_state_def bep_index_def fresh_state_def bep_state_new_def grizol_indices_default_def
        indices_index_def indices_insert_def Let_def index_from_db_def)
  have wf: "state_wf warm_state" and last: "last_sequence warm_state = 0"
    using fresh_state_ok(2,3) unfolding state_wf_def last_sequence_def db seq by simp_all
  show ?thesis
    using rm_replace_file_info_correct [OF bep_index_spec(1) [OF fresh_state_ok(1,2) eq, folded warm] wf _ _ _ cached,
        of "[sample_file]"] db last
    by (auto simp: fresh_state_ok sample_file_storable)
qed

text \<open>
  Claim C26. Adding files never removes a block row: when a file is already in the tables under an
  older version, the blocks of that version, stored or not, stay with the file.  This is the operation
  that an Index message runs on the local files.
\<close>

theorem insert_file_info_keeps_blocks:
  assumes "insert_file_info st folder dev fs = Ok st'"
  shows "set (db_blocks (bs_db st)) \<subseteq> set (db_blocks (bs_db st'))"
  by (rule insert_file_info_keeps [OF assms])

definition newer_file :: file_info where
  "newer_file = sample_file\<lparr>fi_version := Some \<lparr>vec_counters = [\<lparr>ctr_id = 3, ctr_value = 2\<rparr>]\<rparr>,
     fi_blocks := [(sample_block 0)\<lparr>bi_hash := replicate 32 9\<rparr>]\<rparr>"

theorem insert_file_info_keeps_blocks_witness:
  "\<exists>st'. insert_file_info (sample_state 5 [sample_block 0]) ''f'' sample_device [newer_file] = Ok st' \<and>
    set (db_blocks (bs_db (sample_state 5 [sample_block 0]))) \<subseteq> set (db_blocks (bs_db st')) \<and>
    map (\<lambda>r. bi_hash (br_block r)) (db_blocks (bs_db st')) = [replicate 32 7, replicate 32 9]"
proof -
  obtain st' where st': "insert_file_info (sample_state 5 [sample_block 0]) ''f'' sample_device [newer_file] = Ok st'"
    and hashes: "map (\<lambda>r. bi_hash (br_block r)) (db_blocks (bs_db st')) = [replicate 32 7, replicate 32 9]"
    by (simp add: insert_file_info_def next_sequence_id_def sample_state_defs newer_file_def max_sequence_def
        insert_file_def upsert_file_def insert_version_def insert_block_def file_keys_def block_pk_def
        not_stored_def Let_def)
  show ?thesis
    by (intro exI [of _ st'] conjI st' hashes insert_file_info_keeps_blocks [OF st'])
qed

text \<open>
  Claim C17. When the blocks of a file have different hashes and there are as many as its size
  needs, storing a block marks that block only, and the file is reported complete exactly when all
  its blocks are stored.
\<close>

theorem update_block_storage_state_complete:
  assumes "get_request (bs_outgoing st) i = Some r" and "k = (req_folder r, dev, req_name r)"
    and "find (\<lambda>f. fr_key f = k) (db_files (bs_db st)) = Some f" and "expected_blocks (fr_info f) = Ok n"
    and "b \<in> set (block_rows (bs_db st) k)" and "bi_hash (br_block b) = req_hash r"
    and "distinct (map (\<lambda>b. bi_hash (br_block b)) (block_rows (bs_db st) k))"
    and "int (length (block_rows (bs_db st) k)) = n"
  shows "\<exists>st' res. update_block_storage_state st i dev = Ok (st', Ok res) \<and>
    block_rows (bs_db st') k = map (\<lambda>x. if x = b then x\<lparr>br_status := 1\<rparr> else x) (block_rows (bs_db st) k) \<and>
    (res = AllBlocks \<longleftrightarrow> (\<forall>x \<in> set (block_rows (bs_db st') k). br_status x = 1))"
proof -
  let ?d = "mark_stored k (req_hash r) (bs_db st)" and ?rows = "block_rows (bs_db st) k"
  have only: "bi_hash (br_block x) = req_hash r \<longleftrightarrow> x = b" if "x \<in> set ?rows" for x
    using that assms(5-7) by (auto simp: distinct_map inj_on_def)
  have rows: "block_rows ?d k = map (\<lambda>x. if x = b then x\<lparr>br_status := 1\<rparr> else x) ?rows"
    unfolding block_rows_marked using only by (intro map_cong) auto
  have len: "length (block_rows ?d k) = length ?rows" unfolding rows by simp
  have le: "length (filter (\<lambda>b. br_status b = 1) (block_rows ?d k)) \<le> length (block_rows ?d k)"
    by (rule length_filter_le)
  have all: "length (filter (\<lambda>b. br_status b = 1) (block_rows ?d k)) = length (block_rows ?d k) \<longleftrightarrow>
      (\<forall>x \<in> set (block_rows ?d k). br_status x = 1)"
    by (rule filter_length_all)
  let ?res = "if stored_count k ?d = n then AllBlocks else BlocksMissing"
  have "stored_count k ?d \<le> n"
    using le len assms(8) by (simp add: stored_count_rows)
  then have upd: "update_block_storage_state st i dev = Ok (st\<lparr>bs_db := ?d\<rparr>, Ok ?res)"
    unfolding update_block_storage_state_eq [OF assms(1-6) refl] by simp
  have full: "stored_count k ?d = n \<longleftrightarrow> (\<forall>x \<in> set (block_rows ?d k). br_status x = 1)"
    using all len unfolding stored_count_rows assms(8) [symmetric] by simp
  show ?thesis
    by (intro exI [of _ "st\<lparr>bs_db := ?d\<rparr>"] exI [of _ ?res] conjI upd) (simp_all add: rows [symmetric] full)
qed

theorem update_block_storage_state_complete_witness:
  "\<exists>st' res. update_block_storage_state (sample_state 5 [sample_block 0]) 1 sample_device = Ok (st', Ok res) \<and>
    (res = AllBlocks \<longleftrightarrow> (\<forall>x \<in> set (block_rows (bs_db st') (''f'', sample_device, ''a'')). br_status x = 1))"
  using update_block_storage_state_complete [of "sample_state 5 [sample_block 0]" 1 small_request
      "(''f'', sample_device, ''a'')" sample_device "sample_row 5" 1
      "\<lparr>br_key = (''f'', sample_device, ''a''), br_block = sample_block 0, br_status = 0\<rparr>"]
  by (fastforce simp: sample_state_defs block_rows_def expected_blocks_def signed_divide_int_def in_int64_def)

text \<open>
  Claim C25. Blocks are found by their hash alone.  When all blocks of a file have the same content,
  the response to one request marks all of them, and the file is reported complete although the
  data of the other blocks was not received.
\<close>

theorem equal_blocks_complete_early:
  assumes "get_request (bs_outgoing st) i = Some r" and "k = (req_folder r, dev, req_name r)"
    and "find (\<lambda>f. fr_key f = k) (db_files (bs_db st)) = Some f" and "expected_blocks (fr_info f) = Ok n"
    and "block_rows (bs_db st) k \<noteq> []"
    and "\<forall>b \<in> set (block_rows (bs_db st) k). bi_hash (br_block b) = req_hash r"
    and "int (length (block_rows (bs_db st) k)) = n"
  shows "\<exists>st'. update_block_storage_state st i dev = Ok (st', Ok AllBlocks)"
proof -
  let ?d = "mark_stored k (req_hash r) (bs_db st)"
  obtain b where b: "b \<in> set (block_rows (bs_db st) k)" using assms(5) by (cases "block_rows (bs_db st) k") auto
  have "block_rows ?d k = map (\<lambda>x. x\<lparr>br_status := 1\<rparr>) (block_rows (bs_db st) k)"
    unfolding block_rows_marked using assms(6) by (intro map_cong) auto
  then have "stored_count k ?d = n"
    using assms(7) by (simp add: stored_count_rows comp_def)
  then show ?thesis
    using update_block_storage_state_eq [OF assms(1-4) b _ refl] assms(6) b by auto
qed

theorem equal_blocks_complete_early_witness:
  "\<exists>st'. update_block_storage_state (sample_state 10 [sample_block 0, sample_block 5]) 1 sample_device =
     Ok (st', Ok AllBlocks)"
  by (rule equal_blocks_complete_early [where r = small_request and k = "(''f'', sample_device, ''a'')"
        and f = "sample_row 10" and n = 2])
     (simp_all add: sample_state_defs block_rows_def expected_blocks_def signed_divide_int_def in_int64_def)

end
