(* ===== verification/State_Operations.thy ===== *)
theory State_Operations
  imports State_Consistency
begin

text \<open>
  Further operations of the state: making room in the read cache, the cluster configuration that is
  stored and sent back, and the renaming of files.
\<close>

section \<open>Read cache\<close>

lemma evict_split:
  "\<exists>rest. files = evict avail needed files @ rest \<and>
     (rest = [] \<or> needed \<le> avail + sum_list (map (\<lambda>f. nat (snd f)) (evict avail needed files))) \<and>
     (evict avail needed files \<noteq> [] \<longrightarrow>
       avail + sum_list (map (\<lambda>f. nat (snd f)) (butlast (evict avail needed files))) < needed)"
proof (induction avail needed files rule: evict.induct)
  case (2 avail needed c sz files)
  show ?case
  proof (cases "needed \<le> avail")
    case False
    then obtain rest where "files = evict (avail + nat sz) needed files @ rest"
      "rest = [] \<or> needed \<le> avail + nat sz + sum_list (map (\<lambda>f. nat (snd f)) (evict (avail + nat sz) needed files))"
      "evict (avail + nat sz) needed files \<noteq> [] \<longrightarrow>
        avail + nat sz + sum_list (map (\<lambda>f. nat (snd f)) (butlast (evict (avail + nat sz) needed files))) < needed"
      using 2 by blast
    with False show ?thesis
      by (intro exI [of _ rest]) (auto simp: add.assoc)
  qed simp
qed simp

lemma fold_cache_filter:
  "fold (\<lambda>f d. d\<lparr>db_cache := filter (\<lambda>r. cr_key r \<noteq> cr_key (fst f)) (db_cache d)\<rparr>) fs d =
     d\<lparr>db_cache := filter (\<lambda>r. cr_key r \<notin> (\<lambda>f. cr_key (fst f)) ` set fs) (db_cache d)\<rparr>"
  by (induction fs arbitrary: d) (auto simp: conj_commute intro!: arg_cong [where f = "\<lambda>x. db_cache_update x _"] ext filter_cong)

text \<open>The outcome, with the files that are evicted.\<close>

lemma free_read_cache_evicts:
  assumes "\<forall>f \<in> set (cached_files (bs_db st)). 0 \<le> snd f"
    and "sum_list (map (\<lambda>f. nat (snd f)) (cached_files (bs_db st))) \<le> cache_size"
  shows "let removed = evict (cache_size - sum_list (map (\<lambda>f. nat (snd f)) (cached_files (bs_db st)))) needed
      (cached_files (bs_db st)) in
    free_read_cache st cache_size needed =
      Ok (st\<lparr>bs_db := (bs_db st)\<lparr>db_cache := filter (\<lambda>r. cr_key r \<notin> (\<lambda>f. cr_key (fst f)) ` set removed)
            (db_cache (bs_db st))\<rparr>\<rparr>,
          map (\<lambda>f. (fst (cr_key (fst f)), snd (snd (cr_key (fst f))))) removed)"
proof -
  have "\<not> (\<exists>f \<in> set (cached_files (bs_db st)). snd f < 0)" using assms(1) by force
  then show ?thesis using assms(2) by (simp add: free_read_cache_def Let_def fold_cache_filter)
qed



section \<open>Cluster configuration\<close>

definition config_wf :: "db \<Rightarrow> bool" where
  "config_wf d \<longleftrightarrow> distinct (map dr_id (db_devices d)) \<and>
     distinct (map (\<lambda>r. fol_id (fo_info r)) (db_folders d))"

lemma upsert_folder_wf [wf_intros]: "config_wf d \<Longrightarrow> config_wf (upsert_folder f d)"
proof -
  have "map (\<lambda>r. fol_id (fo_info r)) (map (\<lambda>r. if fol_id (fo_info r) = fol_id f
      then r\<lparr>fo_info := f\<lparr>fol_devices := []\<rparr>\<rparr> else r) rs) = map (\<lambda>r. fol_id (fo_info r)) rs" for rs :: "folder_row list"
    by (induction rs) auto
  note ids = this
  assume wf: "config_wf d"
  show "config_wf (upsert_folder f d)"
  proof (cases "fol_id f \<in> (\<lambda>r. fol_id (fo_info r)) ` set (db_folders d)")
    case True
    then show ?thesis using wf ids [of "db_folders d"] by (simp add: config_wf_def upsert_folder_def del: map_map)
  next
    case False
    then show ?thesis using wf by (auto simp: config_wf_def upsert_folder_def)
  qed
qed

lemma upsert_device_wf:
  assumes "config_wf d" and "upsert_device loc folder_id dev d = Ok d'"
  shows "config_wf d'"
proof -
  have ids: "map dr_id (map (\<lambda>r. if dr_id r = i then row else r) rs) = map dr_id rs"
    if "dr_id row = i" for i row and rs :: "device_row list"
    using that by (induction rs) auto
  obtain i where i: "device_id_try_from_bytes (dvc_id dev) = Ok i"
    using assms(2) by (auto simp: upsert_device_def split: result.splits)
  let ?row = "device_row_from loc folder_id i dev"
  have row: "dr_id ?row = i" by (simp add: device_row_from_def Let_def)
  have "d' = d\<lparr>db_devices := (if i \<in> dr_id ` set (db_devices d)
      then map (\<lambda>r. if dr_id r = i then ?row else r) (db_devices d) else db_devices d @ [?row])\<rparr>"
    using assms(2) i by (auto simp: upsert_device_def Let_def split: if_splits)
  then show ?thesis
    using assms(1) ids [OF row, of "db_devices d"] row
    by (cases "i \<in> dr_id ` set (db_devices d)") (auto simp: config_wf_def simp del: map_map)
qed

lemma update_cluster_config_wf:
  assumes "config_wf (bs_db st)" and "update_cluster_config st other loc = Ok st'"
  shows "config_wf (bs_db st')"
proof -
  obtain d where d: "for_each (cc_folders other) (\<lambda>f d. for_each (fol_devices f)
      (upsert_device loc (fol_id f)) (upsert_folder f d)) (bs_db st) = Ok d" and st': "st' = st\<lparr>bs_db := d\<rparr>"
    using assms(2) by (auto simp: update_cluster_config_def)
  have "config_wf d"
    by (rule for_each_invariant [where P = config_wf, OF d assms(1)])
       (metis for_each_invariant [where P = config_wf] upsert_device_wf upsert_folder_wf)
  with st' show ?thesis by simp
qed

lemma filter_distinct_one: "distinct (map g xs) \<Longrightarrow> length (filter (\<lambda>x. P x \<and> g x = k) xs) \<le> 1"
proof (induction xs)
  case (Cons x xs)
  have "filter (\<lambda>y. P y \<and> g y = k) xs = []" if "g x = k"
    using that distinct_map_head [OF Cons.prems] by (auto simp: filter_empty_conv)
  with Cons show ?case by auto
qed simp

lemma join_at_most_one:
  assumes "distinct (map g xs)" and "distinct (map h ys)"
  shows "length (concat (map (\<lambda>x. map (\<lambda>_. f x) (filter (\<lambda>y. e y = g x \<and> h y = c) ys)) xs)) \<le> 1"
proof (cases "filter (\<lambda>y. h y = c) ys")
  case Nil
  then have "filter (\<lambda>y. e y = g x \<and> h y = c) ys = []" for x
    by (auto simp: filter_empty_conv)
  then have none: "concat (map (\<lambda>x. map (\<lambda>_. f x) (filter (\<lambda>y. e y = g x \<and> h y = c) ys)) xs) = []"
    by (simp only: list.map concat_eq_Nil_conv) simp
  show ?thesis unfolding none by simp
next
  case (Cons y ys')
  have "length (filter (\<lambda>y. True \<and> h y = c) ys) \<le> 1" by (rule filter_distinct_one [OF assms(2)])
  with Cons have one: "filter (\<lambda>y. h y = c) ys = [y]" by simp
  have "filter (\<lambda>y. e y = g x \<and> h y = c) ys = filter (\<lambda>y. e y = g x) (filter (\<lambda>y. h y = c) ys)" for x
    by (simp add: conj_commute)
  then have "filter (\<lambda>y. e y = g x \<and> h y = c) ys = (if e y = g x then [y] else [])" for x
    by (simp add: one)
  then have "length (concat (map (\<lambda>x. map (\<lambda>_. f x) (filter (\<lambda>y. e y = g x \<and> h y = c) ys)) xs)) =
      length (filter (\<lambda>x. e y = g x) xs)"
    by (simp add: length_concat comp_def) (induction xs, auto)
  also have "\<dots> \<le> 1" using filter_distinct_one [OF assms(1), of "\<lambda>_. True" "e y"] by (simp add: eq_commute)
  finally show ?thesis .
qed

text \<open>
  Claim C30. A device has one row and therefore one folder: however many folders a peer shares in its
  cluster configuration, the configuration that is sent back names at most one.
\<close>

theorem cluster_config_at_most_one_folder:
  assumes "config_wf (bs_db st)" and "update_cluster_config st other loc = Ok st'"
  shows "length (cc_folders (bep_cluster_config st' loc client)) \<le> 1"
  using update_cluster_config_wf [OF assms] join_at_most_one
    [of "\<lambda>r. fol_id (fo_info r)" "db_folders (bs_db st')" dr_id "db_devices (bs_db st')" fo_info dr_folder client]
  by (simp add: bep_cluster_config_def config_wf_def Let_def)

definition sample_cluster_device :: device where
  "sample_cluster_device = \<lparr>dvc_id = replicate 32 7, dvc_name = [], dvc_addresses = [''x''], dvc_compression = 0,
     dvc_cert_name = [], dvc_max_sequence = 0, dvc_introducer = False, dvc_index_id = 1,
     dvc_skip_introduction_removals = False, dvc_encryption_password_token = []\<rparr>"

definition sample_folder :: "string \<Rightarrow> folder" where
  "sample_folder i = \<lparr>fol_id = i, fol_label = i, fol_read_only = False, fol_ignore_permissions = False,
     fol_ignore_delete = False, fol_disable_temp_indexes = False, fol_paused = False,
     fol_devices = [sample_cluster_device]\<rparr>"

theorem cluster_config_at_most_one_folder_witness:
  "\<exists>st'. update_cluster_config (bep_state_new db_empty) \<lparr>cc_folders = [sample_folder ''f'', sample_folder ''g'']\<rparr>
      sample_device = Ok st' \<and>
    length (cc_folders (bep_cluster_config st' sample_device sample_device)) \<le> 1"
proof -
  obtain st' where st': "update_cluster_config (bep_state_new db_empty)
      \<lparr>cc_folders = [sample_folder ''f'', sample_folder ''g'']\<rparr> sample_device = Ok st'"
    by (simp add: update_cluster_config_def upsert_device_def upsert_folder_def sample_folder_def
        sample_cluster_device_def device_row_from_def device_id_try_from_bytes_def DEVICE_ID_LEN_def bep_state_new_def db_empty_def)
  show ?thesis
    by (intro exI [of _ st'] conjI st' cluster_config_at_most_one_folder [OF _ st'])
       (simp add: config_wf_def bep_state_new_def db_empty_def)
qed

section \<open>Renaming\<close>

lemma filter_rename:
  assumes "\<And>r. r \<in> set rs \<Longrightarrow> key r \<noteq> k'"
    and "\<And>r. key (upd r) = rename_key k k' (key r)" and "\<And>r. val (upd r) = val r" and "k' \<noteq> k"
  shows "map val (filter (\<lambda>r. key r = j) (map upd rs)) =
    (if j = k then [] else if j = k' then map val (filter (\<lambda>r. key r = k) rs)
     else map val (filter (\<lambda>r. key r = j) rs))"
  using assms(1)
proof (induction rs)
  case (Cons r rs)
  then have "key r \<noteq> k'" by simp
  with Cons show ?case
    using assms(2-4) by (auto simp: rename_key_def)
qed simp

lemma find_rename:
  assumes "distinct (map fr_key rs)" and "\<And>r. r \<in> set rs \<Longrightarrow> fr_key r \<noteq> k'" and "k' \<noteq> k"
    and "\<And>r. fr_key (upd r) = k'"
  shows "find (\<lambda>r. fr_key r = j) (map (\<lambda>r. if fr_key r = k then upd r else r) rs) =
    (if j = k then None else if j = k' then map_option upd (find (\<lambda>r. fr_key r = k) rs)
     else find (\<lambda>r. fr_key r = j) rs)"
  using assms(1,2)
proof (induction rs)
  case (Cons r rs)
  then have "fr_key r \<noteq> k'" by simp
  with Cons show ?case
    using assms(3,4) by auto
qed simp

lemma rename_file_spec:
  assumes "db_wf d" and "file_at d k = Some f" and k': "k' = (fst k, fst (snd k), name)" and "k' \<notin> file_keys d"
    and "s \<notin> sequences d"
  shows "\<exists>d'. rename_file k name s d = Ok d' \<and> db_index d' = db_index d \<and> file_keys d' = file_keys d - {k} \<union> {k'} \<and>
    file_at d' = (file_at d)(k := None, k' \<mapsto> f\<lparr>fi_name := name, fi_sequence := s\<rparr>)"
proof -
  have k: "k \<in> file_keys d" using assms(2) file_at_None [of d k] by auto
  then have ne: "k' \<noteq> k" using assms(4) by auto
  define upd where "upd = (\<lambda>r :: file_row. r\<lparr>fr_key := k', fr_info := (fr_info r)\<lparr>fi_name := name, fi_sequence := s\<rparr>\<rparr>)"
  define d' where "d' = d\<lparr>db_files := map (\<lambda>r. if fr_key r = k then upd r else r) (db_files d),
        db_locations := map (\<lambda>r. r\<lparr>lr_key := rename_key k k' (lr_key r)\<rparr>) (db_locations d),
        db_cache := map (\<lambda>r. r\<lparr>cr_key := rename_key k k' (cr_key r)\<rparr>) (db_cache d),
        db_blocks := map (\<lambda>r. r\<lparr>br_key := rename_key k k' (br_key r)\<rparr>) (db_blocks d),
        db_versions := map (\<lambda>r. r\<lparr>vr_key := rename_key k k' (vr_key r)\<rparr>) (db_versions d)\<rparr>"
  have "\<not> (\<exists>r \<in> set (db_files d). fr_key r \<noteq> k \<and> fi_sequence (fr_info r) = s)"
    using assms(5) by (auto simp: sequences_def)
  then have ok: "rename_file k name s d = Ok d'"
    using k ne assms(4) by (simp add: rename_file_def k' [symmetric] Let_def d'_def upd_def)
  have rows: "r \<in> set (db_files d) \<Longrightarrow> fr_key r \<noteq> k'" for r
    using assms(4) by (auto simp: file_keys_def)
  have children: "r \<in> set (db_blocks d) \<Longrightarrow> br_key r \<noteq> k'" "v \<in> set (db_versions d) \<Longrightarrow> vr_key v \<noteq> k'" for r v
    using assms(1,4) by (auto simp: db_wf_def)
  have blocks: "blocks_of d' j = (if j = k then [] else if j = k' then blocks_of d k else blocks_of d j)" for j
    unfolding blocks_of_def d'_def db.simps
    using filter_rename [where key = br_key and val = br_block and rs = "db_blocks d"
        and upd = "\<lambda>r. r\<lparr>br_key := rename_key k k' (br_key r)\<rparr>" and k' = k' and k = k and j = j] children(1) ne by simp
  have counters: "counters_of d' j = (if j = k then [] else if j = k' then counters_of d k else counters_of d j)" for j
    unfolding counters_of_def d'_def db.simps
    using filter_rename [where key = vr_key and val = vr_counter and rs = "db_versions d"
        and upd = "\<lambda>r. r\<lparr>vr_key := rename_key k k' (vr_key r)\<rparr>" and k' = k' and k = k and j = j] children(2) ne by simp
  have "distinct (map fr_key (db_files d))" using assms(1) by (simp add: db_wf_def)
  note found = find_rename [OF this rows ne, of upd]
  obtain row where row: "find (\<lambda>r. fr_key r = k) (db_files d) = Some row" "f = stored_file d row"
    using assms(2) by (auto simp: file_at_def)
  have key: "fr_key row = k" using find_SomeD [OF row(1)] by simp
  have "file_at d' j = ((file_at d)(k := None, k' \<mapsto> f\<lparr>fi_name := name, fi_sequence := s\<rparr>)) j" for j
  proof -
    have find: "find (\<lambda>r. fr_key r = j) (db_files d') = (if j = k then None
        else if j = k' then Some (upd row) else find (\<lambda>r. fr_key r = j) (db_files d))"
      using found [of j] row(1) by (simp add: d'_def upd_def)
    have "stored_file d' (upd row) = f\<lparr>fi_name := name, fi_sequence := s\<rparr>"
      using ne key row(2) by (simp add: stored_file_def upd_def blocks counters)
    moreover have "stored_file d' r = stored_file d r" if "fr_key r \<noteq> k" "fr_key r \<noteq> k'" for r
      using that by (simp add: stored_file_def blocks counters)
    ultimately show ?thesis
      using find find_SomeD [of "\<lambda>r. fr_key r = j" "db_files d"] ne
      by (cases "find (\<lambda>r. fr_key r = j) (db_files d)") (auto simp: file_at_def)
  qed
  then have look: "file_at d' = (file_at d)(k := None, k' \<mapsto> f\<lparr>fi_name := name, fi_sequence := s\<rparr>)" by blast
  have "x \<in> file_keys d' \<longleftrightarrow> x \<in> file_keys d - {k} \<union> {k'}" for x
    using file_at_None [of d' x] file_at_None [of d x] by (auto simp: look split: if_splits)
  then show ?thesis
    using ok look by (intro exI [of _ d']) (auto simp: d'_def)
qed

lemma file_at_locations [simp]:
  "file_at (d\<lparr>db_locations := ls\<rparr>) = file_at d" "file_at (d\<lparr>db_cache := cs\<rparr>) = file_at d"
  "file_keys (d\<lparr>db_locations := ls\<rparr>) = file_keys d" "file_keys (d\<lparr>db_cache := cs\<rparr>) = file_keys d"
proof -
  have "stored_file (d\<lparr>db_locations := ls\<rparr>) = stored_file d" "stored_file (d\<lparr>db_cache := cs\<rparr>) = stored_file d"
    by (rule ext, simp add: stored_file_def blocks_of_def counters_of_def)+
  then show "file_at (d\<lparr>db_locations := ls\<rparr>) = file_at d" "file_at (d\<lparr>db_cache := cs\<rparr>) = file_at d"
    by (intro ext, simp add: file_at_def)+
qed (simp_all add: file_keys_def)

lemma insert_locations_ok:
  assumes "k \<in> file_keys d"
  shows "\<exists>d'. for_each ls (\<lambda>l. insert_location k (g l)) d = Ok d' \<and> file_at d' = file_at d \<and> db_index d' = db_index d"
  using assms
proof (induction ls arbitrary: d)
  case (Cons l ls)
  have "\<exists>d1. insert_location k (g l) d = Ok d1 \<and> k \<in> file_keys d1 \<and> file_at d1 = file_at d \<and> db_index d1 = db_index d"
    using Cons.prems by (simp add: insert_location_def Let_def)
  then obtain d1 where d1: "insert_location k (g l) d = Ok d1" and keys: "k \<in> file_keys d1"
    and look: "file_at d1 = file_at d" "db_index d1 = db_index d" by blast
  then show ?case using Cons.IH [OF keys] by auto
qed simp

text \<open>
  Claim C27. Moving a file to a name that is free never panics: the tables then hold the file, with its
  blocks and versions, under the new name and with a fresh sequence, and no longer under the old one;
  all other files stay.  The index in memory is not touched, so it still has the old name.
\<close>

theorem mv_file_info_correct:
  assumes "state_wf st" and "bep_file_info st folder dev (fi_name orig) = Some f"
    and "bep_file_info st folder dev dest = None" and "last_sequence st + 1 < 2 ^ 63"
  shows "\<exists>st'. mv_file_info st folder dev orig dest locs = Ok st' \<and>
    file_at (bs_db st') = (file_at (bs_db st))((folder, dev, fi_name orig) := None,
      (folder, dev, dest) \<mapsto> f\<lparr>fi_name := dest, fi_sequence := last_sequence st + 1\<rparr>) \<and>
    bs_indices st' = bs_indices st"
proof -
  let ?k = "(folder, dev, fi_name orig)" and ?k' = "(folder, dev, dest)"
  have wf: "db_wf (bs_db st)" using assms(1) by (simp add: state_wf_def)
  have fresh: "last_sequence st + 1 \<notin> sequences (bs_db st)" using assms(1) by (force simp: state_wf_def)
  obtain d where d: "rename_file ?k dest (last_sequence st + 1) (bs_db st) = Ok d"
    "file_keys d = file_keys (bs_db st) - {?k} \<union> {?k'}"
    "file_at d = (file_at (bs_db st))(?k := None, ?k' \<mapsto> f\<lparr>fi_name := dest, fi_sequence := last_sequence st + 1\<rparr>)"
    using rename_file_spec [OF wf, of ?k f ?k' dest "last_sequence st + 1"] assms(2,3) fresh
    by (auto simp: bep_file_info_def file_at_None)
  let ?d = "d\<lparr>db_locations := filter (\<lambda>r. lr_key r \<noteq> ?k') (db_locations d),
      db_cache := filter (\<lambda>r. cr_key r \<noteq> ?k') (db_cache d)\<rparr>"
  have "?k' \<in> file_keys ?d" using d(2) by simp
  then obtain d' where "for_each locs (\<lambda>l. insert_location ?k' (floc_backend l, floc_location l)) ?d = Ok d'"
    "file_at d' = file_at d"
    using insert_locations_ok [of ?k' ?d locs "\<lambda>l. (floc_backend l, floc_location l)"] by auto
  then show ?thesis
    using d(1,3) by (simp add: mv_file_info_def next_sequence_id_eq [OF assms(4)] Let_def)
qed

theorem mv_file_info_correct_witness:
  "\<exists>st' f. mv_file_info (sample_state 5 []) ''f'' sample_device sample_file ''b'' [] = Ok st' \<and>
    file_at (bs_db st') = (file_at (bs_db (sample_state 5 [])))((''f'', sample_device, ''a'') := None,
      (''f'', sample_device, ''b'') \<mapsto> f\<lparr>fi_name := ''b'', fi_sequence := 2\<rparr>) \<and>
    bs_indices st' = bs_indices (sample_state 5 [])"
proof -
  have "state_wf (sample_state 5 [])" and "last_sequence (sample_state 5 []) = 1"
    by (simp_all add: state_wf_def sample_state_defs db_wf_def file_keys_def sequences_def last_sequence_def
        max_sequence_def)
  moreover obtain f where "bep_file_info (sample_state 5 []) ''f'' sample_device (fi_name sample_file) = Some f"
    by (simp add: sample_state_defs bep_file_info_def file_at_def)
  moreover have "bep_file_info (sample_state 5 []) ''f'' sample_device ''b'' = None"
    by (simp add: sample_state_defs bep_file_info_def file_at_def)
  ultimately show ?thesis
    using mv_file_info_correct [of "sample_state 5 []" "''f''" sample_device sample_file f "''b''" "[]"]
    by (auto simp: sample_file_def)
qed

end
