(* ===== verification/Tasks.thy ===== *)
theory Tasks
  imports Grizol_Prelude
begin

text \<open>
  Asynchronous functions that share a state under a mutex: the model of \<^verbatim>\<open>async fn\<close> bodies that take the
  mutex, do some work, release it, and go on later.

  \<^item> A task has returned its outcome (\<open>Return\<close>), or waits to run its next critical section (\<open>Step\<close>),
    which reads and changes the shared state and gives the rest of the task.
  \<^item> \<open>after\<close> sequences a task with what is done with its outcome, \<open>then_task\<close> is the \<^verbatim>\<open>?\<close> operator;
    \<open>critical\<close> is a task of one section.
  \<^item> \<open>run\<close> runs a task without interruption; \<open>turns\<close> runs several tasks in the order given by a schedule.
  \<^item> \<open>keeps\<close> says that every section of a task keeps an invariant of the shared state, whatever happens between
    the sections: such an invariant holds in every interleaving (\<open>turns_keep\<close>).
\<close>

section \<open>Definitions\<close>

datatype ('s, 'a, 'e) task =
    Return "('a, 'e) result"
  | Step "'s \<Rightarrow> 's \<times> ('s, 'a, 'e) task"

primrec after :: "('s, 'a, 'e) task \<Rightarrow> (('a, 'e) result \<Rightarrow> ('s, 'b, 'e) task) \<Rightarrow> ('s, 'b, 'e) task" where
  "after (Return r) k = k r"
| "after (Step f) k = Step (\<lambda>s. map_prod id (\<lambda>t. after t k) (f s))"

definition then_task :: "('s, 'a, 'e) task \<Rightarrow> ('a \<Rightarrow> ('s, 'b, 'e) task) \<Rightarrow> ('s, 'b, 'e) task" where
  "then_task t k = after t (\<lambda>r. case r of Ok a \<Rightarrow> k a | Err e \<Rightarrow> Return (Err e) | Panic \<Rightarrow> Return Panic)"

definition critical :: "('s \<Rightarrow> 's \<times> ('a, 'e) result) \<Rightarrow> ('s, 'a, 'e) task" where
  "critical f = Step (\<lambda>s. map_prod id Return (f s))"

primrec run :: "('s, 'a, 'e) task \<Rightarrow> 's \<Rightarrow> 's \<times> ('a, 'e) result" where
  "run (Return r) = (\<lambda>s. (s, r))"
| "run (Step f) = (\<lambda>s. case map_prod id run (f s) of (s', g) \<Rightarrow> g s')"

text \<open>One turn of a task, and a schedule that says which of several tasks has the next turn.\<close>

fun turn :: "('s, 'a, 'e) task \<Rightarrow> 's \<Rightarrow> 's \<times> ('s, 'a, 'e) task" where
  "turn (Return r) s = (s, Return r)"
| "turn (Step f) s = f s"

fun turns :: "nat list \<Rightarrow> 's \<times> ('s, 'a, 'e) task list \<Rightarrow> 's \<times> ('s, 'a, 'e) task list" where
  "turns [] (s, ts) = (s, ts)"
| "turns (i # is) (s, ts) =
     (if i < length ts then (case turn (ts ! i) s of (s', t) \<Rightarrow> turns is (s', ts[i := t])) else turns is (s, ts))"

text \<open>Every section keeps \<open>I\<close>.\<close>

primrec keeps :: "('s \<Rightarrow> bool) \<Rightarrow> ('s, 'a, 'e) task \<Rightarrow> bool" where
  "keeps I (Return r) = True"
| "keeps I (Step f) = (\<forall>s. I s \<longrightarrow> I (fst (f s)) \<and> snd (map_prod id (keeps I) (f s)))"

section \<open>Running a task\<close>

lemma keeps_Step [simp]: "keeps I (Step f) \<longleftrightarrow> (\<forall>s. I s \<longrightarrow> I (fst (f s)) \<and> keeps I (snd (f s)))"
  by (simp add: snd_map_prod)

declare keeps.simps(2) [simp del]

lemma run_Step [simp]: "run (Step f) s = run (snd (f s)) (fst (f s))"
  by (simp add: split_beta)

declare run.simps(2) [simp del]

lemma run_after: "run (after t k) s = (case run t s of (s', r) \<Rightarrow> run (k r) s')"
proof (induction t arbitrary: s)
  case (Step f)
  have "snd (f s) \<in> Basic_BNFs.snds (f s)" by (cases "f s") simp
  from Step [OF rangeI this] show ?case by simp
qed simp

lemma run_then [simp]: "run (then_task t k) s = io_then (run t s) (\<lambda>s a. run (k a) s)"
  by (cases "run t s", cases "snd (run t s)") (auto simp: then_task_def run_after)

lemma run_critical [simp]: "run (critical f) s = f s"
  by (simp add: critical_def)

lemma run_turn: "run (snd (turn t s)) (fst (turn t s)) = run t s"
  by (cases t) simp_all

text \<open>The laws of sequencing, and the first turn of a sequence.\<close>

lemma after_assoc: "after (after t k) l = after t (\<lambda>r. after (k r) l)"
proof (induction t)
  case (Step f)
  have "map_prod id (\<lambda>t. after t l) (map_prod id (\<lambda>t. after t k) (f s)) =
      map_prod id (\<lambda>t. after t (\<lambda>r. after (k r) l)) (f s)" for s
  proof -
    have "snd (f s) \<in> Basic_BNFs.snds (f s)" by (cases "f s") simp
    from Step [OF rangeI this] show ?thesis by (cases "f s") simp
  qed
  then show ?case by simp
qed simp

lemma then_assoc: "then_task (then_task t k) l = then_task t (\<lambda>a. then_task (k a) l)"
  unfolding then_task_def after_assoc by (rule arg_cong [of _ _ "after t"]) (auto split: result.split)

lemma then_Return [simp]: "then_task (Return (Ok a)) k = k a"
  by (simp add: then_task_def)

lemma turn_after: "turn (after (critical f) k) s = (fst (f s), k (snd (f s)))"
  by (cases "f s") (simp add: critical_def)

lemma turn_then: "f s = (s', Ok a) \<Longrightarrow> turn (then_task (critical f) k) s = (s', k a)"
  by (simp add: then_task_def turn_after)

lemma turn_after_then: "f s = (s', Ok a) \<Longrightarrow> turn (after (then_task (critical f) k) l) s = (s', after (k a) l)"
  by (simp add: then_task_def after_assoc turn_after)

lemma turn_after_panic: "f s = (s', Panic) \<Longrightarrow> turn (after (then_task (critical f) k) l) s = (s', l Panic)"
  by (simp add: then_task_def after_assoc turn_after)

text \<open>Several turns of one task.\<close>

fun advance :: "nat \<Rightarrow> ('s, 'a, 'e) task \<Rightarrow> 's \<Rightarrow> 's \<times> ('s, 'a, 'e) task" where
  "advance 0 t s = (s, t)"
| "advance (Suc n) t s = (case turn t s of (s', t') \<Rightarrow> advance n t' s')"

lemma turns_replicate:
  "i < length ts \<Longrightarrow> turns (replicate n i) (s, ts) = (case advance n (ts ! i) s of (s', t) \<Rightarrow> (s', ts[i := t]))"
  by (induction n arbitrary: s ts) (simp_all split: prod.split)

section \<open>Invariants\<close>

lemma keeps_after:
  assumes "keeps I t" and "\<And>r. keeps I (k r)"
  shows "keeps I (after t k)"
  using assms(1)
proof (induction t)
  case (Step f)
  have "keeps I (after (snd (f s)) k)" if "I s" for s
  proof (rule Step.IH [OF rangeI])
    show "snd (f s) \<in> Basic_BNFs.snds (f s)" by (cases "f s") simp
  qed (use Step.prems that in simp)
  with Step.prems show ?case by simp
qed (use assms(2) in simp)

lemma keeps_then:
  assumes "keeps I t" and "\<And>a. keeps I (k a)"
  shows "keeps I (then_task t k)"
  unfolding then_task_def using assms by (intro keeps_after) (auto split: result.split)

lemma keeps_critical: "keeps I (critical f) \<longleftrightarrow> (\<forall>s. I s \<longrightarrow> I (fst (f s)))"
  by (simp add: critical_def)

lemma keeps_both: "keeps I t \<Longrightarrow> keeps J t \<Longrightarrow> keeps (\<lambda>s. I s \<and> J s) t"
proof (induction t)
  case (Step f)
  have "keeps (\<lambda>s. I s \<and> J s) (snd (f s))" if "I s" "J s" for s
  proof (rule Step.IH [OF rangeI])
    show "snd (f s) \<in> Basic_BNFs.snds (f s)" by (cases "f s") simp
  qed (use Step.prems that in simp_all)
  with Step.prems show ?case by simp
qed simp

lemma keeps_turn:
  assumes "keeps I t" and "I s"
  shows "I (fst (turn t s)) \<and> keeps I (snd (turn t s))"
  using assms by (cases t) auto

lemma keeps_run: "keeps I t \<Longrightarrow> I s \<Longrightarrow> I (fst (run t s))"
proof (induction t arbitrary: s)
  case (Step f)
  have "snd (f s) \<in> Basic_BNFs.snds (f s)" by (cases "f s") simp
  from Step.IH [OF rangeI this] Step.prems show ?case by simp
qed simp

text \<open>An invariant of all sections holds in every interleaving.\<close>

lemma turns_keep:
  assumes "\<forall>t \<in> set ts. keeps I t" and "I s"
  shows "I (fst (turns is (s, ts))) \<and> (\<forall>t \<in> set (snd (turns is (s, ts))). keeps I t)"
  using assms
proof (induction "is" arbitrary: s ts)
  case (Cons i "is")
  show ?case
  proof (cases "i < length ts")
    case True
    obtain s' t where t: "turn (ts ! i) s = (s', t)" by fastforce
    have "I s'" "keeps I t" using keeps_turn [of I "ts ! i" s] Cons.prems True t by auto
    moreover have "\<forall>u \<in> set (ts[i := t]). keeps I u"
      using Cons.prems(1) \<open>keeps I t\<close> set_update_subset_insert [of ts i t] by auto
    ultimately show ?thesis using Cons.IH [of "ts[i := t]" s'] True t by simp
  qed (use Cons in simp)
qed simp

lemma turns_append: "turns (is @ js) s = turns js (turns is s)"
  by (induction "is" s rule: turns.induct) (simp_all split: prod.split)

lemma length_turns [simp]: "length (snd (turns is s)) = length (snd s)"
  by (induction "is" s rule: turns.induct) (simp_all split: prod.split)

end
