(* ===== verification/Bep_Processor.thy ===== *)
theory Bep_Processor
  imports Storage Connection State_Operations Tasks
begin

text \<open>
  The processor of messages (\<^verbatim>\<open>src/src/core/bep_processor.rs\<close>): one handler per message, on the state,
  the storage and the configuration.

  \<^item> A handler is a task (theory \<open>Tasks\<close>): one critical section for every time the code takes the mutex of the
    state or calls the storage, in the order of the code.  Between two sections other tasks run.
  \<^item> A call that panics ends the task; the calls before it in the same section are committed.
  \<^item> \<open>handle_complete_message\<close> runs a handler without interruption.
  \<^item> What is outside is gathered in \<open>world\<close>: the hasher of the standard library, the operating system,
    \<^verbatim>\<open>rclone\<close>, SHA-256, and the readings of the clock.
\<close>

section \<open>Definitions\<close>

record world =
  wd_hash :: hasher
  wd_os :: os
  wd_rclone :: rclone
  wd_sha256 :: "bytes \<Rightarrow> bytes"
  wd_now :: nat
  wd_clk :: "request \<Rightarrow> nat"

record bep_processor =
  pr_config :: grizol_config
  pr_state :: bep_state
  pr_storage :: storage

text \<open>A new processor with its own storage manager, on the disk \<open>fs\<close>.\<close>

definition bep_processor_new :: "rclone \<Rightarrow> file_system \<Rightarrow> grizol_config \<Rightarrow> bep_state \<Rightarrow> (bep_processor, unit) result" where
  "bep_processor_new rclone fs config st =
     map_ok (\<lambda>sm. \<lparr>pr_config = config, pr_state = st, pr_storage = (sm, fs)\<rparr>) (storage_manager_new rclone config)"

datatype processor_error =
    NoAssociatedReqeust
  | WrongDataInResponse
  | ErrorInResponse
  | FileNotInIndex
  | StorageError
  | StateError

type_synonym 'a processing = "bep_processor \<times> ('a, processor_error) result"
type_synonym events = "(grizol_event, processor_error) result list"

text \<open>Steps on the state and on the storage.\<close>

definition in_state :: "(bep_state \<Rightarrow> (bep_state \<times> 'a, unit) result) \<Rightarrow> bep_processor \<Rightarrow> 'a processing" where
  "in_state f p = (case f (pr_state p) of Ok (st, a) \<Rightarrow> (p\<lparr>pr_state := st\<rparr>, Ok a) | _ \<Rightarrow> (p, Panic))"

definition on_state :: "(bep_state \<Rightarrow> (bep_state, unit) result) \<Rightarrow> bep_processor \<Rightarrow> unit processing" where
  "on_state f = in_state (\<lambda>st. map_ok (\<lambda>st. (st, ())) (f st))"

text \<open>A call whose effects in memory survive a panic.\<close>

definition step_state :: "(bep_state \<Rightarrow> bep_state \<times> ('a, unit) result) \<Rightarrow> bep_processor \<Rightarrow> 'a processing" where
  "step_state f p =
     (case f (pr_state p) of
        (st, Ok a) \<Rightarrow> (p\<lparr>pr_state := st\<rparr>, Ok a)
      | (st, _) \<Rightarrow> (p\<lparr>pr_state := st\<rparr>, Panic))"

definition in_storage :: "(storage \<Rightarrow> storage \<times> ('a, io_error) result) \<Rightarrow> bep_processor \<Rightarrow> 'a processing" where
  "in_storage f p =
     (case f (pr_storage p) of
        (s, Ok a) \<Rightarrow> (p\<lparr>pr_storage := s\<rparr>, Ok a)
      | (s, Err e) \<Rightarrow> (p\<lparr>pr_storage := s\<rparr>, Err StorageError)
      | (s, Panic) \<Rightarrow> (p\<lparr>pr_storage := s\<rparr>, Panic))"

text \<open>Comparison of file versions: \<^verbatim>\<open>max_by_key\<close> returns the last of the greatest elements.\<close>

datatype ordering = Less | Equal | Greater

definition max_counter :: "counter list \<Rightarrow> counter option" where
  "max_counter cs = fold (\<lambda>c best. case best of None \<Rightarrow> Some c
     | Some b \<Rightarrow> if ctr_value b \<le> ctr_value c then Some c else Some b) cs None"

definition file_max_counter :: "file_info \<Rightarrow> (counter, 'e) result" where
  "file_max_counter f =
     and_then (unwrap_opt (fi_version f)) (\<lambda>v. unwrap_opt (max_counter (vec_counters v)))"

definition partial_cmp_file_version :: "file_info \<Rightarrow> file_info \<Rightarrow> (ordering option, 'e) result" where
  "partial_cmp_file_version a b =
     and_then (file_max_counter a) (\<lambda>max_counter_a.
     and_then (file_max_counter b) (\<lambda>max_counter_b.
     Ok (if ctr_value max_counter_a < ctr_value max_counter_b then Some Less
         else if ctr_value max_counter_a > ctr_value max_counter_b then Some Greater
         else if ctr_value max_counter_a = ctr_value max_counter_b \<and> ctr_id max_counter_a = ctr_id max_counter_b
         then Some Equal else None)))"

definition partial_cmp_file_timestamp :: "file_info \<Rightarrow> file_info \<Rightarrow> (ordering, 'e) result" where
  "partial_cmp_file_timestamp a b =
     (if fi_modified_s a < fi_modified_s b \<or> fi_modified_s a = fi_modified_s b \<and> fi_modified_ns a < fi_modified_ns b
      then Ok Less
      else if fi_modified_s a > fi_modified_s b \<or>
        fi_modified_s a = fi_modified_s b \<and> fi_modified_ns a > fi_modified_ns b then Ok Greater
      else
        and_then (file_max_counter a) (\<lambda>max_counter_a.
        and_then (file_max_counter b) (\<lambda>max_counter_b.
        Ok (if ctr_value max_counter_a < ctr_value max_counter_b then Less
            else if ctr_value max_counter_a > ctr_value max_counter_b then Greater else Equal))))"

record index_diff =
  newly_added_files :: "file_info list"
  newly_added_conflicting_files :: "file_info list"
  existing_conflicting_files :: "file_info list"

datatype diff_error = DifferentFolders

text \<open>One iteration of the loop over the added files.\<close>

definition diff_file ::
    "(string \<rightharpoonup> file_info) \<Rightarrow> file_info \<Rightarrow> index_diff \<Rightarrow> (index_diff, diff_error) result" where
  "diff_file existing_files newly_added_file diff =
     (case existing_files (fi_name newly_added_file) of
        None \<Rightarrow> Ok (diff\<lparr>newly_added_files := newly_added_files diff @ [newly_added_file]\<rparr>)
      | Some existing_file \<Rightarrow>
          and_then (partial_cmp_file_version existing_file newly_added_file) (\<lambda>cmp.
          case cmp of
            Some Less \<Rightarrow> Ok (diff\<lparr>newly_added_files := newly_added_files diff @ [newly_added_file]\<rparr>)
          | Some Equal \<Rightarrow> Ok diff
          | Some Greater \<Rightarrow> Ok diff
          | None \<Rightarrow>
              and_then (partial_cmp_file_timestamp existing_file newly_added_file) (\<lambda>cmp.
              case cmp of
                Less \<Rightarrow> Ok (diff\<lparr>newly_added_conflicting_files :=
                  newly_added_conflicting_files diff @ [newly_added_file]\<rparr>)
              | Greater \<Rightarrow> Ok (diff\<lparr>existing_conflicting_files :=
                  existing_conflicting_files diff @ [newly_added_file]\<rparr>)
              | Equal \<Rightarrow> Panic)))"

definition diff_indices :: "string \<Rightarrow> index \<Rightarrow> index \<Rightarrow> (index_diff, diff_error) result" where
  "diff_indices folder added_index existing_index =
     (if idx_folder added_index \<noteq> folder \<and> idx_folder existing_index \<noteq> folder then Err DifferentFolders
      else
        let existing_files = map_of (rev (map (\<lambda>f. (fi_name f, f)) (idx_files existing_index))) in
        for_each (idx_files added_index) (diff_file existing_files)
          \<lparr>newly_added_files = [], newly_added_conflicting_files = [], existing_conflicting_files = []\<rparr>)"

text \<open>\<^verbatim>\<open>diff_indices(..).expect("Should pass the same folders")\<close>\<close>

definition expect_diff :: "(index_diff, diff_error) result \<Rightarrow> (index_diff, 'e) result" where
  "expect_diff r = (case r of Ok d \<Rightarrow> Ok d | _ \<Rightarrow> Panic)"

fun requests_from_blocks :: "int \<Rightarrow> block_info_ext list \<Rightarrow> (request list, processor_error) result" where
  "requests_from_blocks request_id [] = Ok []"
| "requests_from_blocks request_id (block # blocks) =
     (if \<not> in_int32 (request_id + 1) then Panic
      else map_ok (\<lambda>res. \<lparr>req_id = request_id + 1, req_folder = bx_folder block, req_name = bx_name block,
             req_offset = bx_offset block, req_size = bx_size block, req_hash = bx_hash block,
             req_from_temporary = False\<rparr> # res) (requests_from_blocks (request_id + 1) blocks))"

definition store_outgoing_requests :: "world \<Rightarrow> block_info_ext list \<Rightarrow> bep_processor \<Rightarrow> request list processing" where
  "store_outgoing_requests wd unstored_blocks p =
     (let base_req_id = load_request_id (pr_state p) in
      io_then (p, requests_from_blocks base_req_id unstored_blocks) (\<lambda>p requests.
      let max_req_id = (case map req_id requests of [] \<Rightarrow> base_req_id | i # is \<Rightarrow> fold max is i) in
      if \<not> in_int32 (max_req_id - base_req_id) then (p, Panic)
      else
        io_then (in_state (\<lambda>st. fetch_add_request_id st (max_req_id - base_req_id)) p) (\<lambda>p _.
        step_state (\<lambda>st. insert_requests (wd_now wd) (wd_clk wd) st requests) p)))"

definition check_data :: "world \<Rightarrow> bytes \<Rightarrow> bytes \<Rightarrow> bool" where
  "check_data wd data hash \<longleftrightarrow> wd_sha256 wd data = hash"

type_synonym 'a handler = "(bep_processor, 'a, processor_error) task"

text \<open>A response to a request that was sent.\<close>

definition copy_to_remote :: "world \<Rightarrow> grizol_config \<Rightarrow> request \<Rightarrow> unit handler" where
  "copy_to_remote wd config request =
     (if gc_storage_strategy config = Remote \<or> gc_storage_strategy config = LocalRemote then
        then_task (critical (\<lambda>p. (p, cp_local_to_remote (wd_rclone wd) (fst (pr_storage p))
          (req_folder request) (req_name request)))) (\<lambda>locations.
        critical (on_state (\<lambda>st. update_file_locations st (req_folder request) (gc_local_device_id config)
          (req_name request) locations)))
      else Return (Ok ()))"

definition drop_local :: "world \<Rightarrow> grizol_config \<Rightarrow> request \<Rightarrow> unit handler" where
  "drop_local wd config request =
     (if gc_storage_strategy config = Remote then
        then_task (critical (on_state (\<lambda>st. Ok (remove_file_locations st (req_folder request)
          (gc_local_device_id config) (req_name request) [''local''])))) (\<lambda>_.
        critical (in_storage (\<lambda>(sm, fs). apfst (Pair sm)
          (rm_local_file (wd_os wd) sm (req_folder request) (req_name request) fs))))
      else Return (Ok ()))"

definition conclude_file :: "world \<Rightarrow> grizol_config \<Rightarrow> request \<Rightarrow> nat \<Rightarrow> nat \<Rightarrow> unit handler" where
  "conclude_file wd config request file_size block_size =
     then_task (critical (in_storage (\<lambda>s. conclude_block_storage (wd_hash wd) (wd_os wd) s request file_size block_size)))
       (\<lambda>_.
     then_task (copy_to_remote wd config request) (\<lambda>_.
     drop_local wd config request))"

text \<open>The sizes of a file, as \<^verbatim>\<open>u64\<close>.\<close>

definition file_sizes :: "string \<Rightarrow> device_id \<Rightarrow> string \<Rightarrow> bep_processor \<Rightarrow> (nat \<times> nat) processing" where
  "file_sizes folder device_id name p =
     (p, and_then (ok_or (bep_file_info (pr_state p) folder device_id name) FileNotInIndex) (\<lambda>file_info.
         if fi_size file_info < 0 \<or> fi_block_size file_info < 0 then Panic
         else Ok (nat (fi_size file_info), nat (fi_block_size file_info))))"

definition mark_block :: "int \<Rightarrow> device_id \<Rightarrow> bep_processor \<Rightarrow> upload_status processing" where
  "mark_block request_id device_id p =
     io_then (in_state (\<lambda>st. update_block_storage_state st request_id device_id) p) (\<lambda>p r.
     (p, case r of Ok status \<Rightarrow> Ok status | Err e \<Rightarrow> Err StateError | Panic \<Rightarrow> Panic))"

definition store_response_data :: "world \<Rightarrow> grizol_config \<Rightarrow> request \<Rightarrow> response \<Rightarrow> unit handler" where
  "store_response_data wd config request response =
     (if \<not> check_data wd (resp_data response) (req_hash request) then Return (Err WrongDataInResponse)
      else
        then_task (critical (file_sizes (req_folder request) (gc_local_device_id config) (req_name request)))
          (\<lambda>(file_size, block_size).
        then_task (critical (in_storage (\<lambda>s. store_block_concurrently (wd_hash wd) (wd_os wd) s (resp_data response)
          request file_size block_size))) (\<lambda>_.
        then_task (critical (mark_block (resp_id response) (gc_local_device_id config))) (\<lambda>upload_status.
        if upload_status = AllBlocks then conclude_file wd config request file_size block_size
        else Return (Ok ())))))"

text \<open>The request is removed also when storing the data failed.\<close>

definition process_response :: "world \<Rightarrow> grizol_config \<Rightarrow> response \<Rightarrow> grizol_event handler" where
  "process_response wd config response =
     then_task (critical (\<lambda>p. (p, Ok (bep_get_request (pr_state p) (resp_id response))))) (\<lambda>request.
     case request of
       None \<Rightarrow> Return (Err NoAssociatedReqeust)
     | Some request \<Rightarrow>
         after (store_response_data wd config request response) (\<lambda>stored.
         if stored = Panic then Return Panic
         else then_task (critical (in_state (\<lambda>st. bep_remove_request st (resp_id response)))) (\<lambda>_.
              Return (and_then stored (\<lambda>_. Ok RequestProcessed)))))"

text \<open>The handlers.\<close>

definition handle_hello :: "grizol_config \<Rightarrow> events handler" where
  "handle_hello config =
     Return (Ok [Ok (Message (Hello \<lparr>hello_device_name = gc_name config, hello_client_name = ''grizol'',
        hello_client_version = ''0.2.1''\<rparr>))])"

fun shared_with :: "device_id \<Rightarrow> device list \<Rightarrow> (bool, 'e) result" where
  "shared_with local_device_id [] = Ok False"
| "shared_with local_device_id (d # ds) =
     (case device_id_try_from_bytes (dvc_id d) of
        Ok i \<Rightarrow> if i = local_device_id then Ok True else shared_with local_device_id ds
      | _ \<Rightarrow> Panic)"

fun folders_shared_with_me :: "device_id \<Rightarrow> folder list \<Rightarrow> (string list, 'e) result" where
  "folders_shared_with_me local_device_id [] = Ok []"
| "folders_shared_with_me local_device_id (f # fs) =
     and_then (shared_with local_device_id (fol_devices f)) (\<lambda>b.
     map_ok (\<lambda>res. if b then fol_id f # res else res) (folders_shared_with_me local_device_id fs))"

definition processor_cluster_config :: "grizol_config \<Rightarrow> device_id \<Rightarrow> complete_message handler" where
  "processor_cluster_config config client_device_id =
     critical (\<lambda>p. (p, Ok (ClusterConfig
       (bep_cluster_config (pr_state p) (gc_local_device_id config) client_device_id))))"

definition processor_indices :: "grizol_config \<Rightarrow> device_id \<Rightarrow> complete_message list handler" where
  "processor_indices config client_device_id =
     then_task (critical (in_state (\<lambda>st. bep_indices st None (Some (gc_local_device_id config)) client_device_id)))
       (\<lambda>indices. Return (Ok (map Index indices)))"

text \<open>\<^verbatim>\<open>for folder in folders_shared_with_me { init_index(..); init_index(..) }\<close>\<close>

fun init_indices :: "device_id \<Rightarrow> device_id \<Rightarrow> string list \<Rightarrow> bep_processor \<Rightarrow> unit processing" where
  "init_indices client_device_id local_device_id [] p = (p, Ok ())"
| "init_indices client_device_id local_device_id (folder # folders) p =
     io_then (on_state (\<lambda>st. init_index st folder client_device_id) p) (\<lambda>p _.
     io_then (on_state (\<lambda>st. init_index st folder local_device_id) p) (\<lambda>p _.
     init_indices client_device_id local_device_id folders p))"

definition take_over_config :: "cluster_config \<Rightarrow> device_id \<Rightarrow> device_id \<Rightarrow> bep_processor \<Rightarrow> unit processing" where
  "take_over_config cluster_config client_device_id local_device_id p =
     io_then (on_state (\<lambda>st. update_cluster_config st cluster_config local_device_id) p) (\<lambda>p _.
     io_then (p, folders_shared_with_me local_device_id (cc_folders cluster_config)) (\<lambda>p folders.
     init_indices client_device_id local_device_id folders p))"

definition handle_cluster_config :: "grizol_config \<Rightarrow> cluster_config \<Rightarrow> device_id \<Rightarrow> events handler" where
  "handle_cluster_config config cluster_config client_device_id =
     then_task (critical (take_over_config cluster_config client_device_id (gc_local_device_id config))) (\<lambda>_.
     then_task (processor_indices config client_device_id) (\<lambda>indices.
     then_task (processor_cluster_config config client_device_id) (\<lambda>cc.
     Return (Ok (Ok (Message cc) # map (\<lambda>x. Ok (Message x)) indices)))))"

text \<open>\<^verbatim>\<open>state.index(..).await.expect(..)\<close>\<close>

definition expect_index :: "bep_state \<Rightarrow> string \<Rightarrow> device_id \<Rightarrow> (bep_state \<times> index, unit) result" where
  "expect_index st folder device_id =
     (case bep_index st folder device_id of (st, Some i) \<Rightarrow> Ok (st, i) | (st, None) \<Rightarrow> Panic)"

text \<open>The first section of the index handlers: the tables of both devices, and the blocks that are not stored.\<close>

definition update_from_index_update :: "index \<Rightarrow> device_id \<Rightarrow> device_id \<Rightarrow> bep_processor \<Rightarrow> unit processing" where
  "update_from_index_update received_index client_device_id local_device_id p =
     (let folder = idx_folder received_index in
      io_then (in_state (\<lambda>st. expect_index st folder client_device_id) p) (\<lambda>p other_device_local_index.
      io_then (p, expect_diff (diff_indices folder received_index other_device_local_index)) (\<lambda>p diff.
      io_then (step_state (numbering (length (newly_added_files diff)) (\<lambda>st.
        rm_replace_file_info st folder client_device_id (newly_added_files diff))) p) (\<lambda>p _.
      io_then (in_state (\<lambda>st. expect_index st folder local_device_id) p) (\<lambda>p local_index.
      io_then (in_state (\<lambda>st. expect_index st folder client_device_id) p) (\<lambda>p other_device_local_index.
      io_then (p, expect_diff (diff_indices folder other_device_local_index local_index)) (\<lambda>p diff.
      step_state (numbering (length (newly_added_files diff)) (\<lambda>st.
        rm_replace_file_info st folder local_device_id (newly_added_files diff))) p)))))))"

definition update_from_index :: "index \<Rightarrow> device_id \<Rightarrow> device_id \<Rightarrow> bep_processor \<Rightarrow> unit processing" where
  "update_from_index received_index client_device_id local_device_id p =
     (let folder = idx_folder received_index in
      io_then (step_state (numbering (length (idx_files received_index)) (\<lambda>st.
        replace_index st received_index client_device_id)) p) (\<lambda>p _.
      io_then (in_state (\<lambda>st. expect_index st folder local_device_id) p) (\<lambda>p local_index.
      io_then (p, expect_diff (diff_indices folder received_index local_index)) (\<lambda>p diff.
      step_state (numbering (length (newly_added_files diff)) (\<lambda>st.
        insert_file_info st folder local_device_id (newly_added_files diff))) p))))"

definition unstored_blocks :: "device_id \<Rightarrow> unit processing \<Rightarrow> block_info_ext list processing" where
  "unstored_blocks local_device_id r =
     io_then r (\<lambda>p _. (p, Ok (blocks_info (pr_state p) local_device_id NotStored)))"

definition handle_index_update :: "world \<Rightarrow> grizol_config \<Rightarrow> index \<Rightarrow> device_id \<Rightarrow> events handler" where
  "handle_index_update wd config index_update client_device_id =
     then_task (critical (\<lambda>p. unstored_blocks (gc_local_device_id config)
       (update_from_index_update index_update client_device_id (gc_local_device_id config) p))) (\<lambda>unstored_blocks.
     then_task (critical (store_outgoing_requests wd unstored_blocks)) (\<lambda>_.
     Return (Ok [Ok RequestCreated])))"

definition handle_index :: "world \<Rightarrow> grizol_config \<Rightarrow> index \<Rightarrow> device_id \<Rightarrow> events handler" where
  "handle_index wd config received_index client_device_id =
     then_task (critical (\<lambda>p. unstored_blocks (gc_local_device_id config)
       (update_from_index received_index client_device_id (gc_local_device_id config) p))) (\<lambda>unstored_blocks.
     then_task (critical (store_outgoing_requests wd unstored_blocks)) (\<lambda>_.
     Return (Ok [Ok RequestCreated])))"

text \<open>Requests, pings and closes are answered with nothing.\<close>

definition handle_request :: "request \<Rightarrow> events handler" where
  "handle_request request = Return (Ok [])"

definition handle_ping :: "events handler" where
  "handle_ping = Return (Ok [])"

definition handle_close :: "close_msg \<Rightarrow> events handler" where
  "handle_close close = Return (Ok [])"

text \<open>The numbers of \<^verbatim>\<open>ErrorCode\<close> are 0 to 3; 0 is \<^verbatim>\<open>NoError\<close>.\<close>

definition handle_response :: "world \<Rightarrow> grizol_config \<Rightarrow> response \<Rightarrow> events handler" where
  "handle_response wd config response =
     (if resp_code response \<notin> {0, 1, 2, 3} then Return Panic
      else if resp_code response \<noteq> 0 then Return (Ok [Err ErrorInResponse])
      else after (process_response wd config response) (\<lambda>res. Return (if res = Panic then Panic else Ok [res])))"

fun message_task :: "world \<Rightarrow> grizol_config \<Rightarrow> complete_message \<Rightarrow> device_id \<Rightarrow> events handler" where
  "message_task wd config (Hello x) client_device_id = handle_hello config"
| "message_task wd config (ClusterConfig x) client_device_id = handle_cluster_config config x client_device_id"
| "message_task wd config (Index x) client_device_id = handle_index wd config x client_device_id"
| "message_task wd config (IndexUpdate x) client_device_id = handle_index_update wd config x client_device_id"
| "message_task wd config (Request x) client_device_id = handle_request x"
| "message_task wd config (Response x) client_device_id = handle_response wd config x"
| "message_task wd config Ping client_device_id = handle_ping"
| "message_task wd config (Close x) client_device_id = handle_close x"
| "message_task wd config (DownloadProgress x) client_device_id = Return Panic"

definition handle_complete_message ::
    "world \<Rightarrow> complete_message \<Rightarrow> device_id \<Rightarrow> bep_processor \<Rightarrow> events processing" where
  "handle_complete_message wd m client_device_id p = run (message_task wd (pr_config p) m client_device_id) p"

definition throttled_requests :: "bep_processor \<Rightarrow> request list processing" where
  "throttled_requests p =
     in_state (\<lambda>st. bep_update_pending_requests st (gc_max_pending_requests (pr_config p))
       (gc_max_total_pending_requests_size (pr_config p))) p"

section \<open>Calls that succeed\<close>

lemma step_numbering [simp]:
  "step_state (numbering n f) p = (p', Ok u) \<longleftrightarrow> (\<exists>st. f (pr_state p) = Ok st \<and> p' = p\<lparr>pr_state := st\<rparr>)"
  by (cases "f (pr_state p)") (auto simp: step_state_def numbering_def)

lemma in_state_Ok: "in_state f p = (p', Ok a) \<longleftrightarrow> (\<exists>st. f (pr_state p) = Ok (st, a) \<and> p' = p\<lparr>pr_state := st\<rparr>)"
  by (auto simp: in_state_def split: result.split)

end
