(* ===== verification/Fuse.thy ===== *)
theory Fuse
  imports Storage State_Operations
begin

text \<open>
  The file system over the database (\<^verbatim>\<open>src/src/fuse.rs\<close>): the tree of nodes kept in memory, its
  refresh from the database, and the handlers of \<^verbatim>\<open>getattr\<close>, \<^verbatim>\<open>lookup\<close>, \<^verbatim>\<open>readdir\<close>, \<^verbatim>\<open>read\<close> and
  \<^verbatim>\<open>rename\<close>, each in the variant on the tree and in the variant on the lists of files.

  \<^item> A handler returns \<open>None\<close> when it never ends (the loop of the refresh), otherwise the new state
    and its reply: \<open>Ok\<close> is the positive reply, \<open>Err\<close> a reply with an error number, \<open>Panic\<close> a panic.
  \<^item> Every node is allocated at an address.  The tree owns its nodes (\<^verbatim>\<open>Rc\<close>), the map from inode
    numbers holds addresses only (\<^verbatim>\<open>Weak\<close>): \<open>upgrade\<close> finds a node as long as it hangs in the tree.
  \<^item> The order in which a \<^verbatim>\<open>HashMap\<close> is walked is not specified: \<open>fe_order\<close> ranks the names in the
    map of a node.
  \<^item> Inode numbers are \<^verbatim>\<open>u64\<close>, written as natural numbers with the overflow as a panic.
  \<^item> The clock, the files and commands of the system and the room in the buffer of a reply are fields
    of \<open>fuse_env\<close>.  The kernel's names are byte strings, which need not be UTF-8.
\<close>

section \<open>Inodes and attributes\<close>

datatype errno = ENOENT | EIO | EPERM | EFAULT | EFBIG | EISDIR

datatype inode_kind = RegularFile | Directory | Symlink

datatype grizol_fs_file_type = File grizol_file_info | Folder grizol_folder

definition entries_start :: nat where "entries_start = 2 ^ 32"

definition top_dirs_start :: nat where "top_dirs_start = 10"

definition fuse_root_id :: nat where "fuse_root_id = 1"

definition entry_id :: "int \<Rightarrow> (nat, 'e) result" where
  "entry_id e_id =
     (let res = nat (e_id mod 2 ^ 64) + entries_start in if res < 2 ^ 64 then Ok res else Panic)"

definition top_dir_id :: "int \<Rightarrow> (nat, 'e) result" where
  "top_dir_id d_id =
     (let res = nat (d_id mod 2 ^ 64) + top_dirs_start in
      if 2 ^ 64 \<le> res \<or> entries_start \<le> res then Panic else Ok res)"

definition file_type :: "int \<Rightarrow> (inode_kind, 'e) result" where
  "file_type file_type_code =
     (if file_type_code = 0 then Ok RegularFile else if file_type_code = 1 then Ok Directory
      else if file_type_code \<in> {2..4} then Ok Symlink else Panic)"

text \<open>A point in time: seconds and nanoseconds after the epoch.\<close>

record file_attr =
  at_ino :: nat
  at_size :: nat
  at_blocks :: nat
  at_atime :: "nat \<times> nat"
  at_mtime :: "nat \<times> nat"
  at_ctime :: "nat \<times> nat"
  at_crtime :: "nat \<times> nat"
  at_kind :: inode_kind
  at_perm :: nat
  at_nlink :: nat
  at_uid :: nat
  at_gid :: nat
  at_rdev :: nat
  at_flags :: nat
  at_blksize :: nat

definition root_dir_attr :: "grizol_config \<Rightarrow> file_attr" where
  "root_dir_attr config =
     \<lparr>at_ino = fuse_root_id, at_size = 0, at_blocks = 0, at_atime = (0, 0), at_mtime = (0, 0), at_ctime = (0, 0),
      at_crtime = (0, 0), at_kind = Directory, at_perm = 493, at_nlink = 0, at_uid = gc_uid config,
      at_gid = gc_gid config, at_rdev = 0, at_flags = 0, at_blksize = 512\<rparr>"

definition attr_from_folder :: "grizol_config \<Rightarrow> grizol_folder \<Rightarrow> (file_attr, 'e) result" where
  "attr_from_folder config g_folder =
     map_ok (\<lambda>ino.
       \<lparr>at_ino = ino, at_size = 0, at_blocks = 0, at_atime = (0, 0), at_mtime = (0, 0), at_ctime = (0, 0),
        at_crtime = (0, 0), at_kind = Directory, at_perm = 493, at_nlink = 0, at_uid = gc_uid config,
        at_gid = gc_gid config, at_rdev = 0, at_flags = 0, at_blksize = 2 ^ 10\<rparr>)
       (top_dir_id (int (gfo_id g_folder)))"

text \<open>
  The seconds are added as an unsigned number, the nanoseconds as another: a time that does not fit
  into \<^verbatim>\<open>i64\<close> seconds is a panic.
\<close>

definition modified_ts :: "file_info \<Rightarrow> (nat \<times> nat, 'e) result" where
  "modified_ts fi =
     (let secs = nat (fi_modified_s fi mod 2 ^ 64); ns = nat (fi_modified_ns fi mod 2 ^ 64);
          secs' = secs + ns div 10 ^ 9
      in if secs < 2 ^ 63 \<and> secs' < 2 ^ 63 then Ok (secs', ns mod 10 ^ 9) else Panic)"

definition attr_from_file :: "grizol_config \<Rightarrow> grizol_file_info \<Rightarrow> (file_attr, 'e) result" where
  "attr_from_file config g_file =
     (let fi = gfi_info g_file in
      and_then (modified_ts fi) (\<lambda>ts.
      and_then (entry_id (int (gfi_id g_file))) (\<lambda>ino.
      and_then (file_type (fi_type fi)) (\<lambda>kind.
      Ok \<lparr>at_ino = ino, at_size = nat (fi_size fi mod 2 ^ 64), at_blocks = 0, at_atime = ts, at_mtime = ts,
          at_ctime = ts, at_crtime = ts, at_kind = kind, at_perm = nat (fi_permissions fi mod 2 ^ 16),
          at_nlink = 0, at_uid = gc_uid config, at_gid = gc_gid config, at_rdev = 0, at_flags = 0,
          at_blksize = nat (fi_block_size fi mod 2 ^ 32)\<rparr>))))"

fun attr_from :: "grizol_config \<Rightarrow> grizol_fs_file_type \<Rightarrow> (file_attr, 'e) result" where
  "attr_from config (Folder f) = attr_from_folder config f"
| "attr_from config (File f) = attr_from_file config f"

section \<open>The tree in memory\<close>

datatype fs_node =
  FsNode (node_addr: nat) (node_id: nat) (node_type: grizol_fs_file_type) (children: "(string \<times> fs_node) list")

record fs_mem =
  fm_root :: fs_node
  fm_nodes :: "nat \<rightharpoonup> nat"
  fm_next :: nat

definition default_folder :: folder where
  "default_folder = \<lparr>fol_id = [], fol_label = [], fol_read_only = False, fol_ignore_permissions = False,
     fol_ignore_delete = False, fol_disable_temp_indexes = False, fol_paused = False, fol_devices = []\<rparr>"

definition fs_mem_new :: fs_mem where
  "fs_mem_new =
     \<lparr>fm_root = FsNode 0 1 (Folder \<lparr>gfo_folder = default_folder, gfo_id = 1\<rparr>) [],
      fm_nodes = [1 \<mapsto> 0], fm_next = 1\<rparr>"

text \<open>Replacing the entry of a name in the directory that a path leads to.\<close>

fun insert_at :: "string list \<Rightarrow> string \<Rightarrow> fs_node \<Rightarrow> fs_node \<Rightarrow> fs_node option" where
  "insert_at [] name new (FsNode a i t cs) = Some (FsNode a i t (AList.update name new cs))"
| "insert_at (p # ps) name new (FsNode a i t cs) =
     (case map_of cs p of
        None \<Rightarrow> None
      | Some c \<Rightarrow> map_option (\<lambda>c. FsNode a i t (AList.update p c cs)) (insert_at ps name new c))"

definition fs_insert_folder :: "grizol_folder \<Rightarrow> fs_mem \<Rightarrow> (fs_mem, 'e) result" where
  "fs_insert_folder folder m =
     and_then (top_dir_id (int (gfo_id folder))) (\<lambda>folder_id.
     let node = FsNode (fm_next m) folder_id (Folder folder) [] in
     case insert_at [] (fol_id (gfo_folder folder)) node (fm_root m) of
       None \<Rightarrow> Panic
     | Some root \<Rightarrow>
         Ok (m\<lparr>fm_root := root, fm_nodes := (fm_nodes m)(folder_id \<mapsto> fm_next m), fm_next := fm_next m + 1\<rparr>))"

datatype fs_error = NoParent grizol_file_info

fun walk :: "fs_node \<Rightarrow> string list \<Rightarrow> fs_node option" where
  "walk n [] = Some n"
| "walk n (p # ps) = (case map_of (children n) p of None \<Rightarrow> None | Some c \<Rightarrow> walk c ps)"

definition split_path :: "grizol_file_info \<Rightarrow> string list" where
  "split_path file = gfi_folder file # components [] (fi_name (gfi_info file))"

definition fs_insert_file :: "grizol_file_info \<Rightarrow> fs_mem \<Rightarrow> (fs_mem, fs_error) result" where
  "fs_insert_file file m =
     (case walk (fm_root m) (butlast (split_path file)) of
        None \<Rightarrow> Err (NoParent file)
      | Some _ \<Rightarrow>
          and_then (entry_id (int (gfi_id file))) (\<lambda>node_id.
          let node = FsNode (fm_next m) node_id (File file) [] in
          case insert_at (butlast (split_path file)) (last (split_path file)) node (fm_root m) of
            None \<Rightarrow> Panic
          | Some root \<Rightarrow>
              Ok (m\<lparr>fm_root := root, fm_nodes := (fm_nodes m)(node_id \<mapsto> fm_next m), fm_next := fm_next m + 1\<rparr>)))"

text \<open>All nodes of a tree, and the node behind a weak reference.\<close>

fun tree_nodes :: "fs_node \<Rightarrow> fs_node list" where
  "tree_nodes (FsNode a i t cs) = FsNode a i t cs # concat (map (\<lambda>c. tree_nodes (snd c)) cs)"

definition upgrade :: "fs_mem \<Rightarrow> nat \<Rightarrow> fs_node option" where
  "upgrade m addr = find (\<lambda>n. node_addr n = addr) (tree_nodes (fm_root m))"

definition iter :: "(nat \<Rightarrow> string \<Rightarrow> nat) \<Rightarrow> fs_node \<Rightarrow> (string \<times> fs_node) list" where
  "iter order n = sort_key (\<lambda>c. order (node_addr n) (fst c)) (children n)"

lemma set_iter [simp]: "set (iter order n) = set (children n)"
  by (simp add: iter_def)

lemma size_child: "c \<in> set (children n) \<Longrightarrow> size (snd c) < size n"
proof (cases n)
  case (FsNode a i t cs)
  assume "c \<in> set (children n)"
  then have "(\<lambda>c. Suc (size (snd c))) c \<le> size_list (\<lambda>c. Suc (size (snd c))) cs"
    by (intro size_list_estimation' [where x = c]) (auto simp: FsNode)
  moreover have "size_list (\<lambda>c. Suc (size (snd c))) cs = size_list (size_prod (\<lambda>x. 0) size) cs"
    by (rule arg_cong [where f = "\<lambda>f. size_list f cs"]) (auto simp: fun_eq_iff size_prod_def)
  ultimately show ?thesis by (simp add: FsNode)
qed

function traverse_post :: "(nat \<Rightarrow> string \<Rightarrow> nat) \<Rightarrow> fs_node \<Rightarrow> fs_node list" where
  "traverse_post order n = concat (map (\<lambda>c. traverse_post order (snd c)) (iter order n)) @ [n]"
  by pat_completeness auto
termination by (relation "measure (\<lambda>(order, n). size n)") (auto dest: size_child)

declare traverse_post.simps [simp del]

section \<open>Names and paths\<close>

text \<open>\<^verbatim>\<open>OsStr::to_str\<close>: the bytes as a string when they are UTF-8.\<close>

definition to_str :: "string \<Rightarrow> string option" where
  "to_str name = (if valid_utf8 (map of_char name) then Some name else None)"

text \<open>\<^verbatim>\<open>Path::components\<close>: empty and \<^verbatim>\<open>.\<close> components are left out, a leading \<^verbatim>\<open>.\<close> is not.\<close>

datatype path_component = RootDir | CurDir | ParentDir | Normal string

definition path_components :: "string \<Rightarrow> path_component list" where
  "path_components s =
     (let parts = components [] s in
      (if s \<noteq> [] \<and> hd s = CHR ''/'' then [RootDir] else if hd parts = ''.'' then [CurDir] else []) @
      map (\<lambda>x. if x = ''..'' then ParentDir else Normal x) (filter (\<lambda>x. x \<noteq> '''' \<and> x \<noteq> ''.'') parts))"

definition strip_prefix :: "string \<Rightarrow> string \<Rightarrow> path_component list option" where
  "strip_prefix base path =
     (let p = path_components path; b = path_components base in
      if take (length b) p = b then Some (drop (length b) p) else None)"

definition file_name :: "path_component list \<Rightarrow> string option" where
  "file_name p = (if p = [] then None else case last p of Normal x \<Rightarrow> Some x | _ \<Rightarrow> None)"

definition is_file_in_current_dir :: "string \<Rightarrow> grizol_file_info \<Rightarrow> bool" where
  "is_file_in_current_dir base_dir file =
     (case strip_prefix base_dir (fi_name (gfi_info file)) of
        None \<Rightarrow> False
      | Some stripped_path \<Rightarrow>
          (case file_name stripped_path of None \<Rightarrow> False | Some name \<Rightarrow> stripped_path = [Normal name]))"

section \<open>Lists of folders and files\<close>

fun find_ok :: "('a \<Rightarrow> (bool, 'e) result) \<Rightarrow> 'a list \<Rightarrow> ('a option, 'e) result" where
  "find_ok p [] = Ok None"
| "find_ok p (x # xs) = and_then (p x) (\<lambda>b. if b then Ok (Some x) else find_ok p xs)"

definition find_folder :: "nat \<Rightarrow> grizol_folder list \<Rightarrow> (grizol_folder option, 'e) result" where
  "find_folder ino folders = find_ok (\<lambda>f. map_ok (\<lambda>i. i = ino) (top_dir_id (int (gfo_id f)))) folders"

definition find_entry :: "nat \<Rightarrow> grizol_file_info list \<Rightarrow> (grizol_file_info option, 'e) result" where
  "find_entry ino files = find_ok (\<lambda>f. map_ok (\<lambda>i. i = ino) (entry_id (int (gfi_id f)))) files"

definition top_folder ::
    "nat \<Rightarrow> grizol_folder list \<Rightarrow> grizol_file_info list \<Rightarrow> (string option, 'e) result" where
  "top_folder ino folders files =
     (if ino < entries_start then map_ok (map_option (\<lambda>f. fol_id (gfo_folder f))) (find_folder ino folders)
      else map_ok (map_option gfi_folder) (find_entry ino files))"

definition parent_dir :: "grizol_file_info list \<Rightarrow> nat \<Rightarrow> (string, 'e) result" where
  "parent_dir files parent_ino =
     (if parent_ino < entries_start then Ok ''''
      else and_then (find_entry parent_ino files) (\<lambda>f. unwrap_opt (map_option (\<lambda>f. fi_name (gfi_info f)) f)))"

definition base_dir :: "nat \<Rightarrow> grizol_file_info list \<Rightarrow> (string option, 'e) result" where
  "base_dir ino files =
     (if ino < entries_start then Ok (Some '''')
      else map_ok (map_option (\<lambda>f. fi_name (gfi_info f))) (find_entry ino files))"

section \<open>State and refresh\<close>

record dir_entry =
  de_ino :: nat
  de_offset :: int
  de_kind :: inode_kind
  de_name :: string

record fuse_env =
  fe_now :: nat
  fe_time :: int
  fe_os :: os
  fe_reads :: "nat \<Rightarrow> nat"
  fe_rclone :: rclone
  fe_copied :: "string \<Rightarrow> file_system \<Rightarrow> file_system"
  fe_order :: "nat \<Rightarrow> string \<Rightarrow> nat"
  fe_fits :: "dir_entry list \<Rightarrow> dir_entry \<Rightarrow> bool"

record grizol_fs =
  fu_state :: bep_state
  fu_config :: grizol_config
  fu_last :: nat
  fu_folders :: "grizol_folder list"
  fu_files :: "grizol_file_info list"
  fu_storage :: storage_manager
  fu_mem :: fs_mem
  fu_disk :: file_system

type_synonym 'a reply = "(grizol_fs \<times> ('a, errno) result) option"

definition grizol_fs_new ::
    "nat \<Rightarrow> rclone \<Rightarrow> grizol_config \<Rightarrow> bep_state \<Rightarrow> file_system \<Rightarrow> (grizol_fs, unit) result" where
  "grizol_fs_new now rclone config st disk =
     and_then (storage_manager_new rclone config) (\<lambda>sm.
     and_then (checked_sub now 10000) (\<lambda>last_folders_files.
     Ok \<lparr>fu_state = st, fu_config = config, fu_last = last_folders_files, fu_folders = [], fu_files = [],
         fu_storage = sm, fu_mem = fs_mem_new, fu_disk = disk\<rparr>))"

text \<open>
  The files are inserted from a queue; one whose parent is not there yet goes back to the end.  The
  value is \<open>None\<close> when the queue never becomes empty.
\<close>

partial_function (option) load_files ::
    "grizol_file_info list \<Rightarrow> fs_mem \<Rightarrow> (fs_mem, errno) result option" where
  "load_files files m =
     (case files of
        [] \<Rightarrow> Some (Ok m)
      | f # files \<Rightarrow>
          (case fs_insert_file f m of
             Ok m \<Rightarrow> load_files files m
           | Err e \<Rightarrow> load_files (files @ [case e of NoParent f \<Rightarrow> f]) m
           | Panic \<Rightarrow> Some Panic))"

text \<open>A panic ends the session and the tree with it: only the shared state and the disk are left.\<close>

definition refresh_expired_folders_files :: "fuse_env \<Rightarrow> grizol_fs \<Rightarrow> unit reply" where
  "refresh_expired_folders_files env s =
     (if gc_fuse_refresh_rate_ms (fu_config s) \<le> fe_now env - fu_last s then
        let device_id = gc_local_device_id (fu_config s);
            folders = top_folders_fuse (fu_state s) device_id;
            files = files_fuse (fu_state s) device_id;
            s = s\<lparr>fu_folders := folders, fu_files := files, fu_last := fe_now env\<rparr>
        in case for_each folders fs_insert_folder (fu_mem s) of
             Ok m \<Rightarrow> map_option (\<lambda>r. case r of Ok m \<Rightarrow> (s\<lparr>fu_mem := m\<rparr>, Ok ()) | _ \<Rightarrow> (s, Panic)) (load_files files m)
           | Err e \<Rightarrow> Some (s, Err e)
           | Panic \<Rightarrow> Some (s, Panic)
      else Some (s, Ok ()))"

definition after_refresh :: "fuse_env \<Rightarrow> grizol_fs \<Rightarrow> (grizol_fs \<Rightarrow> grizol_fs \<times> ('a, errno) result) \<Rightarrow> 'a reply" where
  "after_refresh env s handler = map_option (\<lambda>r. io_then r (\<lambda>s _. handler s)) (refresh_expired_folders_files env s)"

section \<open>Attributes and entries\<close>

definition node_of_ino :: "fs_mem \<Rightarrow> nat \<Rightarrow> (fs_node, errno) result" where
  "node_of_ino m ino = and_then (ok_or (fm_nodes m ino) ENOENT) (\<lambda>a. unwrap_opt (upgrade m a))"

definition getattr_mem :: "fuse_env \<Rightarrow> grizol_fs \<Rightarrow> nat \<Rightarrow> file_attr reply" where
  "getattr_mem env s ino =
     after_refresh env s (\<lambda>s.
       (s, if ino = fuse_root_id then Ok (root_dir_attr (fu_config s))
           else and_then (node_of_ino (fu_mem s) ino) (\<lambda>n. attr_from (fu_config s) (node_type n))))"

definition getattr_db :: "fuse_env \<Rightarrow> grizol_fs \<Rightarrow> nat \<Rightarrow> file_attr reply" where
  "getattr_db env s ino =
     (if ino = fuse_root_id then Some (s, Ok (root_dir_attr (fu_config s)))
      else after_refresh env s (\<lambda>s.
        (s, if ino < entries_start
            then and_then (find_folder ino (fu_folders s)) (\<lambda>f.
                 and_then (ok_or f ENOENT) (attr_from_folder (fu_config s)))
            else and_then (find_entry ino (fu_files s)) (\<lambda>f.
                 and_then (ok_or f ENOENT) (attr_from_file (fu_config s))))))"

definition lookup_mem :: "fuse_env \<Rightarrow> grizol_fs \<Rightarrow> nat \<Rightarrow> string \<Rightarrow> file_attr reply" where
  "lookup_mem env s parent_ino name =
     after_refresh env s (\<lambda>s.
       (s, and_then (ok_or (to_str name) EFAULT) (\<lambda>name.
           and_then (node_of_ino (fu_mem s) parent_ino) (\<lambda>parent.
           and_then (ok_or (map_of (children parent) name) ENOENT) (\<lambda>node.
           attr_from (fu_config s) (node_type node))))))"

text \<open>The files of all folders are searched: the folder of the parent is not looked at.\<close>

definition lookup_db :: "fuse_env \<Rightarrow> grizol_fs \<Rightarrow> nat \<Rightarrow> string \<Rightarrow> file_attr reply" where
  "lookup_db env s parent_ino name =
     after_refresh env s (\<lambda>s.
       (s, if parent_ino = fuse_root_id
           then and_then (find_ok (\<lambda>f. map_ok (\<lambda>n. fol_id (gfo_folder f) = n) (unwrap_opt (to_str name)))
                   (fu_folders s)) (\<lambda>f.
                and_then (ok_or f ENOENT) (attr_from_folder (fu_config s)))
           else and_then (parent_dir (fu_files s) parent_ino) (\<lambda>parent_dir.
                and_then (ok_or (find (is_file_in_current_dir parent_dir)
                    (filter (\<lambda>f. file_name (path_components (fi_name (gfi_info f))) = Some name) (fu_files s))) ENOENT)
                  (attr_from_file (fu_config s)))))"

text \<open>
  The entries of a directory from an offset on, until the buffer of the reply is full.
\<close>

fun add_entries ::
    "(dir_entry list \<Rightarrow> dir_entry \<Rightarrow> bool) \<Rightarrow> (dir_entry, 'e) result list \<Rightarrow> dir_entry list \<Rightarrow>
     (dir_entry list, 'e) result" where
  "add_entries fits [] added = Ok added"
| "add_entries fits (e # es) added =
     and_then e (\<lambda>e. if fits added e then add_entries fits es (added @ [e]) else Ok added)"

definition entries_from ::
    "fuse_env \<Rightarrow> int \<Rightarrow> (nat \<Rightarrow> 'a \<Rightarrow> (dir_entry, 'e) result) \<Rightarrow> 'a list \<Rightarrow> (dir_entry list, 'e) result" where
  "entries_from env offset entry xs =
     add_entries (fe_fits env)
       (drop (nat (offset mod 2 ^ 64)) (map (\<lambda>(i, x). entry i x) (enumerate 0 xs))) []"

fun entry_kind :: "grizol_fs_file_type \<Rightarrow> (inode_kind, 'e) result" where
  "entry_kind (Folder f) = Ok Directory"
| "entry_kind (File f) = file_type (fi_type (gfi_info f))"

definition readdir_mem :: "fuse_env \<Rightarrow> grizol_fs \<Rightarrow> nat \<Rightarrow> int \<Rightarrow> dir_entry list reply" where
  "readdir_mem env s ino offset =
     after_refresh env s (\<lambda>s.
       (s, and_then (node_of_ino (fu_mem s) ino) (\<lambda>dir.
           entries_from env offset (\<lambda>i (name, node).
             map_ok (\<lambda>k. \<lparr>de_ino = node_id node, de_offset = int (i + 1), de_kind = k, de_name = name\<rparr>)
               (entry_kind (node_type node))) (iter (fe_order env) dir))))"

definition folder_entry :: "nat \<Rightarrow> grizol_folder \<Rightarrow> (dir_entry, 'e) result" where
  "folder_entry i el =
     map_ok (\<lambda>ino. \<lparr>de_ino = ino, de_offset = int (i + 1), de_kind = Directory, de_name = fol_id (gfo_folder el)\<rparr>)
       (top_dir_id (int (gfo_id el)))"

definition file_entry :: "string \<Rightarrow> nat \<Rightarrow> grizol_file_info \<Rightarrow> (dir_entry, 'e) result" where
  "file_entry dir i el =
     and_then (unwrap_opt (strip_prefix dir (fi_name (gfi_info el)))) (\<lambda>stripped.
     and_then (unwrap_opt (file_name stripped)) (\<lambda>name.
     and_then (entry_id (int (gfi_id el))) (\<lambda>ino.
     map_ok (\<lambda>k. \<lparr>de_ino = ino, de_offset = int (i + 1), de_kind = k, de_name = name\<rparr>)
       (file_type (fi_type (gfi_info el))))))"

definition readdir_db :: "fuse_env \<Rightarrow> grizol_fs \<Rightarrow> nat \<Rightarrow> int \<Rightarrow> dir_entry list reply" where
  "readdir_db env s ino offset =
     after_refresh env s (\<lambda>s.
       (s, if ino = fuse_root_id then entries_from env offset folder_entry (fu_folders s)
           else and_then (top_folder ino (fu_folders s) (fu_files s)) (\<lambda>tf.
                and_then (base_dir ino (fu_files s)) (\<lambda>bd.
                case (tf, bd) of
                  (Some tf, Some bd) \<Rightarrow>
                    entries_from env offset (file_entry bd)
                      (filter (\<lambda>f. gfi_folder f = tf \<and> is_file_in_current_dir bd f) (fu_files s))
                | _ \<Rightarrow> Err ENOENT))))"

section \<open>Reading\<close>

text \<open>An unwrapped result, and a result whose error is replaced.\<close>

fun expect :: "('a, 'd) result \<Rightarrow> ('a, 'e) result" where
  "expect (Ok a) = Ok a"
| "expect (Err e) = Panic"
| "expect Panic = Panic"

fun or_error :: "'e \<Rightarrow> ('a, 'd) result \<Rightarrow> ('a, 'e) result" where
  "or_error e (Ok a) = Ok a"
| "or_error e (Err d) = Err e"
| "or_error e Panic = Panic"

text \<open>Bringing a file into the cache: old files are evicted first, then the file is copied.\<close>

definition fetch_to_cache :: "fuse_env \<Rightarrow> grizol_fs \<Rightarrow> grizol_file_info \<Rightarrow> grizol_fs \<times> (unit, unit) result" where
  "fetch_to_cache env s g_file =
     (if fi_size (gfi_info g_file) < 0 then (s, Panic)
      else
        io_then (s, expect (free_read_cache (fu_state s) (gc_read_cache_size (fu_config s))
          (nat (fi_size (gfi_info g_file))))) (\<lambda>s (st, removed_files).
        let s = s\<lparr>fu_state := st\<rparr> in
        io_then (case free_cached_files (fe_os env) (fu_storage s) removed_files (fu_disk s) of
            (disk, r) \<Rightarrow> (s\<lparr>fu_disk := disk\<rparr>, or_error () r)) (\<lambda>s _.
        io_then (s, or_error () (cp_remote_to_read_cache (fe_rclone env) (fu_storage s) g_file (gfi_locations g_file)))
          (\<lambda>s path_in_cache. (s\<lparr>fu_disk := fe_copied env path_in_cache (fu_disk s)\<rparr>, Ok ())))))"

definition read_from_local_cache ::
    "fuse_env \<Rightarrow> grizol_fs \<Rightarrow> grizol_file_info \<Rightarrow> int \<Rightarrow> nat \<Rightarrow> grizol_fs \<times> (bytes, unit) result" where
  "read_from_local_cache env s g_file offset sz =
     (let folder = gfi_folder g_file; name = fi_name (gfi_info g_file);
          device_id = gc_local_device_id (fu_config s)
      in io_then (if is_file_in_read_cache (fu_state s) device_id folder name then (s, Ok ())
                  else fetch_to_cache env s g_file) (\<lambda>s _.
         io_then (s, expect (update_read_cache (fe_time env) (fu_state s) device_id folder name)) (\<lambda>s st.
         (s\<lparr>fu_state := st\<rparr>,
          or_error () (read_cached (fe_os env) (fe_reads env) (fu_storage s) (fu_disk s) g_file offset sz)))))"

definition read_mem :: "fuse_env \<Rightarrow> grizol_fs \<Rightarrow> nat \<Rightarrow> int \<Rightarrow> nat \<Rightarrow> bytes reply" where
  "read_mem env s ino offset sz =
     after_refresh env s (\<lambda>s.
       if ino < entries_start then (s, Err EISDIR)
       else io_then (s, node_of_ino (fu_mem s) ino) (\<lambda>s node.
         case node_type node of
           Folder _ \<Rightarrow> (s, Err EISDIR)
         | File f \<Rightarrow>
             if fi_size (gfi_info f) < 0 then (s, Panic)
             else if gc_read_cache_size (fu_config s) < nat (fi_size (gfi_info f)) then (s, Err EFBIG)
             else apsnd (or_error EIO) (read_from_local_cache env s f offset sz)))"

section \<open>Renaming in the database\<close>

text \<open>A call on the shared state.\<close>

definition in_fuse :: "(bep_state \<Rightarrow> bep_state \<times> ('a, errno) result) \<Rightarrow> grizol_fs \<Rightarrow> grizol_fs \<times> ('a, errno) result" where
  "in_fuse f s = apfst (\<lambda>st. s\<lparr>fu_state := st\<rparr>) (f (fu_state s))"

text \<open>The top folder and the directory below it that an inode stands for.\<close>

definition find_dirs ::
    "nat \<Rightarrow> grizol_folder list \<Rightarrow> grizol_file_info list \<Rightarrow> ((string option \<times> string option) option, 'e) result" where
  "find_dirs ino folders files =
     (if ino = fuse_root_id then Ok (Some (None, None))
      else if ino < entries_start
      then map_ok (map_option (\<lambda>f. (Some (fol_id (gfo_folder f)), None))) (find_folder ino folders)
      else map_ok (map_option (\<lambda>f. (Some (gfi_folder f), Some (fi_name (gfi_info f))))) (find_entry ino files))"

text \<open>A name in a directory, or at the top of the folder.\<close>

definition name_in :: "string option \<Rightarrow> string \<Rightarrow> string" where
  "name_in dir name = (case dir of Some d \<Rightarrow> d @ ''/'' @ name | None \<Rightarrow> name)"

definition find_orig_file ::
    "string option \<times> string option \<Rightarrow> string \<Rightarrow> grizol_file_info list \<Rightarrow> (grizol_file_info option, 'e) result" where
  "find_orig_file dirs orig_name files =
     find_ok (\<lambda>f. map_ok (\<lambda>name.
         fst dirs = Some (gfi_folder f) \<and> name_in (snd dirs) name = fi_name (gfi_info f) \<and>
         is_file_in_current_dir (case snd dirs of Some d \<Rightarrow> d | None \<Rightarrow> '''') f)
       (unwrap_opt (to_str orig_name))) files"

text \<open>The copy to the new place, the entry there with its locations, and the removal of the old one.\<close>

definition move_in_db ::
    "fuse_env \<Rightarrow> grizol_fs \<Rightarrow> string \<Rightarrow> string \<Rightarrow> string \<Rightarrow> string option \<Rightarrow> string \<Rightarrow>
     grizol_fs \<times> (unit, errno) result" where
  "move_in_db env s orig_folder orig_name dest_folder dest_dir dest_name =
     (let device_id = gc_local_device_id (fu_config s) in
      io_then (s, unwrap_opt (bep_file_info (fu_state s) orig_folder device_id orig_name)) (\<lambda>s fi.
      io_then (s, map_ok (name_in dest_dir) (unwrap_opt (to_str dest_name))) (\<lambda>s dest_file_path.
      io_then (s, storage_cp (fe_rclone env) (fu_storage s) orig_folder (fi_name fi) dest_folder dest_file_path)
        (\<lambda>s res.
      io_then (in_fuse (numbering 1 (\<lambda>st.
          insert_file_info st dest_folder device_id [fi\<lparr>fi_name := dest_file_path\<rparr>])) s) (\<lambda>s _.
      io_then (s, expect (update_file_locations (fu_state s) dest_folder device_id dest_file_path res)) (\<lambda>s st.
      io_then (s\<lparr>fu_state := rm_file_info st orig_folder device_id (fi_name fi)\<rparr>,
          rm_remote (fe_rclone env) (fu_storage s) orig_folder (fi_name fi)) (\<lambda>s _.
      (s, Ok ()))))))))"

definition rename_db :: "fuse_env \<Rightarrow> grizol_fs \<Rightarrow> nat \<Rightarrow> string \<Rightarrow> nat \<Rightarrow> string \<Rightarrow> unit reply" where
  "rename_db env s orig_parent_dir_ino orig_name dest_parent_dir_ino dest_name =
     after_refresh env s (\<lambda>s.
       io_then (s, find_dirs orig_parent_dir_ino (fu_folders s) (fu_files s)) (\<lambda>s orig_parent_dir.
       io_then (s, find_dirs dest_parent_dir_ino (fu_folders s) (fu_files s)) (\<lambda>s dest_parent_dir.
       io_then (s, ok_or orig_parent_dir ENOENT) (\<lambda>s orig_parent_dir.
       io_then (s, ok_or dest_parent_dir ENOENT) (\<lambda>s dest_parent_dir.
       io_then (s, find_orig_file orig_parent_dir orig_name (fu_files s)) (\<lambda>s orig_grizol_file.
       io_then (s, ok_or orig_grizol_file ENOENT) (\<lambda>s orig_grizol_file.
       io_then (s, ok_or (find (\<lambda>f. fst dest_parent_dir = Some (fol_id (gfo_folder f))) (fu_folders s)) ENOENT)
         (\<lambda>s dest_folder.
       move_in_db env s (gfi_folder orig_grizol_file) (fi_name (gfi_info orig_grizol_file))
         (fol_id (gfo_folder dest_folder)) (snd dest_parent_dir) dest_name))))))))"

section \<open>Renaming in the tree\<close>

definition dir_node :: "fs_mem \<Rightarrow> nat \<Rightarrow> (fs_node, errno) result" where
  "dir_node m ino = and_then (unwrap_opt (fm_nodes m ino)) (\<lambda>a. ok_or (upgrade m a) EIO)"

definition name_prefix :: "fs_node \<Rightarrow> string \<Rightarrow> (string, errno) result" where
  "name_prefix dir name =
     map_ok (\<lambda>name. case node_type dir of
         File f \<Rightarrow> fi_name (gfi_info f) @ ''/'' @ name
       | Folder f \<Rightarrow> name) (unwrap_opt (to_str name))"

definition find_child :: "fuse_env \<Rightarrow> fs_node \<Rightarrow> string \<Rightarrow> (fs_node option, errno) result" where
  "find_child env dir full_name =
     map_ok (map_option snd) (find_ok (\<lambda>c. case node_type (snd c) of
         File f \<Rightarrow> Ok (fi_name (gfi_info f) = full_name)
       | Folder _ \<Rightarrow> Panic) (iter (fe_order env) dir))"

text \<open>
  The move of one file: copied to the new name, renamed in the database, removed at the old name.
  The new name is in the folder of the file, also when the new directory is in another.
\<close>

definition move_file :: "fuse_env \<Rightarrow> grizol_fs \<Rightarrow> grizol_file_info \<Rightarrow> string \<Rightarrow> grizol_fs \<times> (unit, errno) result" where
  "move_file env s g_file dest_file_name =
     (case cp_remote_to_remote (fe_rclone env) (fu_storage s) g_file dest_file_name of
        Panic \<Rightarrow> (s, Panic)
      | Err e \<Rightarrow> (s, Ok ())
      | Ok file_locations \<Rightarrow>
          io_then (in_fuse (numbering 1 (\<lambda>st. mv_file_info st (gfi_folder g_file)
              (gc_local_device_id (fu_config s)) (gfi_info g_file) dest_file_name file_locations)) s) (\<lambda>s _.
          io_then (s, rm_remote (fe_rclone env) (fu_storage s) (gfi_folder g_file) (fi_name (gfi_info g_file))) (\<lambda>s _.
          (s, Ok ()))))"

text \<open>The prefix stands at the beginning of a name, where \<^verbatim>\<open>replacen\<close> finds it first.\<close>

fun move_files ::
    "fuse_env \<Rightarrow> string \<Rightarrow> string \<Rightarrow> fs_node list \<Rightarrow> grizol_fs \<Rightarrow> grizol_fs \<times> (unit, errno) result" where
  "move_files env orig_name_prefix dest_name_prefix [] s = (s, Ok ())"
| "move_files env orig_name_prefix dest_name_prefix (n # ns) s =
     (case node_type n of
        Folder _ \<Rightarrow> (s, Panic)
      | File f \<Rightarrow>
          let orig_file_name = fi_name (gfi_info f) in
          if take (length orig_name_prefix) orig_file_name \<noteq> orig_name_prefix then (s, Panic)
          else
            io_then (move_file env s f (dest_name_prefix @ drop (length orig_name_prefix) orig_file_name)) (\<lambda>s _.
            move_files env orig_name_prefix dest_name_prefix ns s))"

definition rename_mem :: "fuse_env \<Rightarrow> grizol_fs \<Rightarrow> nat \<Rightarrow> string \<Rightarrow> nat \<Rightarrow> string \<Rightarrow> unit reply" where
  "rename_mem env s orig_parent_dir_ino orig_name dest_parent_dir_ino dest_name =
     (if orig_parent_dir_ino = 1 then Some (s, Err EPERM)
      else after_refresh env s (\<lambda>s.
        io_then (s, dir_node (fu_mem s) orig_parent_dir_ino) (\<lambda>s orig_parent_dir.
        io_then (s, dir_node (fu_mem s) dest_parent_dir_ino) (\<lambda>s dest_parent_dir.
        io_then (s, name_prefix orig_parent_dir orig_name) (\<lambda>s orig_name_prefix.
        io_then (s, find_child env orig_parent_dir orig_name_prefix) (\<lambda>s orig_file.
        io_then (s, ok_or orig_file ENOENT) (\<lambda>s orig_file.
        io_then (s, name_prefix dest_parent_dir dest_name) (\<lambda>s dest_name_prefix.
        move_files env orig_name_prefix dest_name_prefix (traverse_post (fe_order env) orig_file) s))))))))"

section \<open>The file system interface\<close>

definition getattr :: "fuse_env \<Rightarrow> grizol_fs \<Rightarrow> nat \<Rightarrow> file_attr reply" where
  "getattr env s ino = (if gc_fuse_inmem (fu_config s) then getattr_mem env s ino else getattr_db env s ino)"

definition fs_lookup :: "fuse_env \<Rightarrow> grizol_fs \<Rightarrow> nat \<Rightarrow> string \<Rightarrow> file_attr reply" where
  "fs_lookup env s parent_ino name =
     (if gc_fuse_inmem (fu_config s) then lookup_mem env s parent_ino name else lookup_db env s parent_ino name)"

definition readdir :: "fuse_env \<Rightarrow> grizol_fs \<Rightarrow> nat \<Rightarrow> int \<Rightarrow> dir_entry list reply" where
  "readdir env s ino offset =
     (if gc_fuse_inmem (fu_config s) then readdir_mem env s ino offset else readdir_db env s ino offset)"

definition rename :: "fuse_env \<Rightarrow> grizol_fs \<Rightarrow> nat \<Rightarrow> string \<Rightarrow> nat \<Rightarrow> string \<Rightarrow> unit reply" where
  "rename env s orig_parent_dir_ino orig_name dest_parent_dir_ino dest_name =
     (if gc_fuse_inmem (fu_config s)
      then rename_mem env s orig_parent_dir_ino orig_name dest_parent_dir_ino dest_name
      else rename_db env s orig_parent_dir_ino orig_name dest_parent_dir_ino dest_name)"

definition fs_read :: "fuse_env \<Rightarrow> grizol_fs \<Rightarrow> nat \<Rightarrow> int \<Rightarrow> nat \<Rightarrow> bytes reply" where
  "fs_read env s ino offset sz =
     (if gc_fuse_inmem (fu_config s) then read_mem env s ino offset sz else Some (s, Panic))"

end
