(* ===== verification/State_Invariant.thy ===== *)
theory State_Invariant
  imports Bep_Processor Fuse
begin

text \<open>
  Invariants of the shared state.  The processor (\<^verbatim>\<open>src/src/core/bep_processor.rs\<close>) and the file system
  (\<^verbatim>\<open>src/src/fuse.rs\<close>) change the state only through the methods of \<^verbatim>\<open>BepState\<close>: the locale \<open>state_invariant\<close> asks
  that each method keeps a property, and shows that every section of every handler and every call of the
  file system keeps it, so it holds however they interleave.

  Theories \<open>Queue_Limits\<close> and \<open>Table_Integrity\<close> interpret the locale.
\<close>

section \<open>The calls of the file system\<close>

text \<open>The calls on the shared state that the handlers of the file system make, with any arguments.\<close>

inductive fs_call :: "bep_state \<Rightarrow> bep_state \<Rightarrow> bool" where
  insert: "insert_file_info st folder device_id files = Ok st' \<Longrightarrow> fs_call st st'"
| move: "mv_file_info st folder device_id orig name locations = Ok st' \<Longrightarrow> fs_call st st'"
| numbers: "fs_call st (draw_sequences n st)"
| locate: "update_file_locations st folder device_id name locations = Ok st' \<Longrightarrow> fs_call st st'"
| remove: "fs_call st (rm_file_info st folder device_id name)"
| free: "free_read_cache st cache_size needed_bytes = Ok (st', files) \<Longrightarrow> fs_call st st'"
| cache: "update_read_cache now st device_id folder name = Ok st' \<Longrightarrow> fs_call st st'"

text \<open>What a handler does to the state is a sequence of such calls.\<close>

definition fs_calls :: "grizol_fs \<Rightarrow> grizol_fs \<times> 'a \<Rightarrow> bool" where
  "fs_calls s r \<longleftrightarrow> fs_call\<^sup>*\<^sup>* (fu_state s) (fu_state (fst r))"

lemma fs_calls_id [simp]: "fu_state s' = fu_state s \<Longrightarrow> fs_calls s (s', r)"
  by (simp add: fs_calls_def)

lemma fs_calls_one: "fs_call (fu_state s) (fu_state s') \<Longrightarrow> fs_calls s (s', r)"
  by (simp add: fs_calls_def)

lemma fs_calls_then:
  assumes "fs_calls s r" and "\<And>s' a. r = (s', Ok a) \<Longrightarrow> fs_calls s' (f s' a)"
  shows "fs_calls s (io_then r f)"
proof (cases r)
  case (Pair s' x)
  then show ?thesis using assms by (cases x) (auto simp: fs_calls_def)
qed

lemma fs_calls_numbering:
  assumes "\<And>st'. f (fu_state s) = Ok st' \<Longrightarrow> fs_call (fu_state s) st'"
  shows "fs_calls s (in_fuse (numbering n f) s)"
  using assms
  by (cases "f (fu_state s)") (auto simp: in_fuse_def numbering_def fs_calls_def intro: fs_call.numbers)

lemma fs_calls_apsnd: "fs_calls s r \<Longrightarrow> fs_calls s (apsnd f r)"
  by (simp add: fs_calls_def)

lemma fs_calls_pure:
  assumes "\<And>a. r = Ok a \<Longrightarrow> fs_calls s (f s a)"
  shows "fs_calls s (io_then (s, r) f)"
  using assms by (cases r) simp_all

lemma expect_eq_Ok [simp]: "expect r = Ok a \<longleftrightarrow> r = Ok a"
  by (cases r) auto

lemma fs_calls_expect:
  assumes "\<And>a. r = Ok a \<Longrightarrow> fs_calls s (f s a)"
  shows "fs_calls s (io_then (s, expect r) f)"
  using assms by (cases r) simp_all

lemma fs_calls_trans:
  assumes "fs_call (fu_state s) st" and "fs_calls (s\<lparr>fu_state := st\<rparr>) r"
  shows "fs_calls s r"
  using assms by (simp add: fs_calls_def converse_rtranclp_into_rtranclp)

lemma fs_calls_same: "fu_state s' = fu_state s \<Longrightarrow> fs_calls s' r \<Longrightarrow> fs_calls s r"
  by (simp add: fs_calls_def)

lemma fetch_to_cache_calls: "fs_calls s (fetch_to_cache env s f)"
proof (cases "fi_size (gfi_info f) < 0")
  case False
  have rest: "fs_calls s' (io_then (case x of (disk, r) \<Rightarrow> (s'\<lparr>fu_disk := disk\<rparr>, or_error () r)) (\<lambda>s _.
      io_then (s, or_error () (cp_remote_to_read_cache (fe_rclone env) (fu_storage s) f (gfi_locations f)))
        (\<lambda>s path_in_cache. (s\<lparr>fu_disk := fe_copied env path_in_cache (fu_disk s)\<rparr>, Ok ()))))" for s' x
    by (intro fs_calls_then fs_calls_pure) (auto split: prod.split)
  show ?thesis
    unfolding fetch_to_cache_def Let_def if_not_P [OF False]
    by (rule fs_calls_expect) (auto intro: fs_calls_trans [OF fs_call.free rest])
qed (simp add: fetch_to_cache_def)

lemma read_from_local_cache_calls: "fs_calls s (read_from_local_cache env s f offset sz)"
  unfolding read_from_local_cache_def Let_def
  by (intro fs_calls_then fs_calls_expect)
     (auto intro!: fetch_to_cache_calls fs_calls_one intro: fs_call.cache)

lemma locate_and_remove_calls:
  fixes k :: "grizol_fs \<Rightarrow> ('a, errno) result"
  shows "fs_calls s (io_then (s, expect (update_file_locations (fu_state s) folder dev name res)) (\<lambda>s st.
    io_then (s\<lparr>fu_state := rm_file_info st folder' dev name'\<rparr>, k s) (\<lambda>s _. (s, Ok ()))))"
proof (rule fs_calls_expect)
  fix st assume st: "update_file_locations (fu_state s) folder dev name res = Ok st"
  have "fs_calls (s\<lparr>fu_state := st\<rparr>) (io_then (s\<lparr>fu_state := rm_file_info st folder' dev name'\<rparr>, k s) (\<lambda>s _. (s, Ok ())))"
    by (rule fs_calls_trans [OF fs_call.remove]) (auto intro: fs_calls_pure)
  then show "fs_calls s (io_then (s\<lparr>fu_state := rm_file_info st folder' dev name'\<rparr>, k s) (\<lambda>s _. (s, Ok ())))"
    by (rule fs_calls_trans [OF fs_call.locate [OF st]])
qed

lemma move_in_db_calls: "fs_calls s (move_in_db env s orig_folder orig_name dest_folder dest_dir dest_name)"
  unfolding move_in_db_def Let_def
  by (intro fs_calls_pure fs_calls_then [OF fs_calls_numbering] locate_and_remove_calls) (rule fs_call.insert)

lemma move_file_calls: "fs_calls s (move_file env s f name)"
proof (cases "cp_remote_to_remote (fe_rclone env) (fu_storage s) f name")
  case (Ok ls)
  then show ?thesis
    unfolding move_file_def
    by (auto intro!: fs_calls_then fs_calls_numbering intro: fs_call.move)
qed (simp_all add: move_file_def)

lemma move_files_calls: "fs_calls s (move_files env p q ns s)"
proof (induction ns arbitrary: s)
  case (Cons n ns)
  then show ?case
    by (auto simp: Let_def split: grizol_fs_file_type.split intro!: fs_calls_then move_file_calls)
qed simp

lemma refresh_state:
  assumes "refresh_expired_folders_files env s = Some (s', r)"
  shows "fu_state s' = fu_state s \<and> fu_config s' = fu_config s"
proof (cases "gc_fuse_refresh_rate_ms (fu_config s) \<le> fe_now env - fu_last s")
  case True
  let ?dev = "gc_local_device_id (fu_config s)"
  let ?s = "s\<lparr>fu_folders := top_folders_fuse (fu_state s) ?dev, fu_files := files_fuse (fu_state s) ?dev, fu_last := fe_now env\<rparr>"
  have "\<exists>m. s' = ?s \<or> s' = ?s\<lparr>fu_mem := m\<rparr>"
  proof (cases "for_each (top_folders_fuse (fu_state s) ?dev) fs_insert_folder (fu_mem s) :: (fs_mem, errno) result")
    case (Ok m)
    then obtain z where z: "load_files (files_fuse (fu_state s) ?dev) m = Some z"
      "(case z of Ok m \<Rightarrow> (?s\<lparr>fu_mem := m\<rparr>, Ok ()) | _ \<Rightarrow> (?s, Panic)) = (s', r)"
      using assms True by (auto simp: refresh_expired_folders_files_def Let_def)
    from z(2) show ?thesis by (cases z) auto
  qed (use assms True in \<open>auto simp: refresh_expired_folders_files_def Let_def\<close>)
  then show ?thesis by auto
qed (use assms in \<open>simp add: refresh_expired_folders_files_def\<close>)

lemma after_refresh_calls:
  assumes "after_refresh env s h = Some r" and "\<And>s'. fs_calls s' (h s')"
  shows "fs_calls s r"
proof -
  obtain s' x where x: "refresh_expired_folders_files env s = Some (s', x)" "r = io_then (s', x) (\<lambda>s _. h s)"
    using assms(1) by (auto simp: after_refresh_def)
  have "fs_calls s' (io_then (s', x) (\<lambda>s _. h s))" using assms(2) by (rule fs_calls_pure)
  with refresh_state [OF x(1)] x(2) show ?thesis by (simp add: fs_calls_def)
qed

text \<open>Every handler of the file system, in both variants.\<close>

lemma fs_handlers_call:
  "getattr env s ino = Some r1 \<Longrightarrow> fs_calls s r1"
  "fs_lookup env s ino name = Some r1 \<Longrightarrow> fs_calls s r1"
  "readdir env s ino offset = Some r2 \<Longrightarrow> fs_calls s r2"
  "fs_read env s ino offset sz = Some r3 \<Longrightarrow> fs_calls s r3"
  "rename env s ino name ino' name' = Some r4 \<Longrightarrow> fs_calls s r4"
proof -
  show "getattr env s ino = Some r1 \<Longrightarrow> fs_calls s r1"
    by (auto simp: getattr_def getattr_mem_def getattr_db_def split: if_splits elim!: after_refresh_calls)
  show "fs_lookup env s ino name = Some r1 \<Longrightarrow> fs_calls s r1"
    by (auto simp: fs_lookup_def lookup_mem_def lookup_db_def split: if_splits elim!: after_refresh_calls)
  show "readdir env s ino offset = Some r2 \<Longrightarrow> fs_calls s r2"
    by (auto simp: readdir_def readdir_mem_def readdir_db_def split: if_splits elim!: after_refresh_calls)
  show "fs_read env s ino offset sz = Some r3 \<Longrightarrow> fs_calls s r3"
    by (auto simp: fs_read_def read_mem_def split: if_splits grizol_fs_file_type.split elim!: after_refresh_calls
        intro!: fs_calls_pure fs_calls_apsnd read_from_local_cache_calls)
  show "rename env s ino name ino' name' = Some r4 \<Longrightarrow> fs_calls s r4"
    by (auto simp: rename_def rename_mem_def rename_db_def split: if_splits elim!: after_refresh_calls
        intro!: fs_calls_pure move_files_calls move_in_db_calls)
qed

section \<open>Invariants\<close>

text \<open>\<open>I\<close> is kept by every method of the state; \<open>max_pending\<close> and \<open>max_area\<close> are the limits of the configuration.\<close>

locale state_invariant =
  fixes I :: "bep_state \<Rightarrow> bool" and max_pending :: nat and max_area :: nat
  assumes sequence: "I st \<Longrightarrow> next_sequence_id st = Ok (st', s) \<Longrightarrow> I st'"
    and init: "I st \<Longrightarrow> init_index st folder dev = Ok st' \<Longrightarrow> I st'"
    and config: "I st \<Longrightarrow> update_cluster_config st cc dev = Ok st' \<Longrightarrow> I st'"
    and replace: "I st \<Longrightarrow> replace_index st idx dev = Ok st' \<Longrightarrow> I st'"
    and insert_files: "I st \<Longrightarrow> insert_file_info st folder dev fs = Ok st' \<Longrightarrow> I st'"
    and replace_files: "I st \<Longrightarrow> rm_replace_file_info st folder dev fs = Ok st' \<Longrightarrow> I st'"
    and remove_file: "I st \<Longrightarrow> I (rm_file_info st folder dev name)"
    and move_file: "I st \<Longrightarrow> mv_file_info st folder dev orig name ls = Ok st' \<Longrightarrow> I st'"
    and load_index: "I st \<Longrightarrow> I (fst (bep_index st folder dev))"
    and mark: "I st \<Longrightarrow> update_block_storage_state st i dev = Ok (st', u) \<Longrightarrow> I st'"
    and locate: "I st \<Longrightarrow> update_file_locations st folder dev name bs = Ok st' \<Longrightarrow> I st'"
    and unlocate: "I st \<Longrightarrow> I (remove_file_locations st folder dev name cs)"
    and requests: "I (pr_state p) \<Longrightarrow> I (pr_state (fst (store_outgoing_requests wd blocks p)))"
    and throttle: "I st \<Longrightarrow> bep_update_pending_requests st max_pending max_area = Ok (st', rs) \<Longrightarrow> I st'"
    and answered: "I st \<Longrightarrow> bep_remove_request st i = Ok (st', r) \<Longrightarrow> I st'"
    and free_cache: "I st \<Longrightarrow> free_read_cache st a b = Ok (st', removed) \<Longrightarrow> I st'"
    and fill_cache: "I st \<Longrightarrow> update_read_cache now st dev folder name = Ok st' \<Longrightarrow> I st'"
begin

lemma draw: "I st \<Longrightarrow> I (draw_sequences n st)"
proof (induction n arbitrary: st)
  case (Suc n)
  show ?case
  proof (cases "next_sequence_id st")
    case (Ok x)
    then show ?thesis using Suc.IH [of "fst x"] sequence [OF Suc.prems, of "fst x" "snd x"] by (cases x) simp
  qed (use Suc.prems in simp_all)
qed simp

lemma collect: "I st \<Longrightarrow> I (fst (collect_indices st ks))"
proof (induction ks arbitrary: st)
  case (Cons k ks)
  obtain st1 i where i: "bep_index st (fst k) (snd k) = (st1, i)" by fastforce
  have "I st1" using load_index [OF Cons.prems, of "fst k" "snd k"] i by simp
  from Cons.IH [OF this] show ?case using i by (cases k) (simp add: split_beta)
qed simp

lemma indices: "I st \<Longrightarrow> bep_indices st folder dev client = Ok (st', is) \<Longrightarrow> I st'"
  using collect by (auto simp: bep_indices_def Let_def split: if_splits) (metis fst_conv)+

lemma expected: "I st \<Longrightarrow> expect_index st folder dev = Ok (st', i) \<Longrightarrow> I st'"
  using load_index [of st folder dev] by (auto simp: expect_index_def split: prod.splits option.splits)

text \<open>Calls of the file system.\<close>

lemma fs_call: "fs_call st st' \<Longrightarrow> I st \<Longrightarrow> I st'"
  by (induction rule: fs_call.induct) (blast intro: insert_files move_file draw locate remove_file free_cache fill_cache)+

lemma fs_calls: "fs_calls s r \<Longrightarrow> I (fu_state s) \<Longrightarrow> I (fu_state (fst r))"
  unfolding fs_calls_def by (induction rule: rtranclp_induct) (auto intro: fs_call)

text \<open>Sections of the handlers.\<close>

definition good :: "grizol_config \<Rightarrow> bep_processor \<Rightarrow> bool" where
  "good config p \<longleftrightarrow> pr_config p = config \<and> I (pr_state p)"

lemma good_then:
  assumes "good config (fst r)" and "\<And>p a. good config p \<Longrightarrow> good config (fst (f p a))"
  shows "good config (fst (io_then r f))"
  using assms by (cases r, cases "snd r") auto

lemma good_pure: "good config p \<Longrightarrow> good config (fst (p, r))"
  by simp

lemma good_in_state:
  assumes "good config p" and "\<And>st' a. I (pr_state p) \<Longrightarrow> f (pr_state p) = Ok (st', a) \<Longrightarrow> I st'"
  shows "good config (fst (in_state f p))"
  using assms by (auto simp: in_state_def good_def split: result.split)

lemma good_on_state:
  assumes "good config p" and "\<And>st'. I (pr_state p) \<Longrightarrow> f (pr_state p) = Ok st' \<Longrightarrow> I st'"
  shows "good config (fst (on_state f p))"
  unfolding on_state_def using assms by (auto intro!: good_in_state)

lemma good_numbering:
  assumes "good config p" and "\<And>st'. I (pr_state p) \<Longrightarrow> f (pr_state p) = Ok st' \<Longrightarrow> I st'"
  shows "good config (fst (step_state (numbering n f) p))"
  using assms draw by (auto simp: step_state_def numbering_def good_def split: result.split prod.split)

lemma good_storage: "good config p \<Longrightarrow> good config (fst (in_storage f p))"
  by (auto simp: in_storage_def good_def split: prod.split result.split)

lemma good_requests: "good config p \<Longrightarrow> good config (fst (store_outgoing_requests wd blocks p))"
proof -
  have "pr_config (fst (store_outgoing_requests wd blocks p)) = pr_config p"
    by (cases "requests_from_blocks (load_request_id (pr_state p)) blocks")
       (auto simp: store_outgoing_requests_def Let_def in_state_def step_state_def split: result.split prod.split)
  then show "good config p \<Longrightarrow> good config (fst (store_outgoing_requests wd blocks p))"
    using requests by (simp add: good_def)
qed

lemma good_init_indices: "good config p \<Longrightarrow> good config (fst (init_indices a b fs p))"
  by (induction fs arbitrary: p) (auto intro!: good_then good_on_state intro: init)

lemma good_take_over: "good config p \<Longrightarrow> good config (fst (take_over_config cc a b p))"
  unfolding take_over_config_def
  by (intro good_then good_on_state good_init_indices) (auto intro: config)

lemma good_update_from_index: "good config p \<Longrightarrow> good config (fst (update_from_index idx a b p))"
  unfolding update_from_index_def Let_def
  by (intro good_then good_numbering good_in_state) (auto intro: replace expected insert_files)

lemma good_update_from_index_update: "good config p \<Longrightarrow> good config (fst (update_from_index_update idx a b p))"
  unfolding update_from_index_update_def Let_def
  by (intro good_then good_numbering good_in_state) (auto intro: replace_files expected)

lemma good_unstored: "good config (fst r) \<Longrightarrow> good config (fst (unstored_blocks dev r))"
  unfolding unstored_blocks_def by (intro good_then) auto

lemma good_mark: "good config p \<Longrightarrow> good config (fst (mark_block i dev p))"
  unfolding mark_block_def by (intro good_then good_in_state) (auto intro: mark)

lemmas good_sections = good_take_over good_update_from_index good_update_from_index_update good_unstored good_mark
  good_requests good_storage

text \<open>Every handler.\<close>

lemma keeps_section: "(\<And>p. good config p \<Longrightarrow> good config (fst (f p))) \<Longrightarrow> keeps (good config) (critical f)"
  by (simp add: keeps_critical)

lemma keeps_conclude_file: "keeps (good config) (conclude_file wd config request n b)"
  unfolding conclude_file_def copy_to_remote_def drop_local_def
  by (auto intro!: keeps_then keeps_section good_storage good_on_state intro: locate unlocate)

lemma keeps_store_response_data: "keeps (good config) (store_response_data wd config request response)"
  unfolding store_response_data_def
  by (auto simp: file_sizes_def split: prod.split
      intro!: keeps_then keeps_section good_storage good_mark keeps_conclude_file)

lemma good_answered: "good config p \<Longrightarrow> good config (fst (in_state (\<lambda>st. bep_remove_request st i) p))"
  by (erule good_in_state) (erule (1) answered)

lemma keeps_process_response: "keeps (good config) (process_response wd config response)"
  unfolding process_response_def
  by (auto split: option.split
      intro!: keeps_then keeps_after keeps_section keeps_store_response_data good_answered)

lemma good_indices: "good config p \<Longrightarrow> good config (fst (in_state (\<lambda>st. bep_indices st folder dev client) p))"
  by (erule good_in_state) (erule (1) indices)

lemma keeps_cluster_config: "keeps (good config) (handle_cluster_config config cc client)"
  unfolding handle_cluster_config_def processor_indices_def processor_cluster_config_def
  by (intro keeps_then keeps_section good_take_over good_indices) simp_all

lemma keeps_index: "keeps (good config) (handle_index wd config idx client)"
  unfolding handle_index_def by (intro keeps_then keeps_section good_sections) simp_all

lemma keeps_index_update: "keeps (good config) (handle_index_update wd config idx client)"
  unfolding handle_index_update_def by (intro keeps_then keeps_section good_sections) simp_all

lemma message_task_keeps: "keeps (good config) (message_task wd config m client)"
proof (cases m)
  case (Response r)
  then show ?thesis by (auto simp: handle_response_def intro!: keeps_after keeps_process_response)
qed (simp_all add: handle_hello_def handle_request_def handle_ping_def handle_close_def keeps_index
    keeps_index_update keeps_cluster_config)

lemma throttled_good:
  assumes "good config p" and "max_pending = gc_max_pending_requests config"
    and "max_area = gc_max_total_pending_requests_size config"
  shows "good config (fst (throttled_requests p))"
  unfolding throttled_requests_def
proof (rule good_in_state [OF assms(1)])
  fix st' rs
  assume I: "I (pr_state p)" and "bep_update_pending_requests (pr_state p) (gc_max_pending_requests (pr_config p))
      (gc_max_total_pending_requests_size (pr_config p)) = Ok (st', rs)"
  then have "bep_update_pending_requests (pr_state p) max_pending max_area = Ok (st', rs)"
    using assms by (simp add: good_def)
  then show "I st'" by (rule throttle [OF I])
qed

end

end
