(* ===== verification/Index_Exchange.thy ===== *)
theory Index_Exchange
  imports Bep_Processor
begin

text \<open>
  Indices received from a peer: which files the comparison of two indices adds
  (\<^verbatim>\<open>diff_indices\<close> of \<^verbatim>\<open>src/src/core/bep_processor.rs\<close>), and that every missing block is requested
  afterwards.
\<close>

section \<open>Versions\<close>

definition max_value :: "file_info \<Rightarrow> u64" where
  "max_value f = Max (ctr_value ` set (vec_counters (the (fi_version f))))"

definition has_version :: "file_info \<Rightarrow> bool" where
  "has_version f \<longleftrightarrow> (\<exists>v. fi_version f = Some v \<and> vec_counters v \<noteq> [])"

lemma max_counter_fold:
  "fold (\<lambda>c best. case best of None \<Rightarrow> Some c | Some b \<Rightarrow> if ctr_value b \<le> ctr_value c then Some c else Some b) cs (Some b)
   = Some m \<Longrightarrow> m \<in> insert b (set cs) \<and> ctr_value m = Max (ctr_value ` insert b (set cs))"
proof (induction cs arbitrary: b)
  case Nil
  then show ?case by simp
next
  case (Cons c cs)
  let ?b = "if ctr_value b \<le> ctr_value c then c else b"
  have IH: "m \<in> insert ?b (set cs)" "ctr_value m = Max (ctr_value ` insert ?b (set cs))"
    using Cons.IH [of ?b] Cons.prems by (auto split: if_splits)
  have "Max (ctr_value ` insert b (set (c # cs))) = Max (insert (max (ctr_value b) (ctr_value c)) (ctr_value ` set cs))"
    by (cases "cs = []") (simp_all add: max.assoc)
  also have "\<dots> = ctr_value m" unfolding IH(2) by (simp add: max_def)
  finally show ?case using IH(1) by (auto split: if_splits)
qed

lemma max_counter_total: "cs \<noteq> [] \<Longrightarrow> \<exists>m. max_counter cs = Some m"
proof -
  have "\<exists>m. fold (\<lambda>c best. case best of None \<Rightarrow> Some c
    | Some b \<Rightarrow> if ctr_value b \<le> ctr_value c then Some c else Some b) cs (Some b) = Some m" for b cs
    by (induction cs arbitrary: b) auto
  then show "cs \<noteq> [] \<Longrightarrow> ?thesis" by (cases cs) (simp_all add: max_counter_def)
qed

lemma max_counter_Max:
  assumes "max_counter cs = Some m"
  shows "m \<in> set cs" "ctr_value m = Max (ctr_value ` set cs)"
proof -
  have "cs \<noteq> []" using assms by (auto simp: max_counter_def)
  then show "m \<in> set cs" "ctr_value m = Max (ctr_value ` set cs)"
    using max_counter_fold [of "tl cs" "hd cs" m] assms by (cases cs; simp add: max_counter_def)+
qed

lemma file_max_counter_total:
  assumes "has_version f"
  obtains v m where "fi_version f = Some v" "max_counter (vec_counters v) = Some m" "ctr_value m = max_value f"
proof -
  obtain v where v: "fi_version f = Some v" "vec_counters v \<noteq> []" using assms by (auto simp: has_version_def)
  obtain m where "max_counter (vec_counters v) = Some m" using max_counter_total [OF v(2)] by blast
  with that v show ?thesis using max_counter_Max(2) by (simp add: max_value_def)
qed

section \<open>The difference of two indices\<close>

text \<open>Two versions of a file that neither the counters nor the times tell apart.\<close>

definition tied :: "file_info \<Rightarrow> file_info \<Rightarrow> bool" where
  "tied a b \<longleftrightarrow> partial_cmp_file_version a b = (Ok None :: (ordering option, unit) result) \<and>
     fi_modified_s a = fi_modified_s b \<and> fi_modified_ns a = fi_modified_ns b"

lemma diff_file_cases:
  assumes "has_version f" and "\<forall>e. old (fi_name f) = Some e \<longrightarrow> has_version e \<and> \<not> tied e f"
  shows "\<exists>diff'. diff_file old f diff = Ok diff' \<and> newly_added_files diff' = newly_added_files diff @
    (if (case old (fi_name f) of None \<Rightarrow> True | Some e \<Rightarrow> max_value e < max_value f) then [f] else [])"
proof (cases "old (fi_name f)")
  case (Some e)
  then have e: "has_version e" "\<not> tied e f" using assms(2) by auto
  obtain v m where m: "fi_version e = Some v" "max_counter (vec_counters v) = Some m" "ctr_value m = max_value e"
    by (rule file_max_counter_total [OF e(1)])
  obtain v' n where n: "fi_version f = Some v'" "max_counter (vec_counters v') = Some n" "ctr_value n = max_value f"
    by (rule file_max_counter_total [OF assms(1)])
  show ?thesis
    using Some m n e(2) by (auto simp: diff_file_def partial_cmp_file_version_def partial_cmp_file_timestamp_def
        tied_def file_max_counter_def)
qed (simp add: diff_file_def)

lemma diff_loop:
  assumes "\<forall>f \<in> set fs. has_version f \<and> (\<forall>e. old (fi_name f) = Some e \<longrightarrow> has_version e \<and> \<not> tied e f)"
  shows "\<exists>diff'. for_each fs (diff_file old) diff = Ok diff' \<and> newly_added_files diff' = newly_added_files diff @
    filter (\<lambda>f. case old (fi_name f) of None \<Rightarrow> True | Some e \<Rightarrow> max_value e < max_value f) fs"
  using assms
proof (induction fs arbitrary: diff)
  case (Cons f fs)
  then obtain d1 where d1: "diff_file old f diff = Ok d1" "newly_added_files d1 = newly_added_files diff @
    (if (case old (fi_name f) of None \<Rightarrow> True | Some e \<Rightarrow> max_value e < max_value f) then [f] else [])"
    using diff_file_cases [of f old diff] by auto
  then show ?case using Cons.IH [of d1] Cons.prems by auto
qed simp

section \<open>Requests for the missing blocks\<close>

definition ids_below :: "bep_state \<Rightarrow> bool" where
  "ids_below st \<longleftrightarrow> (\<forall>i e. abs_queue (bs_outgoing st) i = Some e \<longrightarrow> i \<le> bs_request_id st)"

definition asks_for :: "request \<Rightarrow> block_info_ext \<Rightarrow> bool" where
  "asks_for r b \<longleftrightarrow> req_folder r = bx_folder b \<and> req_name r = bx_name b \<and> req_offset r = bx_offset b \<and>
     req_size r = bx_size b \<and> req_hash r = bx_hash b"

lemma requests_from_blocks_Ok:
  assumes "- (2 ^ 31) \<le> i" and "i + int (length bs) < 2 ^ 31"
  shows "\<exists>rs. requests_from_blocks i bs = Ok rs \<and> map req_id rs = [i + 1..i + int (length bs)] \<and>
    list_all2 asks_for rs bs \<and> (\<forall>r \<in> set rs. \<not> req_from_temporary r)"
  using assms
proof (induction bs arbitrary: i)
  case (Cons b bs)
  have "- (2 ^ 31) \<le> i + 1" "i + 1 + int (length bs) < 2 ^ 31" using Cons.prems by simp_all
  from Cons.IH [OF this] obtain rs where rs: "requests_from_blocks (i + 1) bs = Ok rs"
    "map req_id rs = [i + 1 + 1..i + 1 + int (length bs)]" "list_all2 asks_for rs bs"
    "\<forall>r \<in> set rs. \<not> req_from_temporary r" by blast
  have "in_int32 (i + 1)" using Cons.prems by (simp add: in_int32_def)
  moreover have "[i + 1..i + int (length (b # bs))] = (i + 1) # [i + 1 + 1..i + 1 + int (length bs)]"
    by (subst upto_rec1) (simp_all add: algebra_simps)
  ultimately show ?case using rs by (auto simp: asks_for_def [of _ b])
qed (simp add: upto_empty)

lemma fold_max_upto:
  "map req_id rs = [i + 1..i + int n] \<Longrightarrow>
   (case map req_id rs of [] \<Rightarrow> i | x # xs \<Rightarrow> fold max xs x) = i + int n"
proof -
  have fm: "fold max xs x = Max (insert x (set xs))" for x :: int and xs
    by (metis Max.set_eq_fold list.simps(15))
  assume ids: "map req_id rs = [i + 1..i + int n]"
  show ?thesis
  proof (cases n)
    case (Suc m)
    then have "[i + 1..i + int n] = (i + 1) # [2 + i..i + int n]" by (subst upto_rec1) simp_all
    moreover have "insert (i + 1) (set [2 + i..i + int n]) = {i + 1..i + int n}" using Suc by auto
    moreover have "Max {i + 1..i + int n} = i + int n" using Suc by (intro Max_eqI) auto
    ultimately show ?thesis unfolding ids by (simp add: fm)
  qed (simp add: ids)
qed

lemma store_outgoing_requests_spec:
  fixes p :: bep_processor
  defines "st \<equiv> pr_state p"
  assumes "queue_wf (bs_outgoing st)" and "ids_below st" and "0 \<le> bs_request_id st"
    and "bs_request_id st + int (length bs) < 2 ^ 31" and "\<forall>b \<in> set bs. length (bx_hash b) = 32"
  shows "\<exists>st' added. store_outgoing_requests wd bs p = (p\<lparr>pr_state := st'\<rparr>, Ok added) \<and> queue_wf (bs_outgoing st') \<and>
    ids_below st' \<and> bs_db st' = bs_db st \<and> bs_indices st' = bs_indices st \<and>
    (\<forall>b \<in> set bs. \<exists>i r sent. abs_queue (bs_outgoing st') i = Some (r, sent) \<and> asks_for r b)"
proof -
  let ?i = "bs_request_id st" and ?n = "int (length bs)" and ?q = "without_old (wd_now wd) (bs_outgoing st)"
  obtain rs where rs: "requests_from_blocks ?i bs = Ok rs" "map req_id rs = [?i + 1..?i + ?n]"
    "list_all2 asks_for rs bs" "\<forall>r \<in> set rs. \<not> req_from_temporary r"
    using requests_from_blocks_Ok [OF _ assms(5)] assms(4) by fastforce
  have old: "remove_old_requests (wd_now wd) (bs_outgoing st) = Ok ?q" "queue_wf ?q"
    using remove_old_requests_eq without_old_wf assms(2) by blast+
  have below: "i \<le> ?i" if "abs_queue ?q i = Some e" for i e
  proof -
    have "abs_queue (bs_outgoing st) i \<noteq> None"
      using that by (auto simp: abs_queue_def without_old_def split: option.splits if_splits)
    then show ?thesis using assms(3) by (auto simp: ids_below_def)
  qed
  have new: "abs_queue ?q (req_id r) = None \<and> length (req_hash r) = 32" if "r \<in> set rs" for r
  proof -
    have "req_id r \<in> set [?i + 1..?i + ?n]" using that unfolding rs(2) [symmetric] by simp
    then have "abs_queue ?q (req_id r) = None" using below [of "req_id r"] by (cases "abs_queue ?q (req_id r)") auto
    moreover have "\<exists>b \<in> set bs. asks_for r b" using rs(3) that by (metis in_set_conv_nth list_all2_conv_all_nth)
    ultimately show ?thesis using assms(6) by (auto simp: asks_for_def)
  qed
  have dist: "distinct (map req_id rs)" unfolding rs(2) by simp
  have "\<forall>r \<in> set rs. abs_queue ?q (req_id r) = None \<and> length (req_hash r) = 32" using new by blast
  from outgoing.insert_all_spec [OF old(2) dist this, of "wd_clk wd"]
  obtain q' added where q': "insert_all insert_request (wd_clk wd) ?q rs = (q', Ok added)" "queue_wf q'"
    "set added \<subseteq> set rs" "\<forall>r \<in> set rs. outgoing.holds q' r"
    "\<forall>i. abs_queue q' i = (case find (\<lambda>r. req_id r = i) added of Some r \<Rightarrow> Some (r, False) | None \<Rightarrow> abs_queue ?q i)"
    by blast
  let ?st = "st\<lparr>bs_request_id := ?i + ?n, bs_outgoing := q'\<rparr>"
  have fm: "(case map req_id rs of [] \<Rightarrow> ?i | x # xs \<Rightarrow> fold max xs x) = ?i + ?n"
    using fold_max_upto [of rs ?i "length bs"] rs(2) by simp
  have "store_outgoing_requests wd bs p = (p\<lparr>pr_state := ?st\<rparr>, Ok added)"
    using assms(4,5) rs(1) fm old(1) q'(1)
    by (simp add: store_outgoing_requests_def load_request_id_def fetch_add_request_id_def insert_requests_def
        in_int32_def in_state_def step_state_def Let_def flip: st_def)
  moreover have "ids_below ?st"
    unfolding ids_below_def
  proof (intro allI impI)
    fix i e assume e: "abs_queue (bs_outgoing ?st) i = Some e"
    show "i \<le> bs_request_id ?st"
    proof (cases "find (\<lambda>r. req_id r = i) added")
      case None
      then show ?thesis using e q'(5) below [of i e] by simp
    next
      case (Some r)
      then have "i \<in> set (map req_id rs)" using q'(3) by (auto dest!: find_SomeD)
      then show ?thesis unfolding rs(2) by simp
    qed
  qed
  moreover have "\<exists>i r sent. abs_queue (bs_outgoing ?st) i = Some (r, sent) \<and> asks_for r b" if b: "b \<in> set bs" for b
  proof -
    obtain r where r: "r \<in> set rs" "asks_for r b" using rs(3) b by (metis in_set_conv_nth list_all2_conv_all_nth)
    obtain j s sent where s: "abs_queue q' j = Some (s, sent)" "oreq_of s = oreq_of r"
      using q'(4) r(1) unfolding outgoing.holds_def by blast
    from s(2) r(2) have "asks_for s b" by (simp add: asks_for_def oreq_of_def)
    with s(1) show ?thesis by auto
  qed
  ultimately show ?thesis using q'(2) by (intro exI [of _ ?st] exI [of _ added]) auto
qed

section \<open>Properties\<close>

text \<open>
  Claim C8. Comparing a received index with a stored one: when every file has a version and no two
  versions are tied, the comparison succeeds and the files to be added are exactly the received
  files that are not stored or whose largest counter is larger than the one of the stored file, in
  the order of the message.
\<close>

theorem diff_indices_newer:
  assumes "idx_folder added = folder \<or> idx_folder existing = folder"
    and "\<forall>f \<in> set (idx_files added). has_version f \<and>
      (\<forall>e. file_named existing (fi_name f) = Some e \<longrightarrow> has_version e \<and> \<not> tied e f)"
  shows "\<exists>diff. diff_indices folder added existing = Ok diff \<and>
    newly_added_files diff = filter (\<lambda>f. case file_named existing (fi_name f) of
      None \<Rightarrow> True | Some e \<Rightarrow> max_value e < max_value f) (idx_files added)"
  using diff_loop [OF assms(2), of "\<lparr>newly_added_files = [], newly_added_conflicting_files = [],
      existing_conflicting_files = []\<rparr>"] assms(1)
  by (auto simp: diff_indices_def file_named_def Let_def)

definition newer_sample :: file_info where
  "newer_sample = sample_file\<lparr>fi_version := Some \<lparr>vec_counters = [\<lparr>ctr_id = 4, ctr_value = 1\<rparr>, \<lparr>ctr_id = 3, ctr_value = 2\<rparr>]\<rparr>\<rparr>"

theorem diff_indices_newer_witness:
  "\<exists>diff. diff_indices ''f'' \<lparr>idx_folder = ''f'', idx_files = [newer_sample]\<rparr>
      \<lparr>idx_folder = ''f'', idx_files = [sample_file]\<rparr> = Ok diff \<and> newly_added_files diff = [newer_sample]"
proof -
  have "\<forall>f \<in> set (idx_files \<lparr>idx_folder = ''f'', idx_files = [newer_sample]\<rparr>). has_version f \<and>
      (\<forall>e. file_named \<lparr>idx_folder = ''f'', idx_files = [sample_file]\<rparr> (fi_name f) = Some e \<longrightarrow>
         has_version e \<and> \<not> tied e f)"
    by (simp add: newer_sample_def sample_file_def file_named_def has_version_def tied_def
        partial_cmp_file_version_def file_max_counter_def max_counter_def)
  from diff_indices_newer [OF _ this, of "''f''"] show ?thesis
    by (simp add: newer_sample_def sample_file_def file_named_def max_value_def)
qed

lemma diff_file_not_Err: "diff_file old f diff \<noteq> Err e"
  by (auto simp: diff_file_def partial_cmp_file_version_def partial_cmp_file_timestamp_def file_max_counter_def
      split: option.splits ordering.splits if_splits)

lemma for_each_panics:
  assumes "x \<in> set xs" and "\<And>s. body x s = Panic" and "\<And>y s e. body y s \<noteq> Err e"
  shows "for_each xs body s = Panic"
  using assms(1)
proof (induction xs arbitrary: s)
  case (Cons y ys)
  show ?case
  proof (cases "body y s")
    case (Ok s')
    then show ?thesis using Cons assms(2) by (cases "y = x") auto
  qed (use assms(3) in auto)
qed simp

text \<open>
  Claim C39. Two versions of a file written by different devices, with the same largest counter and
  the same modification time, make the handler of an index panic.
\<close>

theorem diff_indices_tie_panics:
  assumes "f \<in> set (idx_files added)" and "file_named existing (fi_name f) = Some e" and "tied e f"
    and "idx_folder added = folder"
  shows "diff_indices folder added existing = Panic"
proof -
  let ?old = "map_of (rev (map (\<lambda>f. (fi_name f, f)) (idx_files existing)))"
  obtain v v' m n where mn: "fi_version e = Some v" "max_counter (vec_counters v) = Some m"
    "fi_version f = Some v'" "max_counter (vec_counters v') = Some n"
    "ctr_value m = ctr_value n" "ctr_id m \<noteq> ctr_id n"
    using assms(3) by (auto simp: tied_def partial_cmp_file_version_def file_max_counter_def split: if_splits)
  then have "diff_file ?old f diff = Panic" for diff
    using assms(2,3)
    by (simp add: diff_file_def partial_cmp_file_version_def partial_cmp_file_timestamp_def file_max_counter_def
        file_named_def tied_def)
  then have "for_each (idx_files added) (diff_file ?old) diff = Panic" for diff
    by (rule for_each_panics [where body = "diff_file ?old", OF assms(1)]) (rule diff_file_not_Err)
  then show ?thesis using assms(4) by (simp add: diff_indices_def Let_def)
qed

theorem diff_indices_tie_panics_witness:
  "diff_indices ''f''
     \<lparr>idx_folder = ''f'', idx_files = [sample_file\<lparr>fi_version := Some \<lparr>vec_counters = [\<lparr>ctr_id = 4, ctr_value = 1\<rparr>]\<rparr>\<rparr>]\<rparr>
     \<lparr>idx_folder = ''f'', idx_files = [sample_file]\<rparr> = Panic"
  by (rule diff_indices_tie_panics [where e = sample_file
        and f = "sample_file\<lparr>fi_version := Some \<lparr>vec_counters = [\<lparr>ctr_id = 4, ctr_value = 1\<rparr>]\<rparr>\<rparr>"])
     (simp_all add: sample_file_def file_named_def tied_def partial_cmp_file_version_def file_max_counter_def
       max_counter_def)

text \<open>
  Claim C9. After an index or an index update has been taken over, every block of a local file that
  is not stored is asked for by a request of the queue, already known or new, and the writing task
  is told; the tables are left as they are.
\<close>

theorem index_requests_missing_blocks:
  assumes "m = Index idx \<and> update_from_index idx client L p = (p1, Ok ()) \<or>
      m = IndexUpdate idx \<and> update_from_index_update idx client L p = (p1, Ok ())"
    and "L = gc_local_device_id (pr_config p)" and "st = pr_state p1" and "queue_wf (bs_outgoing st)" and "ids_below st"
    and "0 \<le> bs_request_id st" and "bs_request_id st + int (length (blocks_info st L NotStored)) < 2 ^ 31"
    and "\<forall>row \<in> set (db_blocks (bs_db st)). length (bi_hash (br_block row)) = 32"
  shows "\<exists>p'. handle_complete_message wd m client p = (p', Ok [Ok RequestCreated]) \<and>
    bs_db (pr_state p') = bs_db st \<and> queue_wf (bs_outgoing (pr_state p')) \<and>
    (\<forall>row \<in> set (db_blocks (bs_db st)). fst (snd (br_key row)) = L \<and> br_status row = 0 \<longrightarrow>
      (\<exists>i r sent. abs_queue (bs_outgoing (pr_state p')) i = Some (r, sent) \<and>
        req_folder r = fst (br_key row) \<and> req_name r = snd (snd (br_key row)) \<and>
        req_offset r = bi_offset (br_block row) \<and> req_size r = bi_size (br_block row) \<and>
        req_hash r = bi_hash (br_block row)))"
proof -
  let ?bs = "blocks_info st L NotStored"
  have "\<forall>b \<in> set ?bs. length (bx_hash b) = 32" using assms(8) by (auto simp: blocks_info_def)
  from store_outgoing_requests_spec [of p1, folded assms(3), OF assms(4-7) this, of wd]
  obtain st' added where st': "store_outgoing_requests wd ?bs p1 = (p1\<lparr>pr_state := st'\<rparr>, Ok added)" "queue_wf (bs_outgoing st')"
    "bs_db st' = bs_db st"
    "\<forall>b \<in> set ?bs. \<exists>i r sent. abs_queue (bs_outgoing st') i = Some (r, sent) \<and> asks_for r b" by blast
  have run: "handle_complete_message wd m client p = (p1\<lparr>pr_state := st'\<rparr>, Ok [Ok RequestCreated])"
    using assms(1) st'(1) unfolding assms(2,3)
    by (auto simp: handle_complete_message_def handle_index_def handle_index_update_def unstored_blocks_def)
  have "\<exists>i r sent. abs_queue (bs_outgoing st') i = Some (r, sent) \<and>
        req_folder r = fst (br_key row) \<and> req_name r = snd (snd (br_key row)) \<and>
        req_offset r = bi_offset (br_block row) \<and> req_size r = bi_size (br_block row) \<and>
        req_hash r = bi_hash (br_block row)"
    if row: "row \<in> set (db_blocks (bs_db st))" "fst (snd (br_key row)) = L" "br_status row = 0" for row
  proof -
    let ?b = "\<lparr>bx_device_id = L, bx_folder = fst (br_key row), bx_name = snd (snd (br_key row)),
      bx_hash = bi_hash (br_block row), bx_size = bi_size (br_block row), bx_offset = bi_offset (br_block row)\<rparr>"
    have "?b \<in> set ?bs" using row by (auto simp: blocks_info_def)
    from st'(4) [rule_format, OF this] show ?thesis by (simp add: asks_for_def)
  qed
  then show ?thesis
    using st'(2,3) by (intro exI [of _ "p1\<lparr>pr_state := st'\<rparr>"] conjI run) auto
qed

definition sample_processor :: "bep_state \<Rightarrow> bep_processor" where
  "sample_processor st = \<lparr>pr_config = sample_config, pr_state = st, pr_storage = (sample_manager, Map.empty)\<rparr>"

definition sample_world :: world where
  "sample_world = \<lparr>wd_hash = \<lambda>_ _ _. 0, wd_os = os_works, wd_rclone = \<lambda>_. Exited 1 [],
     wd_sha256 = \<lambda>_. replicate 32 7, wd_now = 0, wd_clk = \<lambda>_. 0\<rparr>"

theorem index_requests_missing_blocks_witness:
  "\<exists>p' i r sent. handle_complete_message sample_world (Index \<lparr>idx_folder = ''f'', idx_files = []\<rparr>)
       \<lparr>dev_bytes = replicate 32 9\<rparr> (sample_processor ((sample_state 5 [sample_block 0])\<lparr>bs_request_id := 1\<rparr>)) =
       (p', Ok [Ok RequestCreated]) \<and>
     abs_queue (bs_outgoing (pr_state p')) i = Some (r, sent) \<and> req_name r = ''a'' \<and> req_hash r = replicate 32 7"
proof -
  let ?st = "(sample_state 5 [sample_block 0])\<lparr>bs_request_id := 1\<rparr>"
  let ?row = "\<lparr>br_key = (''f'', sample_device, ''a''), br_block = sample_block 0, br_status = 0\<rparr>"
  let ?client = "\<lparr>dev_bytes = replicate 32 9\<rparr> :: device_id"
  have wf: "queue_wf small_queue" using queue_run_limits [OF small_queue_run] by (simp add: queue_limits_def)
  have ne: "sample_device \<noteq> ?client" by (simp add: sample_device_def)
  obtain p1 where st: "update_from_index \<lparr>idx_folder = ''f'', idx_files = []\<rparr> ?client sample_device
      (sample_processor ?st) = (p1, Ok ())"
    and e: "bs_outgoing (pr_state p1) = small_queue" "bs_request_id (pr_state p1) = 1" "db_blocks (bs_db (pr_state p1)) = [?row]"
    using ne by (simp add: update_from_index_def io_then_eq_Ok in_state_Ok replace_index_def expect_index_def bep_index_def
        diff_indices_def expect_diff_def insert_file_info_def delete_files_def in_folder_def sample_state_defs Let_def
        grizol_indices_default_def indices_index_def indices_insert_def sample_processor_def split: option.splits)
  let ?st1 = "pr_state p1"
  have "\<exists>p'. handle_complete_message sample_world (Index \<lparr>idx_folder = ''f'', idx_files = []\<rparr>) ?client (sample_processor ?st) =
      (p', Ok [Ok RequestCreated]) \<and> bs_db (pr_state p') = bs_db ?st1 \<and> queue_wf (bs_outgoing (pr_state p')) \<and>
    (\<forall>row \<in> set (db_blocks (bs_db ?st1)). fst (snd (br_key row)) = sample_device \<and> br_status row = 0 \<longrightarrow>
      (\<exists>i r sent. abs_queue (bs_outgoing (pr_state p')) i = Some (r, sent) \<and>
        req_folder r = fst (br_key row) \<and> req_name r = snd (snd (br_key row)) \<and>
        req_offset r = bi_offset (br_block row) \<and> req_size r = bi_size (br_block row) \<and>
        req_hash r = bi_hash (br_block row)))"
  proof (rule index_requests_missing_blocks)
    show "ids_below ?st1" using e by (auto simp: ids_below_def abs_queue_def small_queue_def split: if_splits)
  qed (use st wf e in \<open>simp_all add: sample_processor_def sample_config_def blocks_info_def sample_block_def\<close>)
  then show ?thesis unfolding e(3) by (auto simp: sample_block_def)
qed

end
