(* ===== verification/Queue_Limits.thy ===== *)
theory Queue_Limits
  imports State_Invariant Index_Exchange
begin

text \<open>
  The limits of the queue of requests through every method of the state (\<^verbatim>\<open>src/src/core/bep_state.rs\<close>),
  without any assumption on what the peers send: also a request of negative size, which the queue turns
  into a huge number, is never sent.

  Methods on tables and indices keep the queue (\<open>same_queue\<close>); requests, responses and the
  throttling keep it within the limits (\<open>state_within\<close>): the interpretation \<open>limits\<close> of \<open>state_invariant\<close>.
\<close>

section \<open>The limits of the queue, whatever the sizes are\<close>

definition queue_within :: "nat \<Rightarrow> nat \<Rightarrow> outgoing_requests \<Rightarrow> bool" where
  "queue_within max_pending max_area q \<longleftrightarrow>
     queue_wf q \<and> card (pending_requests q) \<le> max_pending \<and> requested_size q \<le> max_area \<and>
     card (file_names q) \<le> max_files"

lemma queue_within_default: "queue_within max_pending max_area outgoing_requests_default"
  using queue_wf_default by (simp add: queue_within_def outgoing_requests_default_def file_names_def)

lemma update_pending_loop_within:
  assumes "update_pending_loop slots max_area es q sent (file_names q) = Ok (q', sent')"
    and "queue_wf q" and "\<forall>(a, i, t) \<in> set es. request_at q i a"
    and "requested_size q \<le> max_area" and "card (file_names q) \<le> max_files"
  shows "queue_wf q' \<and> requested_size q' \<le> max_area \<and> card (file_names q') \<le> max_files \<and>
    card (pending_requests q') \<le> card (pending_requests q) + (slots - length sent) \<and>
    requests_by_id q' = requests_by_id q"
  using assms
proof (induction es arbitrary: q sent)
  case Nil
  then show ?case by simp
next
  case (Cons e es)
  obtain a i t where e: "e = (a, i, t)" by (cases e) auto
  let ?sz = "requested_size q + as_usize (oreq_size a)"
  consider (stop) "q' = q"
    | (pending) "update_pending_loop slots max_area es q sent (file_names q) = Ok (q', sent')"
    | (fresh) r where "a \<notin> pending_requests q" "card (file_names q) < max_files \<or> oreq_name a \<in> file_names q"
        "length sent < slots" "?sz \<le> max_area" "requests_by_id q i = Some r"
        "update_pending_loop slots max_area es
          (q\<lparr>pending_requests := insert a (pending_requests q), requested_size := ?sz\<rparr>)
          (sent @ [r]) (insert (oreq_name a) (file_names q)) = Ok (q', sent')"
    using Cons.prems(1) by (auto simp: e checked_add_def not_le split: if_splits)
  then show ?case
  proof cases
    case stop
    with Cons.prems show ?thesis by simp
  next
    case pending
    with Cons show ?thesis by simp
  next
    case (fresh r)
    have a: "oreq_of r = a"
      using Cons.prems(2,3) queue_by_request [of q i a] fresh(5) by (auto simp: e)
    let ?q = "mark_sent q [r]"
    have wf: "queue_wf ?q" using mark_sent_wf [OF Cons.prems(2), of "[r]"] fresh(5) by auto
    have q: "q\<lparr>pending_requests := insert a (pending_requests q), requested_size := ?sz\<rparr> = ?q"
      using fresh(1) a queue_finite_pending [OF Cons.prems(2)] queue_size [OF Cons.prems(2)]
      by (simp add: mark_sent_def pending_size_def)
    have names: "insert (oreq_name a) (file_names q) = file_names ?q"
      using a by (auto simp: file_names_mark_sent oreq_of_def)
    have fin: "finite (file_names q)" "finite (pending_requests q)"
      using queue_finite_pending [OF Cons.prems(2)] by (simp_all add: file_names_def)
    have card: "card (file_names ?q) \<le> max_files"
      using fresh(2) fin Cons.prems(5) unfolding names [symmetric] by (auto simp: insert_absorb card_insert_if)
    have size: "requested_size ?q \<le> max_area" using fresh(4) by (simp flip: q)
    have "queue_wf q' \<and> requested_size q' \<le> max_area \<and> card (file_names q') \<le> max_files \<and>
        card (pending_requests q') \<le> card (pending_requests ?q) + (slots - length (sent @ [r])) \<and>
        requests_by_id q' = requests_by_id ?q"
      using Cons.prems(3) by (intro Cons.IH [OF fresh(6) [unfolded q names] wf _ size card]) simp
    moreover have "card (pending_requests ?q) = Suc (card (pending_requests q))"
      using fresh(1) a fin by (simp add: mark_sent_def)
    moreover have "requests_by_id ?q = requests_by_id q" by (simp add: mark_sent_def)
    ultimately show ?thesis using fresh(3) by auto
  qed
qed

lemma throttle_within:
  assumes "queue_within max_pending max_area q" and "update_pending_requests q max_pending max_area = Ok (q', rs)"
  shows "queue_within max_pending max_area q' \<and> requests_by_id q' = requests_by_id q"
proof -
  have wf: "queue_wf q" "card (pending_requests q) \<le> max_pending" using assms(1) by (simp_all add: queue_within_def)
  have "\<forall>(a, i, t) \<in> set (requests_by_request q). request_at q i a"
    using btree.in_entries [OF queue_valid [OF wf(1)]] by (auto simp: request_at_def)
  from update_pending_loop_within [OF _ wf(1) this, of "max_pending - card (pending_requests q)" max_area "[]" q' rs]
  show ?thesis using assms wf by (auto simp: queue_within_def update_pending_requests_def file_names_def)
qed

lemma shrink_within:
  assumes "queue_within max_pending max_area q" and "queue_wf q'" and "pending_requests q' \<subseteq> pending_requests q"
  shows "queue_within max_pending max_area q'"
proof -
  have fin: "finite (pending_requests q)" using assms(1) queue_finite_pending by (auto simp: queue_within_def)
  have "requested_size q' \<le> requested_size q"
    using queue_size [OF assms(2)] queue_size [of q] assms(1)
      sum_mono2 [OF fin assms(3), of "\<lambda>r. as_usize (oreq_size r)"]
    by (simp add: queue_within_def pending_size_def)
  moreover have "card (pending_requests q') \<le> card (pending_requests q)"
    by (rule card_mono [OF fin assms(3)])
  moreover have "card (file_names q') \<le> card (file_names q)"
    unfolding file_names_def using fin assms(3) by (intro card_mono image_mono) auto
  ultimately show ?thesis using assms by (auto simp: queue_within_def)
qed

lemma remove_within:
  assumes "queue_within max_pending max_area q" and "remove_request q i = Ok (q', res)"
  shows "queue_within max_pending max_area q' \<and> requests_by_id q' = (requests_by_id q)(i := None)"
proof -
  have "queue_wf q'" using remove_request_wf assms by (auto simp: queue_within_def)
  moreover have "requests_by_id q' = (requests_by_id q)(i := None)"
    using assms(2) by (auto simp: remove_request_def Let_def split: option.splits)
  ultimately show ?thesis using shrink_within [OF assms(1)] remove_request_shrinks(1) [OF assms(2)] by blast
qed

lemma expire_within:
  assumes "queue_within max_pending max_area q" and "remove_old_requests now q = Ok q'"
  shows "queue_within max_pending max_area q' \<and> (requests_by_id q' i = None \<or> requests_by_id q' i = requests_by_id q i)"
proof -
  have wf: "queue_wf q" using assms(1) by (simp add: queue_within_def)
  then have "q' = without_old now q" using assms(2) by (simp add: remove_old_requests_eq)
  moreover have "pending_requests (without_old now q) \<subseteq> pending_requests q" by (auto simp: without_old_def)
  ultimately show ?thesis
    using shrink_within [OF assms(1) without_old_wf [OF wf]]
    by (auto simp: without_old_def split: option.splits)
qed

lemma insert_within:
  assumes "queue_within max_pending max_area q" and "requests_by_id q i = None" and "insert_request now q i r = Ok (q', res)"
  shows "queue_within max_pending max_area q' \<and>
    (requests_by_id q' = requests_by_id q \<or> requests_by_id q' = (requests_by_id q)(i \<mapsto> r))"
proof -
  have "queue_wf q'" using insert_request_wf [OF _ assms(2,3)] assms(1) by (simp add: queue_within_def)
  moreover have "pending_requests q' \<subseteq> pending_requests q"
    "requests_by_id q' = requests_by_id q \<or> requests_by_id q' = (requests_by_id q)(i \<mapsto> r)"
    using assms(3) by (auto simp: insert_request_def outgoing_request_from_def split: if_splits)
  ultimately show ?thesis using shrink_within [OF assms(1)] by blast
qed

text \<open>Requests with increasing numbers above all numbers in use.\<close>

lemma insert_all_within:
  assumes "queue_within max_pending max_area q" and "insert_all insert_request clk q rs = (q', res)"
    and "sorted_wrt (<) (map req_id rs)" and "\<And>i r. requests_by_id q i \<noteq> None \<Longrightarrow> r \<in> set rs \<Longrightarrow> i < req_id r"
  shows "queue_within max_pending max_area q' \<and>
    (\<forall>i. requests_by_id q' i \<noteq> None \<longrightarrow> requests_by_id q i \<noteq> None \<or> i \<in> req_id ` set rs)"
  using assms
proof (induction rs arbitrary: q res)
  case (Cons r rs)
  show ?case
  proof (cases "insert_request (clk r) q (req_id r) r")
    case (Ok x)
    obtain q1 res1 where q1: "insert_request (clk r) q (req_id r) r = Ok (q1, res1)" using Ok by (cases x) simp
    obtain res2 where rest: "insert_all insert_request clk q1 rs = (q', res2)"
      using Cons.prems(2) q1
      by (cases "insert_all insert_request clk q1 rs"; cases "snd (insert_all insert_request clk q1 rs)") auto
    have none: "requests_by_id q (req_id r) = None" using Cons.prems(4) [of "req_id r" r] by fastforce
    have w1: "queue_within max_pending max_area q1"
      "requests_by_id q1 i \<noteq> None \<Longrightarrow> requests_by_id q i \<noteq> None \<or> i = req_id r" for i
      using insert_within [OF Cons.prems(1) none q1] by (auto split: if_splits)
    have "i < req_id s" if "requests_by_id q1 i \<noteq> None" "s \<in> set rs" for i s
      using w1(2) [OF that(1)] Cons.prems(3,4) that(2) by auto
    with Cons.IH [OF w1(1) rest] Cons.prems(3)
    have "queue_within max_pending max_area q'"
      and new: "\<And>i. requests_by_id q' i \<noteq> None \<Longrightarrow> requests_by_id q1 i \<noteq> None \<or> i \<in> req_id ` set rs"
      by simp_all
    moreover have "requests_by_id q i \<noteq> None \<or> i \<in> req_id ` set (r # rs)" if "requests_by_id q' i \<noteq> None" for i
      using new [OF that] w1(2) [of i] by auto
    ultimately show ?thesis by blast
  qed (use Cons.prems in simp_all)
qed simp

section \<open>The methods of the state keep the limits\<close>

text \<open>Methods on the tables and indices leave the queue alone.\<close>

definition same_queue :: "bep_state \<Rightarrow> bep_state \<Rightarrow> bool" where
  "same_queue st st' \<longleftrightarrow> bs_outgoing st' = bs_outgoing st \<and> bs_request_id st' = bs_request_id st"

lemma same_queue_refl [simp]: "same_queue st st"
  by (simp add: same_queue_def)

lemma same_queue_trans [trans]: "same_queue st st1 \<Longrightarrow> same_queue st1 st2 \<Longrightarrow> same_queue st st2"
  by (simp add: same_queue_def)

lemma same_queue_next: "next_sequence_id st = Ok (st', s) \<Longrightarrow> same_queue st st'"
  by (auto simp: next_sequence_id_def Let_def same_queue_def split: option.splits if_splits)

lemma same_queue_assign: "assign_sequences st fs = Ok (st', fs') \<Longrightarrow> same_queue st st'"
  by (induction fs arbitrary: st fs') (auto dest!: same_queue_next intro: same_queue_trans)

lemma same_queue_calls:
  "init_index st folder dev = Ok st' \<Longrightarrow> same_queue st st'"
  "update_cluster_config st cc dev = Ok st' \<Longrightarrow> same_queue st st'"
  "replace_index st idx dev = Ok st' \<Longrightarrow> same_queue st st'"
  "insert_file_info st folder dev fs = Ok st' \<Longrightarrow> same_queue st st'"
  "rm_replace_file_info st folder dev fs = Ok st' \<Longrightarrow> same_queue st st'"
  "mv_file_info st folder dev orig name ls = Ok st' \<Longrightarrow> same_queue st st'"
  "update_block_storage_state st i dev = Ok (st', u) \<Longrightarrow> same_queue st st'"
  "update_file_locations st folder dev name bs = Ok st' \<Longrightarrow> same_queue st st'"
  "free_read_cache st a b = Ok (st', removed) \<Longrightarrow> same_queue st st'"
  "update_read_cache now st dev folder name = Ok st' \<Longrightarrow> same_queue st st'"
  by (auto simp: init_index_def update_cluster_config_def replace_index_def insert_file_info_def
      rm_replace_file_info_def replace_file_info_def mv_file_info_def update_block_storage_state_def
      update_file_locations_def free_read_cache_def update_read_cache_def Let_def same_queue_def
      dest!: same_queue_assign same_queue_next split: if_splits option.splits)

lemma same_queue_always:
  "same_queue st (rm_file_info st folder dev name)" "same_queue st (remove_file_locations st folder dev name cs)"
  "same_queue st (fst (bep_index st folder dev))"
  by (simp_all add: rm_file_info_def remove_file_locations_def bep_index_def Let_def same_queue_def split: option.split)

text \<open>The invariant: the queue is within the limits, and its numbers are not above the last one given out.\<close>

definition state_within :: "grizol_config \<Rightarrow> bep_state \<Rightarrow> bool" where
  "state_within config st \<longleftrightarrow>
     queue_within (gc_max_pending_requests config) (gc_max_total_pending_requests_size config) (bs_outgoing st) \<and>
     (\<forall>i. requests_by_id (bs_outgoing st) i \<noteq> None \<longrightarrow> i \<le> bs_request_id st)"

lemma state_within_same: "same_queue st st' \<Longrightarrow> state_within config st \<Longrightarrow> state_within config st'"
  by (simp add: same_queue_def state_within_def)

lemma state_within_new: "state_within config (bep_state_new d)"
  using queue_within_default by (simp add: state_within_def bep_state_new_def) (simp add: outgoing_requests_default_def)

lemma requests_from_blocks_ids:
  "requests_from_blocks i bs = Ok rs \<Longrightarrow> map req_id rs = [i + 1..i + int (length bs)]"
proof (induction bs arbitrary: i rs)
  case (Cons b bs)
  then obtain rest where rest: "requests_from_blocks (i + 1) bs = Ok rest" "map req_id rs = (i + 1) # map req_id rest"
    by (auto split: if_splits)
  have "[i + 1..i + int (length (b # bs))] = (i + 1) # [i + 1 + 1..i + 1 + int (length bs)]"
    by (subst upto_rec1) (simp_all add: algebra_simps)
  with rest Cons.IH [OF rest(1)] show ?case by simp
qed (simp add: upto_empty)

text \<open>New requests get numbers above all numbers in use.\<close>

lemma insert_requests_within:
  assumes "state_within config st" and "map req_id rs = [bs_request_id st + 1..bs_request_id st + int n]"
    and "insert_requests now clk (st\<lparr>bs_request_id := bs_request_id st + int n\<rparr>) rs = (st', r)"
  shows "state_within config st'"
proof -
  let ?i = "bs_request_id st" and ?P = "gc_max_pending_requests config" and ?A = "gc_max_total_pending_requests_size config"
  have st: "queue_within ?P ?A (bs_outgoing st)" "\<And>i. requests_by_id (bs_outgoing st) i \<noteq> None \<Longrightarrow> i \<le> ?i"
    using assms(1) unfolding state_within_def by blast+
  show ?thesis
  proof (cases "remove_old_requests now (bs_outgoing st)")
    case (Ok q1)
    obtain q2 where q: "insert_all insert_request clk q1 rs = (q2, r)" "st' = st\<lparr>bs_request_id := ?i + int n, bs_outgoing := q2\<rparr>"
      using assms(3) Ok by (cases "insert_all insert_request clk q1 rs") (auto simp: insert_requests_def)
    have w1: "queue_within ?P ?A q1" using expire_within [OF st(1) Ok] by blast
    have old: "i \<le> ?i" if "requests_by_id q1 i \<noteq> None" for i
      using expire_within [OF st(1) Ok, of i] st(2) [of i] that by metis
    have range: "req_id r \<in> {?i + 1..?i + int n}" if "r \<in> set rs" for r
    proof -
      have "req_id r \<in> set (map req_id rs)" using that by simp
      then show ?thesis unfolding assms(2) by simp
    qed
    have "queue_within ?P ?A q2" and new: "\<And>i. requests_by_id q2 i \<noteq> None \<Longrightarrow> requests_by_id q1 i \<noteq> None \<or> i \<in> req_id ` set rs"
      using insert_all_within [OF w1 q(1)] assms(2) old range by fastforce+
    moreover have "i \<le> ?i + int n" if "requests_by_id q2 i \<noteq> None" for i
      using new [OF that] old [of i] range by auto
    ultimately show ?thesis by (simp add: state_within_def q(2))
  qed (use assms(3) st in \<open>fastforce simp: insert_requests_def state_within_def\<close>)+
qed

lemma store_outgoing_within:
  assumes "state_within config (pr_state p)"
  shows "state_within config (pr_state (fst (store_outgoing_requests wd bs p)))"
proof -
  let ?st = "pr_state p"
  let ?i = "bs_request_id ?st" and ?n = "length bs"
  show ?thesis
  proof (cases "requests_from_blocks ?i bs")
    case (Ok rs)
    have ids: "map req_id rs = [?i + 1..?i + int ?n]" by (rule requests_from_blocks_ids [OF Ok])
    have fm: "(case map req_id rs of [] \<Rightarrow> ?i | x # xs \<Rightarrow> fold max xs x) = ?i + int ?n"
      using fold_max_upto [of rs ?i ?n] ids by simp
    obtain st' r where ins: "insert_requests (wd_now wd) (wd_clk wd) (?st\<lparr>bs_request_id := ?i + int ?n\<rparr>) rs = (st', r)"
      by fastforce
    have "pr_state (fst (store_outgoing_requests wd bs p)) \<in> {?st, st'}"
      using Ok ins by (auto simp: store_outgoing_requests_def load_request_id_def fm in_state_def step_state_def
          fetch_add_request_id_def Let_def split: result.split prod.split)
    with assms insert_requests_within [OF assms ids ins] show ?thesis by auto
  qed (use assms in \<open>simp_all add: store_outgoing_requests_def load_request_id_def\<close>)
qed

lemma throttle_state_within:
  assumes "state_within config st"
    and "bep_update_pending_requests st (gc_max_pending_requests config) (gc_max_total_pending_requests_size config) = Ok (st', rs)"
  shows "state_within config st'"
proof -
  obtain q' where q': "update_pending_requests (bs_outgoing st) (gc_max_pending_requests config)
      (gc_max_total_pending_requests_size config) = Ok (q', rs)" "st' = st\<lparr>bs_outgoing := q'\<rparr>"
    using assms(2) by (auto simp: bep_update_pending_requests_def)
  with assms(1) throttle_within [OF _ q'(1)] show ?thesis by (auto simp: state_within_def)
qed

lemma bep_remove_within:
  assumes "state_within config st" and "bep_remove_request st i = Ok (st', r)"
  shows "state_within config st'"
proof -
  obtain q' where q': "remove_request (bs_outgoing st) i = Ok (q', r)" "st' = st\<lparr>bs_outgoing := q'\<rparr>"
    using assms(2) by (auto simp: bep_remove_request_def)
  with assms(1) remove_within [OF _ q'(1)] show ?thesis by (auto simp: state_within_def split: if_splits)
qed

interpretation limits: state_invariant "state_within config" "gc_max_pending_requests config"
    "gc_max_total_pending_requests_size config"
  by unfold_locales
     (blast intro: state_within_same same_queue_calls same_queue_always same_queue_next store_outgoing_within
       throttle_state_within bep_remove_within)+

end
