(* ===== verification/Table_Integrity.thy ===== *)
theory Table_Integrity
  imports State_Invariant
begin

text \<open>
  The integrity of the tables (\<^verbatim>\<open>src/src/core/bep_state.rs\<close>, \<^verbatim>\<open>src/migrations\<close>) through every method of the state, without
  any assumption on what the peers send: primary keys are unique, every row refers to rows that exist, sequences are
  unique and never above the last one drawn.  This is the interpretation \<open>integrity\<close> of \<open>state_invariant\<close>.
\<close>

section \<open>Statements\<close>

definition tables_wf :: "db \<Rightarrow> bool" where
  "tables_wf d \<longleftrightarrow> db_wf d \<and> config_wf d \<and> distinct (map fo_rowid (db_folders d)) \<and> distinct (db_index d) \<and>
     (\<forall>k \<in> set (db_index d). snd k \<in> dr_id ` set (db_devices d) \<and> fst k \<in> (\<lambda>r. fol_id (fo_info r)) ` set (db_folders d)) \<and>
     distinct (db_locations d) \<and> distinct (map cr_key (db_cache d)) \<and> (\<forall>b \<in> set (db_blocks d). br_status b \<in> {0, 1})"

lemma tables_wf_empty: "tables_wf db_empty"
  by (simp add: tables_wf_def db_wf_empty config_wf_def) (simp add: db_empty_def)

lemma map_update_key: "(\<And>r. P r \<Longrightarrow> key (upd r) = key r) \<Longrightarrow> map key (map (\<lambda>r. if P r then upd r else r) rs) = map key rs"
  by (induction rs) auto

lemma distinct_map_update:
  assumes "distinct (map g rs)" and "distinct (map h rs)" and "\<forall>r \<in> set rs. h r \<noteq> k \<longrightarrow> g r \<noteq> v"
  shows "distinct (map (\<lambda>r. if h r = k then v else g r) rs)"
  using assms
proof (induction rs)
  case (Cons r rs)
  have "(if h r = k then v else g r) \<notin> (\<lambda>r. if h r = k then v else g r) ` set rs"
    using Cons.prems by (auto split: if_splits simp: image_iff)
  with Cons show ?case by auto
qed simp

lemma tables_wf_files:
  assumes "tables_wf d" and "distinct (map fr_key fs)" "distinct (map fr_rowid fs)"
    "distinct (map (\<lambda>r. fi_sequence (fr_info r)) fs)"
    and "\<forall>r \<in> set fs. (fst (fr_key r), fst (snd (fr_key r))) \<in> set (db_index d) \<and> fi_name (fr_info r) = snd (snd (fr_key r))"
    and "file_keys d \<subseteq> fr_key ` set fs"
  shows "tables_wf (d\<lparr>db_files := fs\<rparr>)"
proof -
  have "x \<subseteq> fr_key ` set fs" if "x \<subseteq> file_keys d" for x using that assms(6) by (rule order_trans)
  then have "db_wf (d\<lparr>db_files := fs\<rparr>)"
    using assms(1-5) by (simp add: tables_wf_def db_wf_def file_keys_def)
  with assms(1) show ?thesis by (simp add: tables_wf_def config_wf_def)
qed

lemma upsert_file_wf:
  assumes "tables_wf d" and "upsert_file k f d = Ok d'" and "fi_name f = snd (snd k)"
  shows "tables_wf d' \<and> sequences d' \<subseteq> insert (fi_sequence f) (sequences d)"
proof -
  have idx: "(fst k, fst (snd k)) \<in> set (db_index d)"
    and seq: "\<forall>r \<in> set (db_files d). fr_key r \<noteq> k \<longrightarrow> fi_sequence (fr_info r) \<noteq> fi_sequence f"
    using assms(2) by (auto simp: upsert_file_def split: if_splits)
  have wf: "distinct (map (\<lambda>r. fi_sequence (fr_info r)) (db_files d))" "distinct (map fr_key (db_files d))"
    "distinct (map fr_rowid (db_files d))"
    "\<forall>r \<in> set (db_files d). (fst (fr_key r), fst (snd (fr_key r))) \<in> set (db_index d) \<and> fi_name (fr_info r) = snd (snd (fr_key r))"
    using assms(1) by (simp_all add: tables_wf_def db_wf_def)
  show ?thesis
  proof (cases "k \<in> file_keys d")
    case True
    let ?upd = "\<lambda>r. if fr_key r = k then r\<lparr>fr_info := columns_of f\<rparr> else r"
    have d': "d' = d\<lparr>db_files := map ?upd (db_files d)\<rparr>"
      using assms(2) True by (auto simp: upsert_file_def split: if_splits)
    have keys: "map fr_key (map ?upd (db_files d)) = map fr_key (db_files d)"
      "map fr_rowid (map ?upd (db_files d)) = map fr_rowid (db_files d)"
      by (rule map_update_key; simp)+
    have "map (\<lambda>r. fi_sequence (fr_info r)) (map ?upd (db_files d)) =
        map (\<lambda>r. if fr_key r = k then fi_sequence f else fi_sequence (fr_info r)) (db_files d)"
      by (simp add: columns_of_def)
    with wf seq have "distinct (map (\<lambda>r. fi_sequence (fr_info r)) (map ?upd (db_files d)))"
      using distinct_map_update [of "\<lambda>r. fi_sequence (fr_info r)" "db_files d" fr_key k "fi_sequence f"] by metis
    moreover have "fr_key ` set (map ?upd (db_files d)) = file_keys d"
      using arg_cong [OF keys(1), of set] by (simp add: file_keys_def del: map_map)
    moreover have "\<forall>r \<in> set (map ?upd (db_files d)). (fst (fr_key r), fst (snd (fr_key r))) \<in> set (db_index d) \<and>
        fi_name (fr_info r) = snd (snd (fr_key r))"
      using wf(4) assms(3) idx by (auto simp: columns_of_def)
    ultimately have "tables_wf d'"
      unfolding d' using wf keys by (intro tables_wf_files [OF assms(1)]) (simp_all del: map_map)
    moreover have "sequences d' \<subseteq> insert (fi_sequence f) (sequences d)"
      by (auto simp: sequences_def d' columns_of_def)
    ultimately show ?thesis ..
  next
    case False
    let ?row = "\<lparr>fr_rowid = next_rowid (map fr_rowid (db_files d)), fr_key = k, fr_info = columns_of f\<rparr>"
    have d': "d' = d\<lparr>db_files := db_files d @ [?row]\<rparr>"
      using assms(2) False by (auto simp: upsert_file_def split: if_splits)
    have new: "\<forall>r \<in> set (db_files d). fr_key r \<noteq> k" using False by (auto simp: file_keys_def)
    then have "tables_wf d'"
      unfolding d' using wf idx seq assms(3) next_rowid_fresh [of "map fr_rowid (db_files d)"]
      by (intro tables_wf_files [OF assms(1)]) (auto simp: columns_of_def file_keys_def image_iff)
    moreover have "sequences d' \<subseteq> insert (fi_sequence f) (sequences d)"
      by (auto simp: sequences_def d' columns_of_def)
    ultimately show ?thesis ..
  qed
qed

text \<open>Changing one of the tables that refer to files.\<close>

lemma tables_wf_blocks:
  "tables_wf d \<Longrightarrow> distinct (map block_pk bs) \<Longrightarrow> br_key ` set bs \<subseteq> file_keys d \<Longrightarrow> \<forall>b \<in> set bs. br_status b \<in> {0, 1} \<Longrightarrow>
   tables_wf (d\<lparr>db_blocks := bs\<rparr>)"
  by (simp add: tables_wf_def db_wf_def config_wf_def file_keys_def)

lemma tables_wf_versions:
  "tables_wf d \<Longrightarrow> distinct vs \<Longrightarrow> vr_key ` set vs \<subseteq> file_keys d \<Longrightarrow> tables_wf (d\<lparr>db_versions := vs\<rparr>)"
  by (simp add: tables_wf_def db_wf_def config_wf_def file_keys_def)

lemma tables_wf_locations:
  "tables_wf d \<Longrightarrow> distinct ls \<Longrightarrow> lr_key ` set ls \<subseteq> file_keys d \<Longrightarrow> tables_wf (d\<lparr>db_locations := ls\<rparr>)"
  by (simp add: tables_wf_def db_wf_def config_wf_def file_keys_def)

lemma tables_wf_cache:
  "tables_wf d \<Longrightarrow> distinct (map cr_key cs) \<Longrightarrow> cr_key ` set cs \<subseteq> file_keys d \<Longrightarrow> tables_wf (d\<lparr>db_cache := cs\<rparr>)"
  by (simp add: tables_wf_def db_wf_def config_wf_def file_keys_def)

lemma tables_wfD:
  assumes "tables_wf d"
  shows "distinct (map block_pk (db_blocks d))" "br_key ` set (db_blocks d) \<subseteq> file_keys d"
    "\<forall>b \<in> set (db_blocks d). br_status b \<in> {0, 1}" "distinct (db_versions d)" "vr_key ` set (db_versions d) \<subseteq> file_keys d"
    "distinct (db_locations d)" "lr_key ` set (db_locations d) \<subseteq> file_keys d"
    "distinct (map cr_key (db_cache d))" "cr_key ` set (db_cache d) \<subseteq> file_keys d" "db_wf d" "config_wf d"
  using assms by (simp_all add: tables_wf_def db_wf_def)

lemma insert_version_wf:
  assumes "tables_wf d" and "insert_version k c d = Ok d'"
  shows "tables_wf d' \<and> db_files d' = db_files d"
proof -
  let ?row = "\<lparr>vr_key = k, vr_counter = c\<rparr>"
  consider "d' = d" | "d' = d\<lparr>db_versions := db_versions d @ [?row]\<rparr>" "?row \<notin> set (db_versions d)" "k \<in> file_keys d"
    using assms(2) by (auto simp: insert_version_def Let_def split: if_splits)
  then show ?thesis using assms(1) tables_wfD [OF assms(1)] by cases (simp_all add: tables_wf_versions)
qed

lemma insert_block_wf:
  assumes "tables_wf d" and "insert_block lt k b d = Ok d'"
  shows "tables_wf d' \<and> db_files d' = db_files d"
proof -
  let ?row = "\<lparr>br_key = k, br_block = b, br_status = not_stored\<rparr>"
  consider "d' = d" | "d' = d\<lparr>db_blocks := db_blocks d @ [?row]\<rparr>" "block_pk ?row \<notin> block_pk ` set (db_blocks d)" "k \<in> file_keys d"
    using assms(2) by (auto simp: insert_block_def Let_def split: if_splits)
  then show ?thesis
    using assms(1) tables_wfD [OF assms(1)] by cases (simp_all add: not_stored_def tables_wf_blocks)
qed

lemma insert_file_wf:
  assumes "tables_wf d" and "insert_file lt folder dev f d = Ok d'"
  shows "tables_wf d' \<and> sequences d' \<subseteq> insert (fi_sequence f) (sequences d)"
proof -
  let ?k = "(folder, dev, fi_name f)"
  obtain d1 v d2 where v: "fi_version f = Some v" and d1: "upsert_file ?k f d = Ok d1" and d2: "for_each (vec_counters v) (insert_version ?k) d1 = Ok d2"
    and d': "for_each (fi_blocks f) (insert_block lt ?k) d2 = Ok d'"
    using assms(2) by (simp add: insert_file_def Let_def) blast
  have w1: "tables_wf d1" "sequences d1 \<subseteq> insert (fi_sequence f) (sequences d)"
    using upsert_file_wf [OF assms(1) d1] by simp_all
  have "tables_wf d2 \<and> db_files d2 = db_files d1"
    by (rule for_each_invariant [OF d2]) (use w1(1) insert_version_wf in \<open>auto dest: insert_version_wf\<close>)
  then have "tables_wf d' \<and> db_files d' = db_files d1"
    by (intro for_each_invariant [OF d', where P = "\<lambda>d. tables_wf d \<and> db_files d = db_files d1"])
       (use insert_block_wf in \<open>auto dest: insert_block_wf\<close>)
  with w1(2) show ?thesis by (simp add: sequences_def)
qed

lemma delete_files_tables: "tables_wf d \<Longrightarrow> tables_wf (delete_files P d) \<and> sequences (delete_files P d) \<subseteq> sequences d"
  using delete_files_wf [of d P]
  by (auto simp: tables_wf_def delete_files_def config_wf_def sequences_def distinct_map_filter)

lemma mark_stored_wf:
  assumes "tables_wf d"
  shows "tables_wf (mark_stored k h d)"
proof -
  let ?upd = "\<lambda>r. if br_key r = k \<and> bi_hash (br_block r) = h then r\<lparr>br_status := storage_status_into StoredLocally\<rparr> else r"
  have "map block_pk (map ?upd bs) = map block_pk bs" "map br_key (map ?upd bs) = map br_key bs" for bs
    by (rule map_update_key; simp add: block_pk_def)+
  note keys = this
  have "\<forall>b \<in> set (map ?upd (db_blocks d)). br_status b \<in> {0, 1}" using tables_wfD(3) [OF assms] by auto
  moreover have "br_key ` set (map ?upd (db_blocks d)) \<subseteq> file_keys d"
    using arg_cong [OF keys(2) [of "db_blocks d"], of set] tables_wfD(2) [OF assms] by (simp del: map_map)
  ultimately show ?thesis
    unfolding mark_stored_def using keys(1) [of "db_blocks d"] tables_wfD(1) [OF assms]
    by (intro tables_wf_blocks [OF assms]) (simp_all del: map_map)
qed

lemma insert_location_wf:
  assumes "tables_wf d" and "insert_location k loc d = Ok d'"
  shows "tables_wf d' \<and> db_files d' = db_files d"
proof -
  let ?row = "\<lparr>lr_key = k, lr_backend = fst loc, lr_location = snd loc\<rparr>"
  consider "d' = d" | "d' = d\<lparr>db_locations := db_locations d @ [?row]\<rparr>" "?row \<notin> set (db_locations d)" "k \<in> file_keys d"
    using assms(2) by (auto simp: insert_location_def Let_def split: if_splits)
  then show ?thesis using assms(1) tables_wfD [OF assms(1)] by cases (simp_all add: tables_wf_locations)
qed

lemma insert_locations_wf:
  assumes "for_each ls (\<lambda>l. insert_location k (g l)) d = Ok d'" and "tables_wf d"
  shows "tables_wf d' \<and> db_files d' = db_files d"
  by (rule for_each_invariant [OF assms(1), where P = "\<lambda>x. tables_wf x \<and> db_files x = db_files d"])
     (use assms(2) in \<open>auto dest: insert_location_wf\<close>)

lemma filter_locations_wf: "tables_wf d \<Longrightarrow> tables_wf (d\<lparr>db_locations := filter P (db_locations d)\<rparr>)"
  using tables_wfD(6,7) [of d] by (intro tables_wf_locations) auto

lemma filter_cache_wf: "tables_wf d \<Longrightarrow> tables_wf (d\<lparr>db_cache := filter P (db_cache d)\<rparr>)"
  using tables_wfD(8,9) [of d] by (intro tables_wf_cache) (auto simp: distinct_map_filter)

text \<open>Renaming changes the keys of all tables by an injective function.\<close>

lemma rename_key_inj: "k' \<notin> K - {k} \<Longrightarrow> inj_on (rename_key k k') K"
  by (auto simp: inj_on_def rename_key_def)

lemma distinct_map_rename:
  assumes "distinct (map g xs)" and "inj_on f (g ` set xs)" and "\<And>x. x \<in> set xs \<Longrightarrow> h x = f (g x)"
  shows "distinct (map h xs)"
proof -
  have "map h xs = map f (map g xs)" using assms(3) by simp
  then show ?thesis using assms(1,2) by (simp only: distinct_map list.set_map)
qed

lemma inj_on_apfst: "inj_on n K \<Longrightarrow> fst ` S \<subseteq> K \<Longrightarrow> inj_on (apfst n) S"
  by (rule inj_onI) (metis apfst_conv image_subset_iff inj_onD prod.collapse prod.inject)

lemma inj_on_row:
  assumes "inj_on n K" and "key ` S \<subseteq> K" and "\<And>x. key (upd x) = n (key x)"
    and "\<And>x y. upd x = upd y \<Longrightarrow> key x = key y \<Longrightarrow> x = y"
  shows "inj_on upd S"
proof (rule inj_onI)
  fix x y assume xy: "x \<in> S" "y \<in> S" "upd x = upd y"
  then have "n (key x) = n (key y)" using assms(3) by metis
  moreover have "key x \<in> K" "key y \<in> K" using xy(1,2) assms(2) by auto
  ultimately have "key x = key y" using assms(1) by (blast dest: inj_onD)
  with xy(3) show "x = y" by (rule assms(4))
qed

lemma row_eqI:
  "v\<lparr>vr_key := a\<rparr> = w\<lparr>vr_key := b\<rparr> \<Longrightarrow> vr_key v = vr_key w \<Longrightarrow> v = (w :: version_row)"
  "l\<lparr>lr_key := a\<rparr> = m\<lparr>lr_key := b\<rparr> \<Longrightarrow> lr_key l = lr_key m \<Longrightarrow> l = (m :: location_row)"
  by (cases v; cases w; simp) (cases l; cases m; simp)

lemma rename_file_wf:
  assumes "tables_wf d" and "rename_file k name s d = Ok d'"
  shows "tables_wf d' \<and> sequences d' \<subseteq> insert s (sequences d)"
proof (cases "k \<in> file_keys d")
  case False
  with assms show ?thesis by (auto simp: rename_file_def)
next
  case True
  let ?k = "(fst k, fst (snd k), name)"
  let ?n = "rename_key k ?k"
  define upd where "upd = (\<lambda>r :: file_row. if fr_key r = k
      then r\<lparr>fr_key := ?k, fr_info := (fr_info r)\<lparr>fi_name := name, fi_sequence := s\<rparr>\<rparr> else r)"
  have free: "?k \<notin> file_keys d - {k}"
    and seq: "\<forall>r \<in> set (db_files d). fr_key r \<noteq> k \<longrightarrow> fi_sequence (fr_info r) \<noteq> s"
    and d': "d' = d\<lparr>db_files := map upd (db_files d),
        db_locations := map (\<lambda>r. r\<lparr>lr_key := ?n (lr_key r)\<rparr>) (db_locations d),
        db_cache := map (\<lambda>r. r\<lparr>cr_key := ?n (cr_key r)\<rparr>) (db_cache d),
        db_blocks := map (\<lambda>r. r\<lparr>br_key := ?n (br_key r)\<rparr>) (db_blocks d),
        db_versions := map (\<lambda>r. r\<lparr>vr_key := ?n (vr_key r)\<rparr>) (db_versions d)\<rparr>"
    using assms(2) True by (auto simp: rename_file_def Let_def upd_def split: if_splits)
  have inj: "inj_on ?n (file_keys d)" using free by (rule rename_key_inj)
  note D = tables_wfD [OF assms(1)]
  have db: "distinct (map fr_key (db_files d))" "distinct (map fr_rowid (db_files d))"
    "distinct (map (\<lambda>r. fi_sequence (fr_info r)) (db_files d))"
    "\<forall>r \<in> set (db_files d). (fst (fr_key r), fst (snd (fr_key r))) \<in> set (db_index d) \<and> fi_name (fr_info r) = snd (snd (fr_key r))"
    using D(10) by (simp_all add: db_wf_def)
  have keys: "map fr_key (map upd rs) = map (\<lambda>r. ?n (fr_key r)) rs" "map fr_rowid (map upd rs) = map fr_rowid rs"
    "map (\<lambda>r. fi_sequence (fr_info r)) (map upd rs) = map (\<lambda>r. if fr_key r = k then s else fi_sequence (fr_info r)) rs" for rs
    by (simp_all add: upd_def rename_key_def)
  have fk: "file_keys d' = ?n ` file_keys d"
    using arg_cong [OF keys(1) [of "db_files d"], of set] by (simp add: file_keys_def d' image_image del: map_map)
  have "distinct (map fr_key (map upd (db_files d)))"
    unfolding keys by (rule distinct_map_rename [where f = ?n, OF db(1) inj [unfolded file_keys_def]]) simp
  moreover have "distinct (map (\<lambda>r. fi_sequence (fr_info r)) (map upd (db_files d)))"
    unfolding keys by (rule distinct_map_update [OF db(3,1) seq])
  moreover have "\<forall>r \<in> set (map upd (db_files d)). (fst (fr_key r), fst (snd (fr_key r))) \<in> set (db_index d) \<and>
      fi_name (fr_info r) = snd (snd (fr_key r))"
    using db(4) True by (auto simp: upd_def file_keys_def)
  moreover have "distinct (map block_pk (map (\<lambda>r. r\<lparr>br_key := ?n (br_key r)\<rparr>) (db_blocks d)))"
  proof -
    have "inj_on (apfst ?n) (block_pk ` set (db_blocks d))"
      using D(2) by (intro inj_on_apfst [OF inj]) (simp add: block_pk_def image_image)
    then show ?thesis unfolding map_map by (rule distinct_map_rename [OF D(1)]) (simp add: block_pk_def)
  qed
  moreover have "distinct (map (\<lambda>r. r\<lparr>vr_key := ?n (vr_key r)\<rparr>) (db_versions d))"
    unfolding distinct_map using D(4,5)
    by (intro conjI inj_on_row [where key = vr_key, OF inj]) (auto intro: row_eqI)
  moreover have "distinct (map (\<lambda>r. r\<lparr>lr_key := ?n (lr_key r)\<rparr>) (db_locations d))"
    unfolding distinct_map using D(6,7)
    by (intro conjI inj_on_row [where key = lr_key, OF inj]) (auto intro: row_eqI)
  moreover have "distinct (map cr_key (map (\<lambda>r. r\<lparr>cr_key := ?n (cr_key r)\<rparr>) (db_cache d)))"
    unfolding map_map by (rule distinct_map_rename [OF D(8) inj_on_subset [OF inj D(9)]]) simp
  ultimately have "tables_wf d'"
    using assms(1) D(2,3,5,7,9) db(2) keys(2) [of "db_files d"] unfolding tables_wf_def db_wf_def fk
    by (simp add: d' config_wf_def image_image del: map_map) (auto simp: image_image)
  moreover have "sequences d' \<subseteq> insert s (sequences d)" by (auto simp: sequences_def d' upd_def)
  ultimately show ?thesis ..
qed

text \<open>Folders, devices and indices.\<close>

lemma tables_wf_config:
  assumes "tables_wf d" and "config_wf (d\<lparr>db_folders := fs, db_devices := ds\<rparr>)" and "distinct (map fo_rowid fs)"
    and "(\<lambda>r. fol_id (fo_info r)) ` set (db_folders d) \<subseteq> (\<lambda>r. fol_id (fo_info r)) ` set fs"
    and "dr_id ` set (db_devices d) \<subseteq> dr_id ` set ds"
  shows "tables_wf (d\<lparr>db_folders := fs, db_devices := ds\<rparr>)"
proof -
  have "\<forall>k \<in> set (db_index d). snd k \<in> dr_id ` set ds \<and> fst k \<in> (\<lambda>r. fol_id (fo_info r)) ` set fs"
    using assms(1,4,5) by (auto simp only: tables_wf_def)
  with assms(1-3) show ?thesis by (simp add: tables_wf_def db_wf_def file_keys_def)
qed

lemma upsert_folder_tables:
  assumes "tables_wf d"
  shows "tables_wf (upsert_folder f d)"
proof -
  let ?upd = "\<lambda>r. if fol_id (fo_info r) = fol_id f then r\<lparr>fo_info := f\<lparr>fol_devices := []\<rparr>\<rparr> else r"
  let ?d = "upsert_folder f d"
  have "map fo_rowid (map ?upd (db_folders d)) = map fo_rowid (db_folders d)" by (rule map_update_key) simp
  then have rowid: "distinct (map fo_rowid (db_folders ?d))"
    using assms next_rowid_fresh [of "map fo_rowid (db_folders d)"]
    by (simp add: upsert_folder_def tables_wf_def image_iff del: map_map)
  have "map (\<lambda>r. fol_id (fo_info r)) (map ?upd (db_folders d)) = map (\<lambda>r. fol_id (fo_info r)) (db_folders d)"
    by (rule map_update_key) simp
  then have "(\<lambda>r. fol_id (fo_info r)) ` set (map ?upd (db_folders d)) = (\<lambda>r. fol_id (fo_info r)) ` set (db_folders d)"
    by (metis list.set_map)
  then have ids: "(\<lambda>r. fol_id (fo_info r)) ` set (db_folders d) \<subseteq> (\<lambda>r. fol_id (fo_info r)) ` set (db_folders ?d)"
    by (simp add: upsert_folder_def image_Un subset_insertI del: map_map set_map list.set_map)
  define fs where "fs = db_folders ?d"
  have d: "?d = d\<lparr>db_folders := fs, db_devices := db_devices d\<rparr>" by (simp add: fs_def upsert_folder_def)
  have "config_wf (d\<lparr>db_folders := fs, db_devices := db_devices d\<rparr>)"
    using upsert_folder_wf [OF tables_wfD(11) [OF assms], of f] unfolding d .
  then show ?thesis
    unfolding d by (rule tables_wf_config [OF assms]) (use rowid ids in \<open>simp_all add: fs_def\<close>)
qed

lemma upsert_device_tables:
  assumes "tables_wf d" and "upsert_device loc folder_id dev d = Ok d'"
  shows "tables_wf d'"
proof -
  obtain i where i: "device_id_try_from_bytes (dvc_id dev) = Ok i"
    using assms(2) by (auto simp: upsert_device_def split: result.splits)
  let ?row = "device_row_from loc folder_id i dev"
  let ?map = "map (\<lambda>r. if dr_id r = i then ?row else r) (db_devices d)"
  let ?rows = "if i \<in> dr_id ` set (db_devices d) then ?map else db_devices d @ [?row]"
  have d': "d' = d\<lparr>db_folders := db_folders d, db_devices := ?rows\<rparr>"
    using assms(2) i by (auto simp: upsert_device_def Let_def split: if_splits)
  have "map dr_id ?map = map dr_id (db_devices d)"
    by (rule map_update_key) (simp add: device_row_from_def Let_def)
  then have "dr_id ` set ?map = dr_id ` set (db_devices d)" by (metis list.set_map)
  then have sub: "dr_id ` set (db_devices d) \<subseteq> dr_id ` set ?rows" by auto
  have "distinct (map fo_rowid (db_folders d))" using assms(1) by (simp add: tables_wf_def)
  from tables_wf_config [OF assms(1) _ this order_refl sub]
    upsert_device_wf [OF tables_wfD(11) [OF assms(1)] assms(2)]
  show ?thesis unfolding d' [symmetric] by blast
qed

lemma init_index_tables:
  assumes "tables_wf (bs_db st)" and "init_index st folder dev = Ok st'"
  shows "tables_wf (bs_db st') \<and> db_files (bs_db st') = db_files (bs_db st) \<and> bs_sequence st' = bs_sequence st"
proof -
  have idx: "tables_wf (d\<lparr>db_index := db_index d @ [(folder, dev)]\<rparr>)"
    if "tables_wf d" "dev \<in> dr_id ` set (db_devices d)" "folder \<in> (\<lambda>r. fol_id (fo_info r)) ` set (db_folders d)"
      "(folder, dev) \<notin> set (db_index d)" for d
    using that by (simp add: tables_wf_def db_wf_def config_wf_def file_keys_def)
  consider "st' = st" | "st' = st\<lparr>bs_db := (bs_db st)\<lparr>db_index := db_index (bs_db st) @ [(folder, dev)]\<rparr>\<rparr>"
      "dev \<in> dr_id ` set (db_devices (bs_db st))" "folder \<in> (\<lambda>r. fol_id (fo_info r)) ` set (db_folders (bs_db st))"
      "(folder, dev) \<notin> set (db_index (bs_db st))"
    using assms(2) by (auto simp: init_index_def Let_def split: if_splits)
  then show ?thesis using assms(1) idx by cases simp_all
qed

section \<open>Sequences\<close>

text \<open>No sequence in the tables is above the last one drawn.\<close>

definition drawn_bound :: "bep_state \<Rightarrow> bool" where
  "drawn_bound st \<longleftrightarrow> (\<forall>m. bs_sequence st = Some m \<longrightarrow> (\<forall>s \<in> sequences (bs_db st). s \<le> m))"

definition state_ok :: "bep_state \<Rightarrow> bool" where
  "state_ok st \<longleftrightarrow> tables_wf (bs_db st) \<and> drawn_bound st"

lemma state_ok_wf: "state_ok st \<Longrightarrow> state_wf st"
  using max_sequence_bound [of _ "bs_db st"]
  by (fastforce simp: state_ok_def state_wf_def drawn_bound_def last_sequence_def tables_wf_def split: option.splits)

lemma state_ok_new: "tables_wf d \<Longrightarrow> state_ok (bep_state_new d)"
  by (simp add: state_ok_def drawn_bound_def bep_state_new_def)

lemma next_sequence_above:
  assumes "state_ok st" and "next_sequence_id st = Ok (st', s)"
  shows "bs_db st' = bs_db st \<and> bs_sequence st' = Some s \<and> (\<forall>x \<in> sequences (bs_db st). x < s)"
proof -
  have "x < s" if x: "x \<in> sequences (bs_db st)" for x
  proof (cases "bs_sequence st")
    case None
    obtain m where "max_sequence (bs_db st) = Some m" "x \<le> m" using max_sequence_bound [OF x] by blast
    then show ?thesis using None assms(2) by (auto simp: next_sequence_id_def Let_def split: if_splits)
  next
    case (Some m)
    then have "x \<le> m" using assms(1) x by (auto simp: state_ok_def drawn_bound_def)
    then show ?thesis using Some assms(2) by (auto simp: next_sequence_id_def Let_def split: if_splits)
  qed
  with assms(2) show ?thesis
    by (auto simp: next_sequence_id_def Let_def split: if_splits option.splits)
qed

lemma next_sequence_ok: "state_ok st \<Longrightarrow> next_sequence_id st = Ok (st', s) \<Longrightarrow> state_ok st'"
  using next_sequence_above [of st st' s] by (fastforce simp: state_ok_def drawn_bound_def)

text \<open>The sequences of a list of files are above those in the tables and not above the last one drawn.\<close>

lemma assign_sequences_ok:
  assumes "state_ok st" and "assign_sequences st fs = Ok (st', fs')"
  shows "state_ok st' \<and> bs_db st' = bs_db st \<and> (\<forall>m. bs_sequence st = Some m \<longrightarrow> (\<exists>m'. bs_sequence st' = Some m' \<and> m \<le> m')) \<and>
    (\<forall>f \<in> set fs'. \<exists>m. bs_sequence st' = Some m \<and> fi_sequence f \<le> m)"
  using assms
proof (induction fs arbitrary: st fs')
  case (Cons f fs)
  obtain st1 s rest where st1: "next_sequence_id st = Ok (st1, s)" and rest: "assign_sequences st1 fs = Ok (st', rest)"
    and fs': "fs' = f\<lparr>fi_sequence := s\<rparr> # rest"
    using Cons.prems(2) by auto
  note a = next_sequence_above [OF Cons.prems(1) st1]
  have "\<forall>m. bs_sequence st = Some m \<longrightarrow> m \<le> s"
    using st1 by (auto simp: next_sequence_id_def Let_def split: if_splits)
  with Cons.IH [OF next_sequence_ok [OF Cons.prems(1) st1] rest] a show ?case
    by (auto simp: fs')
qed simp

lemma state_ok_files:
  assumes "state_ok st" and "tables_wf d"
    and "sequences d \<subseteq> sequences (bs_db st) \<union> S" and "\<And>s. s \<in> S \<Longrightarrow> \<exists>m. bs_sequence st = Some m \<and> s \<le> m"
  shows "state_ok (st\<lparr>bs_db := d, bs_indices := x\<rparr>)"
  using assms by (fastforce simp: state_ok_def drawn_bound_def)

lemma insert_all_files:
  assumes "for_each fs body d = Ok d'" and "tables_wf d"
    and "\<And>f d d'. f \<in> set fs \<Longrightarrow> tables_wf d \<Longrightarrow> body f d = Ok d' \<Longrightarrow>
      tables_wf d' \<and> sequences d' \<subseteq> insert (fi_sequence f) (sequences d)"
  shows "tables_wf d' \<and> sequences d' \<subseteq> sequences d \<union> fi_sequence ` set fs"
  by (rule for_each_invariant [OF assms(1), where P = "\<lambda>x. tables_wf x \<and> sequences x \<subseteq> sequences d \<union> fi_sequence ` set fs"])
     (use assms(2,3) in \<open>blast+\<close>)

section \<open>The methods of the state\<close>

lemma state_ok_db:
  assumes "state_ok st" and "tables_wf d" and "sequences d \<subseteq> sequences (bs_db st)"
  shows "state_ok (st\<lparr>bs_db := d\<rparr>)"
  using assms by (auto simp: state_ok_def drawn_bound_def)

lemma sequences_files: "db_files d = db_files d' \<Longrightarrow> sequences d = sequences d'"
  by (simp add: sequences_def)

lemma replace_index_ok:
  assumes "state_ok st" and "replace_index st idx dev = Ok st'"
  shows "state_ok st'"
proof -
  let ?d = "delete_files (in_folder (idx_folder idx) dev) (bs_db st)"
  obtain st1 fs d where st1: "assign_sequences st (idx_files idx) = Ok (st1, fs)"
    and d: "for_each fs (insert_file True (idx_folder idx) dev) ?d = Ok d"
    and st': "st' = st1\<lparr>bs_db := d, bs_indices := fst (indices_insert (bs_indices st1) dev (idx\<lparr>idx_files := fs\<rparr>))\<rparr>"
    using assms(2) by (auto simp: replace_index_def Let_def)
  note a = assign_sequences_ok [OF assms(1) st1]
  have del: "tables_wf ?d" "sequences ?d \<subseteq> sequences (bs_db st)"
    using delete_files_tables assms(1) by (simp_all add: state_ok_def)
  have "tables_wf d \<and> sequences d \<subseteq> sequences ?d \<union> fi_sequence ` set fs"
    by (rule insert_all_files [OF d del(1)]) (rule insert_file_wf)
  then show ?thesis
    unfolding st' using a del(2) by (intro state_ok_files [where S = "fi_sequence ` set fs"]) auto
qed

lemma insert_file_info_ok:
  assumes "state_ok st" and "insert_file_info st folder dev fs = Ok st'"
  shows "state_ok st'"
proof -
  obtain st1 gs d where st1: "assign_sequences st fs = Ok (st1, gs)"
    and d: "for_each gs (insert_file True folder dev) (bs_db st1) = Ok d"
    and st': "st' = st1\<lparr>bs_db := d, bs_indices := indices_insert_file_info (bs_indices st1) folder dev gs\<rparr>"
    using assms(2) by (auto simp: insert_file_info_def)
  note a = assign_sequences_ok [OF assms(1) st1]
  have "tables_wf (bs_db st1)" using a assms(1) by (simp add: state_ok_def)
  then have "tables_wf d \<and> sequences d \<subseteq> sequences (bs_db st1) \<union> fi_sequence ` set gs"
    by (rule insert_all_files [OF d]) (rule insert_file_wf)
  then show ?thesis
    unfolding st' using a by (intro state_ok_files [where S = "fi_sequence ` set gs"]) auto
qed

lemma rm_replace_file_info_ok:
  assumes "state_ok st" and "rm_replace_file_info st folder dev fs = Ok st'"
  shows "state_ok st'"
proof -
  obtain st1 gs d where st1: "assign_sequences st fs = Ok (st1, gs)"
    and d: "for_each (filter (\<lambda>f. \<not> fi_deleted f) gs) (\<lambda>f d. insert_file False folder dev f
      (delete_files (\<lambda>k. k = (folder, dev, fi_name f)) d)) (bs_db st1) = Ok d"
    and st': "st' = st1\<lparr>bs_db := d, bs_indices := indices_insert_file_info (bs_indices st1) folder dev
      (filter (\<lambda>f. \<not> fi_deleted f) gs)\<rparr>"
    using assms(2) by (auto simp: rm_replace_file_info_def replace_file_info_def Let_def)
  note a = assign_sequences_ok [OF assms(1) st1]
  have "tables_wf (bs_db st1)" using a assms(1) by (simp add: state_ok_def)
  then have "tables_wf d \<and> sequences d \<subseteq> sequences (bs_db st1) \<union> fi_sequence ` set (filter (\<lambda>f. \<not> fi_deleted f) gs)"
  proof (rule insert_all_files [OF d])
    fix f d d'
    assume "tables_wf d" and ins: "insert_file False folder dev f (delete_files (\<lambda>k. k = (folder, dev, fi_name f)) d) = Ok d'"
    then have "tables_wf (delete_files (\<lambda>k. k = (folder, dev, fi_name f)) d)"
      "sequences (delete_files (\<lambda>k. k = (folder, dev, fi_name f)) d) \<subseteq> sequences d" using delete_files_tables by blast+
    with insert_file_wf [OF _ ins] show "tables_wf d' \<and> sequences d' \<subseteq> insert (fi_sequence f) (sequences d)" by blast
  qed
  then show ?thesis
    unfolding st' using a by (intro state_ok_files [where S = "fi_sequence ` set gs"]) auto
qed

lemma rm_file_info_ok: "state_ok st \<Longrightarrow> state_ok (rm_file_info st folder dev name)"
  unfolding rm_file_info_def
  using delete_files_tables [of "bs_db st" "\<lambda>k. k = (folder, dev, name)"]
  by (intro state_ok_files [where S = "{}"]) (auto simp: state_ok_def)

lemma mv_file_info_ok:
  assumes "state_ok st" and "mv_file_info st folder dev orig name ls = Ok st'"
  shows "state_ok st'"
proof -
  let ?dest = "(folder, dev, name)"
  obtain st1 s d d2 where st1: "next_sequence_id st = Ok (st1, s)"
    and d: "rename_file (folder, dev, fi_name orig) name s (bs_db st1) = Ok d"
    and d2: "for_each ls (\<lambda>l. insert_location ?dest (floc_backend l, floc_location l))
      (d\<lparr>db_locations := filter (\<lambda>r. lr_key r \<noteq> ?dest) (db_locations d),
         db_cache := filter (\<lambda>r. cr_key r \<noteq> ?dest) (db_cache d)\<rparr>) = Ok d2"
    and st': "st' = st1\<lparr>bs_db := d2\<rparr>"
    using assms(2) by (auto simp: mv_file_info_def Let_def)
  note a = next_sequence_above [OF assms(1) st1]
  have ok1: "state_ok st1" by (rule next_sequence_ok [OF assms(1) st1])
  then have w: "tables_wf d \<and> sequences d \<subseteq> insert s (sequences (bs_db st1))"
    by (intro rename_file_wf [OF _ d]) (simp add: state_ok_def)
  then have "tables_wf (d\<lparr>db_locations := filter (\<lambda>r. lr_key r \<noteq> ?dest) (db_locations d),
      db_cache := filter (\<lambda>r. cr_key r \<noteq> ?dest) (db_cache d)\<rparr>)"
    using filter_cache_wf [OF filter_locations_wf] by simp
  from insert_locations_wf [OF d2 this] have "tables_wf d2" "sequences d2 = sequences d"
    using sequences_files [of d2 d] by simp_all
  with w ok1 a show ?thesis by (auto simp: st' state_ok_def drawn_bound_def)
qed

lemma fold_filter_locations: "tables_wf d \<Longrightarrow>
  tables_wf (fold (\<lambda>x d. d\<lparr>db_locations := filter (P x) (db_locations d)\<rparr>) xs d) \<and>
  db_files (fold (\<lambda>x d. d\<lparr>db_locations := filter (P x) (db_locations d)\<rparr>) xs d) = db_files d"
  by (induction xs arbitrary: d) (simp_all add: filter_locations_wf)

lemma fold_filter_cache: "tables_wf d \<Longrightarrow>
  tables_wf (fold (\<lambda>x d. d\<lparr>db_cache := filter (P x) (db_cache d)\<rparr>) xs d) \<and>
  db_files (fold (\<lambda>x d. d\<lparr>db_cache := filter (P x) (db_cache d)\<rparr>) xs d) = db_files d"
  by (induction xs arbitrary: d) (simp_all add: filter_cache_wf)

lemma remove_file_locations_ok:
  assumes "state_ok st"
  shows "state_ok (remove_file_locations st folder dev name cs)"
proof -
  let ?P = "\<lambda>c r. \<not> (lr_key r = (folder, dev, name) \<and> lr_backend r = c)"
  have "tables_wf (bs_db st)" using assms by (simp add: state_ok_def)
  from fold_filter_locations [OF this, of ?P cs] show ?thesis
    unfolding remove_file_locations_def Let_def by (intro state_ok_db [OF assms]) (simp_all add: sequences_def)
qed

lemma free_read_cache_ok:
  assumes "state_ok st" and "free_read_cache st a b = Ok (st', removed)"
  shows "state_ok st'"
proof -
  obtain fs where st': "st' = st\<lparr>bs_db := fold (\<lambda>f d. d\<lparr>db_cache := filter (\<lambda>r. cr_key r \<noteq> cr_key (fst f)) (db_cache d)\<rparr>)
      (fs :: (cache_row \<times> int) list) (bs_db st)\<rparr>"
    using assms(2) by (auto simp: free_read_cache_def Let_def split: if_splits)
  have "tables_wf (bs_db st)" using assms(1) by (simp add: state_ok_def)
  from fold_filter_cache [OF this, of "\<lambda>f r. cr_key r \<noteq> cr_key (fst f)" fs] show ?thesis
    unfolding st' by (intro state_ok_db [OF assms(1)]) (simp_all add: sequences_def)
qed

lemma update_read_cache_ok:
  assumes "state_ok st" and "update_read_cache now st dev folder name = Ok st'"
  shows "state_ok st'"
proof -
  let ?d = "bs_db st" and ?k = "(folder, dev, name)"
  consider "st' = st" | "st' = st\<lparr>bs_db := ?d\<lparr>db_cache := db_cache ?d @ [\<lparr>cr_key = ?k, cr_timestamp = now\<rparr>]\<rparr>\<rparr>"
      "?k \<in> file_keys ?d" "?k \<notin> cr_key ` set (db_cache ?d)"
    using assms(2) by (auto simp: update_read_cache_def Let_def split: if_splits)
  then show ?thesis
  proof cases
    case 2
    have wf: "tables_wf ?d" using assms(1) by (simp add: state_ok_def)
    have "tables_wf (?d\<lparr>db_cache := db_cache ?d @ [\<lparr>cr_key = ?k, cr_timestamp = now\<rparr>]\<rparr>)"
      using 2(2,3) tables_wfD(8,9) [OF wf] by (intro tables_wf_cache [OF wf]) auto
    then show ?thesis unfolding 2(1) by (rule state_ok_db [OF assms(1)]) (simp add: sequences_def)
  qed (use assms(1) in simp)
qed

lemma update_cluster_config_ok:
  assumes "state_ok st" and "update_cluster_config st cc dev = Ok st'"
  shows "state_ok st'"
proof -
  let ?P = "\<lambda>d. tables_wf d \<and> db_files d = db_files (bs_db st)"
  have dev: "?P d'" if "upsert_device loc folder x d = Ok d'" "?P d" for loc folder x d d'
    using that upsert_device_tables [of d loc folder x d']
    by (auto simp: upsert_device_def Let_def split: result.splits if_splits)
  have fol: "?P (upsert_folder f d)" if "?P d" for f d
    using that upsert_folder_tables [of d f] by (simp add: upsert_folder_def)
  have devs: "?P d'" if "for_each xs (upsert_device loc folder) d = Ok d'" "?P d" for xs loc folder d d'
    by (rule for_each_invariant [where P = ?P, OF that]) (rule dev)
  obtain d where d: "for_each (cc_folders cc) (\<lambda>f d. for_each (fol_devices f)
      (upsert_device dev (fol_id f)) (upsert_folder f d)) (bs_db st) = Ok d" and st': "st' = st\<lparr>bs_db := d\<rparr>"
    using assms(2) by (auto simp: update_cluster_config_def)
  have "?P d"
    by (rule for_each_invariant [where P = ?P, OF d]) (use assms(1) devs fol in \<open>auto simp: state_ok_def\<close>)
  with assms(1) show ?thesis unfolding st' by (intro state_ok_db) (auto simp: sequences_def)
qed

lemma update_file_locations_ok:
  assumes "state_ok st" and "update_file_locations st folder dev name bs = Ok st'"
  shows "state_ok st'"
proof -
  obtain d where d: "for_each bs (insert_location (folder, dev, name)) (bs_db st) = Ok d" and st': "st' = st\<lparr>bs_db := d\<rparr>"
    using assms(2) by (auto simp: update_file_locations_def)
  have "tables_wf d \<and> db_files d = db_files (bs_db st)"
    using insert_locations_wf [of bs _ "\<lambda>x. x"] d assms(1) by (auto simp: state_ok_def)
  with assms(1) show ?thesis unfolding st' by (intro state_ok_db) (auto simp: sequences_def)
qed

lemma update_block_ok:
  assumes "state_ok st" and "update_block_storage_state st i dev = Ok (st', u)"
  shows "state_ok st'"
proof -
  obtain k h where "st' = st\<lparr>bs_db := mark_stored k h (bs_db st)\<rparr>"
    using assms(2) by (auto simp: update_block_storage_state_def Let_def split: option.splits if_splits)
  moreover have "tables_wf (mark_stored k h (bs_db st))" using assms(1) by (simp add: mark_stored_wf state_ok_def)
  moreover have "sequences (mark_stored k h (bs_db st)) = sequences (bs_db st)" by (simp add: sequences_def mark_stored_def)
  ultimately show ?thesis using state_ok_db [OF assms(1)] by simp
qed

lemma init_index_ok: "state_ok st \<Longrightarrow> init_index st folder dev = Ok st' \<Longrightarrow> state_ok st'"
  using init_index_tables [of st folder dev st'] by (auto simp: state_ok_def drawn_bound_def sequences_def)

text \<open>The other methods leave the tables and the sequence.\<close>

lemma state_ok_same: "bs_db st' = bs_db st \<Longrightarrow> bs_sequence st' = bs_sequence st \<Longrightarrow> state_ok st \<Longrightarrow> state_ok st'"
  by (simp add: state_ok_def drawn_bound_def)

lemma bep_index_ok: "state_ok st \<Longrightarrow> state_ok (fst (bep_index st folder dev))"
  by (erule state_ok_same [rotated 2]) (simp_all add: bep_index_def Let_def split: option.split)

lemma queue_calls_ok:
  "state_ok st \<Longrightarrow> bep_update_pending_requests st a b = Ok (st', rs) \<Longrightarrow> state_ok st'"
  "state_ok st \<Longrightarrow> bep_remove_request st i = Ok (st', r) \<Longrightarrow> state_ok st'"
  by (auto simp: bep_update_pending_requests_def bep_remove_request_def elim!: state_ok_same [rotated 2])

lemma store_outgoing_ok:
  assumes "state_ok (pr_state p)"
  shows "state_ok (pr_state (fst (store_outgoing_requests wd bs p)))"
  by (rule state_ok_same [OF _ _ assms];
      cases "requests_from_blocks (load_request_id (pr_state p)) bs")
     (auto simp: store_outgoing_requests_def Let_def in_state_def step_state_def fetch_add_request_id_def
       insert_requests_def apfst_def map_prod_def split: result.split prod.split)

interpretation integrity: state_invariant state_ok max_pending max_area
  by unfold_locales
     (blast intro: next_sequence_ok init_index_ok update_cluster_config_ok replace_index_ok insert_file_info_ok
       rm_replace_file_info_ok rm_file_info_ok mv_file_info_ok bep_index_ok update_block_ok update_file_locations_ok
       remove_file_locations_ok store_outgoing_ok queue_calls_ok free_read_cache_ok update_read_cache_ok)+

end
