(* ===== verification/Proto3_Reference.thy ===== *)
theory Proto3_Reference
  imports Connection
begin

text \<open>
  A reference coder for the messages that the two tasks of a connection exchange most, written
  from the proto3 wire format: varints, length-delimited fields, defaults left out.  It is not a
  model of code of the repository; it shows that the laws of \<open>prost_codec\<close> can hold, and the
  theorems on a connection are instantiated with it.  Cluster configurations, indices and download
  progress are outside its message set, and it has no LZ4.
\<close>

section \<open>Varints\<close>

fun varint_encode :: "nat \<Rightarrow> bytes" where
  "varint_encode n =
     (if n < 128 then [of_nat n] else of_nat (128 + n mod 128) # varint_encode (n div 128))"

fun varint_decode :: "bytes \<Rightarrow> (nat \<times> bytes) option" where
  "varint_decode [] = None"
| "varint_decode (b # bs) =
     (if unat b < 128 then Some (unat b, bs)
      else map_option (\<lambda>(n, rest). (unat b - 128 + 128 * n, rest)) (varint_decode bs))"

declare varint_encode.simps [simp del]

lemma unat_of_nat_small: "n < 256 \<Longrightarrow> unat (of_nat n :: u8) = n"
  by (simp add: unat_of_nat)

lemma varint_roundtrip [simp]: "varint_decode (varint_encode n @ rest) = Some (n, rest)"
proof (induction n rule: varint_encode.induct)
  case (1 n)
  show ?case
  proof (cases "n < 128")
    case True
    then show ?thesis by (simp add: varint_encode.simps [of n] unat_of_nat_small)
  next
    case False
    have "unat (of_nat (128 + n mod 128) :: u8) = 128 + n mod 128"
      by (rule unat_of_nat_small) simp
    with False show ?thesis
      using 1 by (simp add: varint_encode.simps [of n] del: of_nat_add)
  qed
qed

lemma varint_nonempty [simp]: "varint_encode n \<noteq> []"
  by (simp add: varint_encode.simps [of n])

lemma varint_length: "n < 128 ^ Suc k \<Longrightarrow> length (varint_encode n) \<le> Suc k"
proof (induction k arbitrary: n)
  case 0
  then show ?case by (simp add: varint_encode.simps [of n])
next
  case (Suc k)
  then have "n div 128 < 128 ^ Suc k" by (simp add: less_mult_imp_div_less mult.commute)
  with Suc.IH show ?case by (auto simp: varint_encode.simps [of n])
qed

section \<open>Fields\<close>

datatype wire = Varint nat | Len bytes

fun field_encode :: "nat \<times> wire \<Rightarrow> bytes" where
  "field_encode (k, Varint n) = varint_encode (8 * k) @ varint_encode n"
| "field_encode (k, Len bs) = varint_encode (8 * k + 2) @ varint_encode (length bs) @ bs"

definition fields_encode :: "(nat \<times> wire) list \<Rightarrow> bytes" where
  "fields_encode fs = concat (map field_encode fs)"

definition field_decode :: "bytes \<Rightarrow> ((nat \<times> wire) \<times> bytes) option" where
  "field_decode bs =
     Option.bind (varint_decode bs) (\<lambda>(tag, bs).
     Option.bind (varint_decode bs) (\<lambda>(n, bs).
     if tag mod 8 = 0 then Some ((tag div 8, Varint n), bs)
     else if tag mod 8 = 2 \<and> n \<le> length bs then Some ((tag div 8, Len (take n bs)), drop n bs)
     else None))"

fun fields_decode_upto :: "nat \<Rightarrow> bytes \<Rightarrow> (nat \<times> wire) list option" where
  "fields_decode_upto fuel [] = Some []"
| "fields_decode_upto 0 (b # bs) = None"
| "fields_decode_upto (Suc fuel) (b # bs) =
     Option.bind (field_decode (b # bs)) (\<lambda>(f, rest).
     map_option (\<lambda>fs. f # fs) (fields_decode_upto fuel rest))"

text \<open>Every field takes at least one byte, so the length of the input is enough fuel.\<close>

definition fields_decode :: "bytes \<Rightarrow> (nat \<times> wire) list option" where
  "fields_decode bs = fields_decode_upto (length bs) bs"

lemma len_tag [simp]: "Suc (Suc (8 * k)) mod 8 = 2" "Suc (Suc (8 * k)) div 8 = k"
  by presburger+

lemma field_roundtrip [simp]: "field_decode (field_encode f @ rest) = Some (f, rest)"
  by (cases f rule: field_encode.cases) (simp_all add: field_decode_def)

lemma field_encode_nonempty [simp]: "field_encode f \<noteq> []"
  by (cases f rule: field_encode.cases) simp_all

lemma length_field_encode [simp]: "0 < length (field_encode f)"
  by simp

lemma fields_decode_upto_encode:
  "length (fields_encode fs) \<le> fuel \<Longrightarrow> fields_decode_upto fuel (fields_encode fs) = Some fs"
proof (induction fs arbitrary: fuel)
  case Nil
  then show ?case by (cases fuel) (simp_all add: fields_encode_def)
next
  case (Cons f fs)
  have cons: "fields_encode (f # fs) = field_encode f @ fields_encode fs"
    by (simp add: fields_encode_def)
  obtain b bs where head: "fields_encode (f # fs) = b # bs"
    by (cases "fields_encode (f # fs)") (auto simp: cons)
  have "fuel \<noteq> 0" using Cons.prems head by auto
  then obtain k where fuel: "fuel = Suc k" by (cases fuel) auto
  have "length (fields_encode fs) \<le> k"
    using Cons.prems length_field_encode [of f] unfolding fuel cons length_append by linarith
  moreover have "field_decode (b # bs) = Some (f, fields_encode fs)"
    using field_roundtrip [of f "fields_encode fs"] by (simp only: head cons [symmetric])
  ultimately show ?case
    using Cons.IH by (simp add: head fuel)
qed

lemma fields_roundtrip [simp]: "fields_decode (fields_encode fs) = Some fs"
  by (simp add: fields_decode_def fields_decode_upto_encode)

section \<open>Scalar values\<close>

definition opt_int :: "nat \<Rightarrow> int \<Rightarrow> (nat \<times> wire) list" where
  "opt_int k i = (if i = 0 then [] else [(k, Varint (nat (i mod 2 ^ 64)))])"

definition opt_bytes :: "nat \<Rightarrow> bytes \<Rightarrow> (nat \<times> wire) list" where
  "opt_bytes k bs = (if bs = [] then [] else [(k, Len bs)])"

definition string_bytes :: "string \<Rightarrow> bytes" where
  "string_bytes s = map (\<lambda>c. of_nat (of_char c)) s"

definition opt_string :: "nat \<Rightarrow> string \<Rightarrow> (nat \<times> wire) list" where
  "opt_string k s = opt_bytes k (string_bytes s)"

definition opt_bool :: "nat \<Rightarrow> bool \<Rightarrow> (nat \<times> wire) list" where
  "opt_bool k b = opt_int k (of_bool b)"

text \<open>The last occurrence of a field counts.\<close>

definition get_int :: "(nat \<times> wire) list \<Rightarrow> nat \<Rightarrow> int" where
  "get_int fs k =
     (case map_of (rev fs) k of
        Some (Varint n) \<Rightarrow> if n < 2 ^ 63 then int n else int n - 2 ^ 64
      | _ \<Rightarrow> 0)"

definition get_bytes :: "(nat \<times> wire) list \<Rightarrow> nat \<Rightarrow> bytes" where
  "get_bytes fs k = (case map_of (rev fs) k of Some (Len bs) \<Rightarrow> bs | _ \<Rightarrow> [])"

definition get_string :: "(nat \<times> wire) list \<Rightarrow> nat \<Rightarrow> string" where
  "get_string fs k = map (\<lambda>b. char_of (unat b)) (get_bytes fs k)"

definition get_bool :: "(nat \<times> wire) list \<Rightarrow> nat \<Rightarrow> bool" where
  "get_bool fs k = (get_int fs k \<noteq> 0)"

lemma int64_roundtrip:
  assumes "in_int64 i" and "n = nat (i mod 2 ^ 64)"
  shows "(if n < 2 ^ 63 then int n else int n - 2 ^ 64) = i"
proof (cases "0 \<le> i")
  case True
  then have "i mod 2 ^ 64 = i" using assms(1) by (intro mod_pos_pos_trivial) (auto simp: in_int64_def)
  with True assms show ?thesis by (auto simp: in_int64_def)
next
  case False
  have "i mod 2 ^ 64 = (i + 2 ^ 64) mod 2 ^ 64" by simp
  also have "\<dots> = i + 2 ^ 64"
    using assms(1) False by (intro mod_pos_pos_trivial) (auto simp: in_int64_def)
  finally show ?thesis
    using assms False by (auto simp: in_int64_def)
qed

definition field_at :: "(nat \<times> wire) list \<Rightarrow> nat \<Rightarrow> wire option" where
  "field_at fs k = map_of (rev fs) k"

lemma field_at_append [simp]:
  "field_at (fs @ gs) k = (case field_at gs k of None \<Rightarrow> field_at fs k | w \<Rightarrow> w)"
  by (simp add: field_at_def map_add_def split: option.split)

lemma field_at_Nil [simp]: "field_at [] k = None"
  by (simp add: field_at_def)

lemma field_at_opt [simp]:
  "field_at (opt_int j i) k = (if k = j \<and> i \<noteq> 0 then Some (Varint (nat (i mod 2 ^ 64))) else None)"
  "field_at (opt_bytes j bs) k = (if k = j \<and> bs \<noteq> [] then Some (Len bs) else None)"
  by (simp_all add: field_at_def opt_int_def opt_bytes_def)

lemmas get_defs = get_int_def get_bytes_def get_string_def get_bool_def
  field_at_def [symmetric] opt_string_def opt_bool_def

lemma string_bytes_roundtrip [simp]: "map (\<lambda>b. char_of (unat b)) (string_bytes s) = s"
  by (simp add: string_bytes_def comp_def unat_of_nat_small map_idI)

lemma string_bytes_eq_Nil [simp]: "string_bytes s = [] \<longleftrightarrow> s = []"
  by (simp add: string_bytes_def)

section \<open>Messages\<close>

definition ref_header_encode :: "header \<Rightarrow> bytes" where
  "ref_header_encode h = fields_encode (opt_int 1 (hdr_type h) @ opt_int 2 (hdr_compression h))"

definition ref_header_decode :: "bytes \<Rightarrow> header option" where
  "ref_header_decode bs = map_option (\<lambda>fs.
     \<lparr>hdr_type = get_int fs 1, hdr_compression = get_int fs 2\<rparr>) (fields_decode bs)"

definition ref_hello_encode :: "hello \<Rightarrow> bytes" where
  "ref_hello_encode h = fields_encode (opt_string 1 (hello_device_name h)
     @ opt_string 2 (hello_client_name h) @ opt_string 3 (hello_client_version h))"

definition ref_hello_decode :: "bytes \<Rightarrow> hello option" where
  "ref_hello_decode bs = map_option (\<lambda>fs.
     \<lparr>hello_device_name = get_string fs 1, hello_client_name = get_string fs 2,
      hello_client_version = get_string fs 3\<rparr>) (fields_decode bs)"

definition ref_request_encode :: "request \<Rightarrow> bytes" where
  "ref_request_encode r = fields_encode (opt_int 1 (req_id r) @ opt_string 2 (req_folder r)
     @ opt_string 3 (req_name r) @ opt_int 4 (req_offset r) @ opt_int 5 (req_size r)
     @ opt_bytes 6 (req_hash r) @ opt_bool 7 (req_from_temporary r))"

definition ref_request_decode :: "bytes \<Rightarrow> request option" where
  "ref_request_decode bs = map_option (\<lambda>fs.
     \<lparr>req_id = get_int fs 1, req_folder = get_string fs 2, req_name = get_string fs 3,
      req_offset = get_int fs 4, req_size = get_int fs 5, req_hash = get_bytes fs 6,
      req_from_temporary = get_bool fs 7\<rparr>) (fields_decode bs)"

definition ref_response_encode :: "response \<Rightarrow> bytes" where
  "ref_response_encode r = fields_encode (opt_int 1 (resp_id r) @ opt_bytes 2 (resp_data r)
     @ opt_int 3 (resp_code r))"

definition ref_response_decode :: "bytes \<Rightarrow> response option" where
  "ref_response_decode bs = map_option (\<lambda>fs.
     \<lparr>resp_id = get_int fs 1, resp_data = get_bytes fs 2, resp_code = get_int fs 3\<rparr>)
     (fields_decode bs)"

definition ref_close_encode :: "close_msg \<Rightarrow> bytes" where
  "ref_close_encode c = fields_encode (opt_string 1 (close_reason c))"

definition ref_close_decode :: "bytes \<Rightarrow> close_msg option" where
  "ref_close_decode bs = map_option (\<lambda>fs. \<lparr>close_reason = get_string fs 1\<rparr>) (fields_decode bs)"

definition ref_codec :: codec where
  "ref_codec =
     \<lparr>hello_encode = ref_hello_encode, hello_decode = ref_hello_decode,
      header_encode = ref_header_encode, header_decode = ref_header_decode,
      cluster_config_encode = (\<lambda>_. []), cluster_config_decode = (\<lambda>_. None),
      index_encode = (\<lambda>_. []), index_decode = (\<lambda>_. None),
      index_update_encode = (\<lambda>_. []), index_update_decode = (\<lambda>_. None),
      request_encode = ref_request_encode, request_decode = ref_request_decode,
      response_encode = ref_response_encode, response_decode = ref_response_decode,
      download_progress_encode = (\<lambda>_. []), download_progress_decode = (\<lambda>_. None),
      ping_encode = [], ping_decode = (\<lambda>bs. map_option (\<lambda>_. ()) (fields_decode bs)),
      close_encode = ref_close_encode, close_decode = ref_close_decode,
      lz4_decompress = (\<lambda>_ _. None)\<rparr>"

definition ref_message :: "complete_message \<Rightarrow> bool" where
  "ref_message m =
     (case m of
        Hello _ \<Rightarrow> True | Ping \<Rightarrow> True | Close _ \<Rightarrow> True
      | Request r \<Rightarrow> in_int64 (req_id r) \<and> in_int64 (req_offset r) \<and> in_int64 (req_size r)
      | Response r \<Rightarrow> in_int64 (resp_id r) \<and> in_int64 (resp_code r)
      | _ \<Rightarrow> False)"

lemma get_int_field:
  "field_at fs k = (if i = 0 then None else Some (Varint (nat (i mod 2 ^ 64)))) \<Longrightarrow> in_int64 i \<Longrightarrow>
   get_int fs k = i"
  using int64_roundtrip [of i, OF _ refl] by (auto simp: get_int_def field_at_def)

lemma get_bytes_field:
  "field_at fs k = (if bs = [] then None else Some (Len bs)) \<Longrightarrow> get_bytes fs k = bs"
  by (auto simp: get_bytes_def field_at_def)

lemma get_string_field:
  "field_at fs k = (if s = [] then None else Some (Len (string_bytes s))) \<Longrightarrow> get_string fs k = s"
  using get_bytes_field [of fs k "string_bytes s"] by (simp add: get_string_def)

lemma get_bool_field:
  "field_at fs k = field_at (opt_bool k b) k \<Longrightarrow> get_bool fs k \<longleftrightarrow> b"
  by (cases b) (auto simp: get_bool_def get_int_def field_at_def opt_bool_def opt_int_def)

lemmas get_fields = get_int_field get_bytes_field get_string_field

lemma int32_in_int64: "in_int64 (message_type_into t)" "in_int64 0"
  by (cases t) (simp_all add: in_int64_def)

lemma ref_header_any_roundtrip:
  "in_int64 (hdr_type h) \<Longrightarrow> in_int64 (hdr_compression h) \<Longrightarrow>
   ref_header_decode (ref_header_encode h) = Some h"
  by (cases h) (auto simp: ref_header_decode_def ref_header_encode_def intro!: get_fields)

lemma ref_header_roundtrip: "ref_header_decode (ref_header_encode (wire_header t)) = Some (wire_header t)"
  by (rule ref_header_any_roundtrip) (simp_all add: wire_header_def int32_in_int64)

lemma ref_header_length: "length (ref_header_encode (wire_header t)) < 65536"
  by (cases t) (simp_all add: ref_header_encode_def wire_header_def opt_int_def fields_encode_def
      varint_encode.simps)

lemma ref_hello_roundtrip: "ref_hello_decode (ref_hello_encode h) = Some h"
  by (cases h) (auto simp: ref_hello_decode_def ref_hello_encode_def opt_string_def
      intro!: get_fields)

lemma ref_request_roundtrip:
  "ref_message (Request r) \<Longrightarrow> ref_request_decode (ref_request_encode r) = Some r"
  by (cases r) (auto simp: ref_request_decode_def ref_request_encode_def opt_string_def opt_bool_def
      ref_message_def get_bool_field intro!: get_fields)

lemma ref_response_roundtrip:
  "ref_message (Response r) \<Longrightarrow> ref_response_decode (ref_response_encode r) = Some r"
  by (cases r) (auto simp: ref_response_decode_def ref_response_encode_def ref_message_def
      intro!: get_fields)

lemma ref_close_roundtrip: "ref_close_decode (ref_close_encode c) = Some c"
  by (cases c) (auto simp: ref_close_decode_def ref_close_encode_def opt_string_def
      intro!: get_fields)

interpretation proto3: prost_codec ref_codec "{m. ref_message m}"
  by unfold_locales
     (simp_all add: ref_codec_def ref_header_roundtrip ref_header_length ref_hello_roundtrip
       ref_request_roundtrip ref_response_roundtrip ref_close_roundtrip,
      simp_all add: ref_message_def fields_decode_def)

section \<open>Properties of a connection\<close>

text \<open>
  Claim C1. Everything the writing task puts on the wire, starting with the Hello, is read back by
  the reading task as the same messages in the same order, whatever non-empty buffers the stream
  is cut into, and the parser is left ready for the next message.  This holds for every coder that
  obeys \<open>prost_codec\<close> and for events whose messages fit the length fields.
\<close>

theorem connection_roundtrip:
  assumes "prost_codec cdc msgs" and "Hello h \<in> msgs" and "fits cdc (Hello h)"
    and "\<forall>m \<in> set (concat (map event_messages evs)). m \<in> msgs \<and> fits cdc m \<and> \<not> is_hello m"
    and "\<forall>(ev, rs) \<in> set evs. \<forall>m. ev = Message m \<longrightarrow> \<not> is_request m"
  shows "\<exists>data. events_data cdc ((Message (Hello h), []) # evs) = Ok data \<and>
    (\<forall>bufs. concat bufs = data \<longrightarrow> (\<forall>buf \<in> set bufs. buf \<noteq> []) \<longrightarrow>
      read_loop cdc bep_data_parser_new bufs [] =
        Some (Hello h # concat (map event_messages evs), Ok parser_ready))"
proof -
  obtain data where data: "events_data cdc ((Message (Hello h), []) # evs) = Ok data"
    "parse_incoming_data cdc bep_data_parser_new data =
      Some (Ok (parser_ready, Hello h # concat (map event_messages evs)))"
    using prost_codec.parse_connection [OF assms] by blast
  then show ?thesis
    using read_loop_concat [OF parser_wf_initial, where pre = "[]"] by auto
qed

definition sample_hello :: hello where
  "sample_hello = \<lparr>hello_device_name = ''ds'', hello_client_name = ''grizol'',
     hello_client_version = ''0''\<rparr>"

definition sample_request :: request where
  "sample_request = \<lparr>req_id = 7, req_folder = ''f'', req_name = ''a'', req_offset = 0, req_size = 5,
     req_hash = [1, 2, 3], req_from_temporary = False\<rparr>"

definition sample_response :: response where
  "sample_response = \<lparr>resp_id = 7, resp_data = [1, 2, 3, 4, 5], resp_code = 0\<rparr>"

definition sample_events :: "(grizol_event \<times> request list) list" where
  "sample_events = [(RequestCreated, [sample_request]), (Message Ping, []),
     (Message (Response sample_response), [])]"

lemmas sample_defs = sample_hello_def sample_request_def sample_response_def sample_events_def

lemmas ref_encoders = ref_hello_encode_def ref_request_encode_def ref_response_encode_def
  fields_encode_def opt_int_def opt_bool_def opt_string_def opt_bytes_def string_bytes_def

theorem connection_roundtrip_witness:
  "\<exists>data. events_data ref_codec ((Message (Hello sample_hello), []) # sample_events) = Ok data \<and>
    (\<forall>bufs. concat bufs = data \<longrightarrow> (\<forall>buf \<in> set bufs. buf \<noteq> []) \<longrightarrow>
      read_loop ref_codec bep_data_parser_new bufs [] =
        Some (Hello sample_hello # concat (map event_messages sample_events), Ok parser_ready))"
  by (rule connection_roundtrip [OF proto3.prost_codec_axioms])
     (simp_all add: sample_defs ref_message_def in_int64_def is_hello_def is_request_def fits_def
        ref_codec_def ref_encoders varint_encode.simps)

text \<open>
  Claim C16. Reading a stream in pieces is the same as reading it at once: from every well-formed
  parser state, parsing \<open>a @ b\<close> gives what parsing \<open>a\<close> and then \<open>b\<close> gives, errors and
  panics included.
\<close>

theorem parse_incoming_data_chunks:
  assumes "parser_wf p"
  shows "parse_incoming_data cdc p (a @ b) =
    (case parse_incoming_data cdc p a of
       Some (Ok (p', ms)) \<Rightarrow>
         map_option (map_ok (\<lambda>(p'', ms'). (p'', ms @ ms'))) (parse_incoming_data cdc p' b)
     | r \<Rightarrow> r)"
  by (rule parse_incoming_data_append [OF assms])

theorem parse_incoming_data_chunks_witness:
  "parse_incoming_data ref_codec bep_data_parser_new ([0x2e, 0xa7, 0xd9] @ [0x0b, 0, 0]) =
    (case parse_incoming_data ref_codec bep_data_parser_new [0x2e, 0xa7, 0xd9] of
       Some (Ok (p', ms)) \<Rightarrow>
         map_option (map_ok (\<lambda>(p'', ms'). (p'', ms @ ms')))
           (parse_incoming_data ref_codec p' [0x0b, 0, 0])
     | r \<Rightarrow> r)"
  by (rule parse_incoming_data_chunks [OF parser_wf_initial])

text \<open>
  Claim C18. The loop over a buffer always ends: from a well-formed state \<open>parse_incoming_data\<close>
  returns for every buffer and every coder, and a successful call leaves a well-formed state with
  fewer bytes pending than the next part of the message needs.
\<close>

theorem parse_incoming_data_returns:
  assumes "parser_wf p"
  shows "\<exists>r. parse_incoming_data cdc p buf = Some r \<and>
    (\<forall>p' ms. r = Ok (p', ms) \<longrightarrow> parser_wf p' \<and> 0 < next_chunk p')"
proof -
  obtain r where "parse_loop cdc p buf [] = Some r"
    and "\<forall>p' ms. r = Ok (p', ms) \<longrightarrow> parser_wf p'"
    using parse_loop_total [OF assms] by blast
  then show ?thesis
    using next_chunk_pos by (auto simp: parse_incoming_data_def)
qed

theorem parse_incoming_data_returns_witness:
  "\<exists>r. parse_incoming_data ref_codec bep_data_parser_new [0x2e, 0xa7] = Some r \<and>
    (\<forall>p' ms. r = Ok (p', ms) \<longrightarrow> parser_wf p' \<and> 0 < next_chunk p')"
  by (rule parse_incoming_data_returns [OF parser_wf_initial])


definition lenient_codec :: codec where
  "lenient_codec = ref_codec\<lparr>hello_decode := (\<lambda>_. Some sample_hello),
     header_decode := (\<lambda>bs. Some (wire_header (if bs = [] then MT_Ping else MT_Request)))\<rparr>"


text \<open>
  A connection whose first four bytes are not the magic number is refused with
  \<^verbatim>\<open>NoMagicHello\<close> once the announced number of bytes has arrived, whatever follows.
\<close>

theorem bad_magic_refused:
  assumes "length magic = 4" and "magic \<noteq> MAGIC_NUMBER" and "length body < 2 ^ 16"
  shows "\<exists>p. parse_incoming_data cdc bep_data_parser_new
    (magic @ to_be_bytes 2 (length body) @ body @ rest) = Some (Err (p, NoMagicHello))"
  using parse_hello_bad_magic [OF assms(1,2), of body cdc rest] assms(3)
  by (simp add: parse_incoming_data_def)

theorem bad_magic_refused_witness:
  "\<exists>p. parse_incoming_data ref_codec bep_data_parser_new
    ([1, 2, 3, 4] @ to_be_bytes 2 (length [9 :: u8]) @ [9] @ []) = Some (Err (p, NoMagicHello))"
  by (rule bad_magic_refused) (simp_all add: MAGIC_NUMBER_def)

text \<open>
  A peer can stop the reading task: a frame whose header asks for LZ4 and whose message is
  shorter than the four bytes of the uncompressed length makes the parser panic.
\<close>

lemma lz4_short_frame_panics:
  assumes "length hb < 2 ^ 16" and "length body < 4" and "header_decode cdc hb = Some h"
    and "hdr_compression h = 1"
  shows "parse_incoming_data cdc parser_ready (frame hb body) = Some Panic"
  using parse_frame_lz4_short [OF _ assms(2-4)] assms(1) by (simp add: parse_incoming_data_def)

lemma lz4_short_frame_panics_witness:
  "parse_incoming_data ref_codec parser_ready 
    (frame (ref_header_encode \<lparr>hdr_type = 6, hdr_compression = 1\<rparr>) []) = Some Panic"
  by (rule lz4_short_frame_panics [where h = "\<lparr>hdr_type = 6, hdr_compression = 1\<rparr>"])
     (simp_all add: ref_codec_def ref_header_any_roundtrip in_int64_def,
      simp add: ref_header_encode_def ref_encoders varint_encode.simps)

end
