(* ===== verification/Connection_Tasks.thy ===== *)
theory Connection_Tasks
  imports Queue_Limits Table_Integrity Proto3_Reference
begin

text \<open>
  The tasks of a connection (\<^verbatim>\<open>handle_incoming_data\<close> of \<^verbatim>\<open>src/src/main.rs\<close>): the task that reads and parses,
  the tasks that handle the messages of one read each, the task that sends pings, and the loop that
  takes events from the channel and writes them.  Every operation is one step of one of these tasks; a handling
  task runs one section of a handler per step.  The processor is shared with the other connections, and is passed
  along.  Theory \<open>Server\<close> lets all tasks of all connections run in any order.
\<close>

section \<open>The tasks of a connection\<close>

text \<open>
  A task that handles the messages of one read: the events it still has to send, the handler that runs, and the
  messages that are left.
\<close>

record handling_task =
  ht_events :: "grizol_event list"
  ht_running :: "events handler"
  ht_messages :: "complete_message list"

record connection =
  cn_parser :: bep_data_parser
  cn_reading :: bool
  cn_tasks :: "handling_task list"
  cn_channel :: "grizol_event list"
  cn_open :: bool
  cn_sent :: "(grizol_event \<times> request list) list"
  cn_output :: bytes

definition channel_size :: nat where "channel_size = 2 ^ 10"

definition read_size :: nat where "read_size = 2 ^ 16"

definition connection_new :: connection where
  "connection_new = \<lparr>cn_parser = bep_data_parser_new, cn_reading = True, cn_tasks = [],
     cn_channel = [], cn_open = True, cn_sent = [], cn_output = []\<rparr>"

text \<open>
  The reading task: the messages of every read go to a new task.  It ends at the end of the stream
  and, with a panic, at a stream that cannot be parsed.
\<close>

definition handling_new :: "complete_message list \<Rightarrow> handling_task" where
  "handling_new complete_messages = \<lparr>ht_events = [], ht_running = Return (Ok []), ht_messages = complete_messages\<rparr>"

definition conn_read :: "codec \<Rightarrow> bytes \<Rightarrow> connection \<Rightarrow> connection" where
  "conn_read cdc buf s =
     (if \<not> cn_reading s then s
      else if buf = [] then s\<lparr>cn_reading := False\<rparr>
      else case parse_incoming_data cdc (cn_parser s) buf of
             Some (Ok (p, complete_messages)) \<Rightarrow>
               s\<lparr>cn_parser := p, cn_tasks := cn_tasks s @ [handling_new complete_messages]\<rparr>
           | _ \<Rightarrow> s\<lparr>cn_reading := False\<rparr>)"

text \<open>
  A handling task runs the next section of its handler; when the handler has returned it takes over the events,
  of which errors are only logged; when all events are sent it starts with the next message.  A panic ends it.
\<close>

definition successes :: "events \<Rightarrow> grizol_event list" where
  "successes es = List.map_filter (\<lambda>r. case r of Ok e \<Rightarrow> Some e | _ \<Rightarrow> None) es"

definition handling_turn ::
    "world \<Rightarrow> device_id \<Rightarrow> bep_processor \<Rightarrow> handling_task \<Rightarrow> bep_processor \<times> handling_task" where
  "handling_turn wd cdid p h =
     (if ht_events h \<noteq> [] then (p, h)
      else case ht_running h of
             Step f \<Rightarrow> (case f p of (p, t) \<Rightarrow> (p, h\<lparr>ht_running := t\<rparr>))
           | Return (Ok []) \<Rightarrow>
               (case ht_messages h of
                  [] \<Rightarrow> (p, h)
                | cm # cms \<Rightarrow> (p, h\<lparr>ht_running := message_task wd (pr_config p) cm cdid, ht_messages := cms\<rparr>))
           | Return (Ok es) \<Rightarrow> (p, h\<lparr>ht_events := successes es, ht_running := Return (Ok [])\<rparr>)
           | Return _ \<Rightarrow> (p, h\<lparr>ht_running := Return (Ok []), ht_messages := []\<rparr>))"

definition conn_handle ::
    "world \<Rightarrow> device_id \<Rightarrow> nat \<Rightarrow> bep_processor \<Rightarrow> connection \<Rightarrow> bep_processor \<times> connection" where
  "conn_handle wd cdid i p s =
     (if i < length (cn_tasks s)
      then (case handling_turn wd cdid p (cn_tasks s ! i) of (p, h) \<Rightarrow> (p, s\<lparr>cn_tasks := (cn_tasks s)[i := h]\<rparr>))
      else (p, s))"

text \<open>Sending waits while the channel is full and fails when its receiver is gone, which ends the task.\<close>

definition conn_send :: "nat \<Rightarrow> connection \<Rightarrow> connection" where
  "conn_send i s =
     (if i < length (cn_tasks s) then
        (case ht_events (cn_tasks s ! i) of
           [] \<Rightarrow> s
         | e # es \<Rightarrow>
             if \<not> cn_open s
             then s\<lparr>cn_tasks := (cn_tasks s)[i := (cn_tasks s ! i)\<lparr>ht_events := [], ht_messages := []\<rparr>]\<rparr>
             else if length (cn_channel s) < channel_size
             then s\<lparr>cn_channel := cn_channel s @ [e], cn_tasks := (cn_tasks s)[i := (cn_tasks s ! i)\<lparr>ht_events := es\<rparr>]\<rparr>
             else s)
      else s)"

definition conn_ping :: "connection \<Rightarrow> connection" where
  "conn_ping s =
     (if cn_open s \<and> length (cn_channel s) < channel_size
      then s\<lparr>cn_channel := cn_channel s @ [Message Ping]\<rparr> else s)"

text \<open>The writing loop: one event from the channel.\<close>

definition event_requests :: "grizol_event \<Rightarrow> bep_processor \<Rightarrow> request list processing" where
  "event_requests e p = (case e of Message _ \<Rightarrow> (p, Ok []) | _ \<Rightarrow> throttled_requests p)"

definition conn_write :: "codec \<Rightarrow> bep_processor \<Rightarrow> connection \<Rightarrow> bep_processor \<times> connection" where
  "conn_write cdc p s =
     (case cn_channel s of
        [] \<Rightarrow> (p, s)
      | e # es \<Rightarrow>
          if \<not> cn_open s then (p, s)
          else case event_requests e p of
            (p, Ok requests) \<Rightarrow>
              (case event_data cdc requests e of
                 Ok data \<Rightarrow> (p, s\<lparr>cn_channel := es, cn_sent := cn_sent s @ [(e, requests)], cn_output := cn_output s @ data\<rparr>)
               | _ \<Rightarrow> (p, s\<lparr>cn_open := False\<rparr>))
          | (p, _) \<Rightarrow> (p, s\<lparr>cn_open := False\<rparr>))"

text \<open>An error of the socket ends the writing loop.\<close>

definition conn_fail :: "connection \<Rightarrow> connection" where
  "conn_fail s = s\<lparr>cn_open := False\<rparr>"

section \<open>Invariants\<close>

text \<open>The shared state keeps the limits of the queue and the integrity of the tables.\<close>

definition processor_ok :: "grizol_config \<Rightarrow> bep_processor \<Rightarrow> bool" where
  "processor_ok config p \<longleftrightarrow> limits.good config config p \<and> integrity.good config p"

lemma processor_ok_iff: "processor_ok config p \<longleftrightarrow> pr_config p = config \<and> state_within config (pr_state p) \<and> state_ok (pr_state p)"
  by (auto simp: processor_ok_def limits.good_def integrity.good_def)

lemma message_task_ok: "keeps (processor_ok config) (message_task wd config m client)"
  unfolding processor_ok_def by (rule keeps_both [OF limits.message_task_keeps integrity.message_task_keeps])

lemma throttled_ok: "processor_ok config p \<Longrightarrow> processor_ok config (fst (throttled_requests p))"
  using limits.throttled_good [of config config p]
    integrity.throttled_good [of config p "gc_max_pending_requests config" "gc_max_total_pending_requests_size config"]
  by (simp add: processor_ok_def)

text \<open>
  A connection: the output is the serialisation of the events that were taken from the channel, the channel
  and the parser are within their bounds, and what is left of every handler keeps the shared state.
\<close>

definition conn_ok :: "codec \<Rightarrow> grizol_config \<Rightarrow> connection \<Rightarrow> bool" where
  "conn_ok cdc config s \<longleftrightarrow> events_data cdc (cn_sent s) = Ok (cn_output s) \<and>
     length (cn_channel s) \<le> channel_size \<and> parser_wf (cn_parser s) \<and>
     (\<forall>h \<in> set (cn_tasks s). keeps (processor_ok config) (ht_running h))"

lemma events_data_snoc:
  "events_data cdc evs = Ok out \<Longrightarrow> event_data cdc requests e = Ok data \<Longrightarrow>
   events_data cdc (evs @ [(e, requests)]) = Ok (out @ data)"
  by (induction evs arbitrary: out) auto

lemma connection_new_ok: "conn_ok cdc config connection_new"
  by (simp add: conn_ok_def connection_new_def channel_size_def parser_wf_initial)

lemma conn_read_ok:
  assumes "conn_ok cdc config s"
  shows "conn_ok cdc config (conn_read cdc buf s)"
proof -
  obtain r where r: "parse_incoming_data cdc (cn_parser s) buf = Some r" "\<And>p ms. r = Ok (p, ms) \<Longrightarrow> parser_wf p"
    using assms parse_loop_total [of "cn_parser s" cdc buf "[]"] by (auto simp: conn_ok_def parse_incoming_data_def)
  with assms show ?thesis by (cases r) (auto simp: conn_ok_def conn_read_def handling_new_def)
qed

lemma conn_ok_update:
  assumes "conn_ok cdc config s" and "keeps (processor_ok config) (ht_running h)"
  shows "conn_ok cdc config (s\<lparr>cn_tasks := (cn_tasks s)[i := h]\<rparr>)"
  using assms by (auto simp: conn_ok_def dest!: set_update_subset_insert [THEN subsetD])

lemma handling_turn_ok:
  assumes "processor_ok config p" and "keeps (processor_ok config) (ht_running h)"
    and "handling_turn wd cdid p h = (p', h')"
  shows "processor_ok config p' \<and> keeps (processor_ok config) (ht_running h')"
proof (cases "ht_events h \<noteq> []")
  case False
  have config: "pr_config p = config" using assms(1) by (simp add: processor_ok_iff)
  show ?thesis
  proof (cases "ht_running h")
    case (Step f)
    then show ?thesis using False assms by (auto simp: handling_turn_def split: prod.splits)
  next
    case (Return r)
    then show ?thesis using False assms config message_task_ok
      by (cases r) (auto simp: handling_turn_def split: list.splits)
  qed
qed (use assms in \<open>simp add: handling_turn_def\<close>)

lemma conn_handle_ok:
  assumes "processor_ok config p" and "conn_ok cdc config s" and "conn_handle wd cdid i p s = (p', s')"
  shows "processor_ok config p' \<and> conn_ok cdc config s'"
proof (cases "i < length (cn_tasks s)")
  case True
  obtain p1 h where h: "handling_turn wd cdid p (cn_tasks s ! i) = (p1, h)" by fastforce
  have "keeps (processor_ok config) (ht_running (cn_tasks s ! i))" using assms(2) True by (simp add: conn_ok_def)
  from handling_turn_ok [OF assms(1) this h] have "processor_ok config p1" "keeps (processor_ok config) (ht_running h)"
    by simp_all
  moreover have "p' = p1" "s' = s\<lparr>cn_tasks := (cn_tasks s)[i := h]\<rparr>"
    using assms(3) True h by (simp_all add: conn_handle_def)
  ultimately show ?thesis using conn_ok_update [OF assms(2)] by simp
qed (use assms in \<open>simp add: conn_handle_def\<close>)

lemma conn_send_ok:
  assumes "conn_ok cdc config s"
  shows "conn_ok cdc config (conn_send i s)"
proof (cases "i < length (cn_tasks s)")
  case True
  let ?h = "cn_tasks s ! i"
  have "keeps (processor_ok config) (ht_running ?h)" using assms True by (simp add: conn_ok_def)
  then have h: "conn_ok cdc config (s\<lparr>cn_tasks := (cn_tasks s)[i := ?h\<lparr>ht_events := es\<rparr>]\<rparr>)"
    "conn_ok cdc config (s\<lparr>cn_tasks := (cn_tasks s)[i := ?h\<lparr>ht_events := es, ht_messages := ms\<rparr>]\<rparr>)" for es ms
    by (simp_all add: conn_ok_update [OF assms])
  have "conn_ok cdc config (s\<lparr>cn_channel := ch, cn_tasks := (cn_tasks s)[i := ?h\<lparr>ht_events := es\<rparr>]\<rparr>)"
    if "length ch \<le> channel_size" for ch es
    using h(1) [of es] that by (simp add: conn_ok_def)
  with h assms True show ?thesis by (simp add: conn_send_def split: list.split)
qed (use assms in \<open>simp add: conn_send_def\<close>)

lemma conn_ping_ok: "conn_ok cdc config s \<Longrightarrow> conn_ok cdc config (conn_ping s)"
  by (simp add: conn_ok_def conn_ping_def)

lemma conn_fail_ok: "conn_ok cdc config s \<Longrightarrow> conn_ok cdc config (conn_fail s)"
  by (simp add: conn_ok_def conn_fail_def)

lemma conn_write_ok:
  assumes "processor_ok config p" and "conn_ok cdc config s" and "conn_write cdc p s = (p', s')"
  shows "processor_ok config p' \<and> conn_ok cdc config s'"
proof (cases "cn_channel s")
  case (Cons e es)
  obtain p1 r where r: "event_requests e p = (p1, r)" by fastforce
  have p1: "processor_ok config p1"
    using throttled_ok [OF assms(1)] assms(1) r by (auto simp: event_requests_def split: grizol_event.splits)
  show ?thesis
  proof (cases "cn_open s")
    case True
    then show ?thesis
      using assms Cons r p1
      by (cases r; cases "event_data cdc (ok_val r) e")
         (auto simp: conn_write_def conn_ok_def intro: events_data_snoc)
  qed (use assms Cons in \<open>simp add: conn_write_def\<close>)
qed (use assms in \<open>simp add: conn_write_def\<close>)

end
