(* ===== verification/Connectivity.thy ===== *)
theory Connectivity
  imports Configuration
begin

text \<open>
  The set-up of TLS and the authentication of peers (\<^verbatim>\<open>src/src/connectivity.rs\<close>), and the beginning of a connection in
  \<^verbatim>\<open>handle_incoming_data\<close> (\<^verbatim>\<open>src/src/main.rs\<close>).

  The verifier stores the identifier of the certificate it is shown in a cell shared by all
  connections, and the task of a connection reads the cell when the TLS handshake is over.  The
  task takes the mutex \<^verbatim>\<open>device_id_assigner\<close> with \<^verbatim>\<open>let _ = ...lock().await\<close>, which releases it at
  once, so the steps of different connections interleave: \<open>accept_run\<close>.
\<close>

section \<open>Definitions\<close>

record preshared_auth =
  pa_trusted_peers :: "device_id list"
  pa_client_device_id :: "device_id option"

datatype tls_error = InvalidPurpose

definition verify_client_cert ::
    "(bytes \<Rightarrow> bytes) \<Rightarrow> preshared_auth \<Rightarrow> bytes \<Rightarrow> preshared_auth \<times> (unit, tls_error) result" where
  "verify_client_cert sha256 auth end_entity =
     (let client_id = device_id_from_cert sha256 end_entity;
          auth = auth\<lparr>pa_client_device_id := Some client_id\<rparr>;
          any_match = list_ex (\<lambda>trusted_peer. client_id = trusted_peer) (pa_trusted_peers auth)
      in if any_match then (auth, Ok ()) else (auth, Err InvalidPurpose))"

text \<open>The verifier of \<^verbatim>\<open>server_config\<close>.\<close>

definition server_auth :: "environment \<Rightarrow> proto_config \<Rightarrow> (preshared_auth, unit) result" where
  "server_auth env pc =
     map_ok (\<lambda>trusted_peers. \<lparr>pa_trusted_peers = trusted_peers, pa_client_device_id = None\<rparr>)
       (parse_peers env (pc_trusted_peers pc))"

text \<open>
  The certificates and the key that the server shows.  What the libraries do is gathered in \<open>tls_env\<close>: opening a file,
  reading the next item of a PEM file (with the rest of the file, \<open>None\<close> for an error), and whether \<^verbatim>\<open>rustls\<close> takes the
  cipher suites with the versions, and the certificates with the key.
\<close>

datatype pem_item = X509Certificate bytes | RSAKey bytes | PKCS8Key bytes | ECKey bytes | Crl bytes

record tls_env =
  te_env :: environment
  te_open :: "string \<Rightarrow> bytes option"
  te_read_one :: "bytes \<Rightarrow> (pem_item option \<times> bytes) option"
  te_versions :: bool
  te_single_cert :: "bytes list \<Rightarrow> bytes \<Rightarrow> bool"

definition load_certs :: "environment \<Rightarrow> string \<Rightarrow> (bytes list, unit) result" where
  "load_certs env filename = unwrap_opt (env_certs env filename)"

text \<open>The loop of \<^verbatim>\<open>load_private_key\<close>; the value is \<open>None\<close> when the items never end.\<close>

partial_function (option) read_key ::
    "(bytes \<Rightarrow> (pem_item option \<times> bytes) option) \<Rightarrow> bytes \<Rightarrow> (bytes, unit) result option" where
  "read_key read_one reader =
     (case read_one reader of
        None \<Rightarrow> Some Panic
      | Some (None, _) \<Rightarrow> Some Panic
      | Some (Some item, reader) \<Rightarrow>
          (case item of
             RSAKey key \<Rightarrow> Some (Ok key)
           | PKCS8Key key \<Rightarrow> Some (Ok key)
           | ECKey key \<Rightarrow> Some (Ok key)
           | _ \<Rightarrow> read_key read_one reader))"

definition load_private_key :: "tls_env \<Rightarrow> string \<Rightarrow> (bytes, unit) result option" where
  "load_private_key env filename =
     (case te_open env filename of None \<Rightarrow> Some Panic | Some reader \<Rightarrow> read_key (te_read_one env) reader)"

record tls_config =
  sc_auth :: preshared_auth
  sc_certs :: "bytes list"
  sc_key :: bytes
  sc_alpn_protocols :: "string list"

definition bep_protocol_id :: string where "bep_protocol_id = ''bep/1.0''"

fun opt_then :: "('a, 'e) result \<Rightarrow> ('a \<Rightarrow> ('b, 'e) result option) \<Rightarrow> ('b, 'e) result option" where
  "opt_then (Ok a) f = f a"
| "opt_then (Err e) f = Some (Err e)"
| "opt_then Panic f = Some Panic"

definition server_config :: "tls_env \<Rightarrow> proto_config \<Rightarrow> (tls_config, unit) result option" where
  "server_config env pc =
     opt_then (server_auth (te_env env) pc) (\<lambda>client_auth.
     opt_then (load_certs (te_env env) (pc_cert pc)) (\<lambda>certs.
     Option.bind (load_private_key env (pc_key pc)) (\<lambda>privkey.
     opt_then privkey (\<lambda>privkey.
     Some (if te_versions env \<and> te_single_cert env certs privkey
       then Ok \<lparr>sc_auth = client_auth, sc_certs = certs, sc_key = privkey, sc_alpn_protocols = [bep_protocol_id]\<rparr>
       else Panic)))))"

text \<open>
  The phases of a connection: waiting for the mutex, in the handshake, accepted, running with the
  identifier it has read, or ended.
\<close>

datatype conn_phase = Locking | Handshake | Accepted | Serving device_id | Ended

record accept_state =
  ac_auth :: preshared_auth
  ac_phase :: "nat \<Rightarrow> conn_phase"

definition accept_init :: "preshared_auth \<Rightarrow> accept_state" where
  "accept_init auth = \<lparr>ac_auth = auth, ac_phase = \<lambda>_. Locking\<rparr>"

definition accept_lock :: "nat \<Rightarrow> accept_state \<Rightarrow> accept_state" where
  "accept_lock i s = s\<lparr>ac_phase := (ac_phase s)(i := Handshake)\<rparr>"

definition accept_verify :: "(bytes \<Rightarrow> bytes) \<Rightarrow> bytes \<Rightarrow> nat \<Rightarrow> accept_state \<Rightarrow> accept_state" where
  "accept_verify sha256 cert i s =
     (case verify_client_cert sha256 (ac_auth s) cert of
        (auth, Ok _) \<Rightarrow> s\<lparr>ac_auth := auth, ac_phase := (ac_phase s)(i := Accepted)\<rparr>
      | (auth, _) \<Rightarrow> s\<lparr>ac_auth := auth, ac_phase := (ac_phase s)(i := Ended)\<rparr>)"

definition accept_assign :: "nat \<Rightarrow> accept_state \<Rightarrow> accept_state" where
  "accept_assign i s =
     (case pa_client_device_id (ac_auth s) of
        Some cdid \<Rightarrow> s\<lparr>ac_phase := (ac_phase s)(i := Serving cdid)\<rparr>
      | None \<Rightarrow> s\<lparr>ac_phase := (ac_phase s)(i := Ended)\<rparr>)"

text \<open>All interleavings; \<open>cert i\<close> is the certificate the peer of connection \<open>i\<close> presents.\<close>

inductive accept_run :: "(bytes \<Rightarrow> bytes) \<Rightarrow> (nat \<Rightarrow> bytes) \<Rightarrow> preshared_auth \<Rightarrow> accept_state \<Rightarrow> bool"
  for sha256 cert auth where
  start: "accept_run sha256 cert auth (accept_init auth)"
| lock: "accept_run sha256 cert auth s \<Longrightarrow> ac_phase s i = Locking \<Longrightarrow>
     accept_run sha256 cert auth (accept_lock i s)"
| verify: "accept_run sha256 cert auth s \<Longrightarrow> ac_phase s i = Handshake \<Longrightarrow>
     accept_run sha256 cert auth (accept_verify sha256 (cert i) i s)"
| assign: "accept_run sha256 cert auth s \<Longrightarrow> ac_phase s i = Accepted \<Longrightarrow>
     accept_run sha256 cert auth (accept_assign i s)"

section \<open>The key of the server\<close>

text \<open>The items of a file, up to its end.\<close>

inductive pem_items :: "(bytes \<Rightarrow> (pem_item option \<times> bytes) option) \<Rightarrow> bytes \<Rightarrow> pem_item list \<Rightarrow> bool" for read_one where
  none: "read_one reader = Some (None, rest) \<Longrightarrow> pem_items read_one reader []"
| item: "read_one reader = Some (Some x, rest) \<Longrightarrow> pem_items read_one rest xs \<Longrightarrow> pem_items read_one reader (x # xs)"

fun first_key :: "pem_item list \<Rightarrow> bytes option" where
  "first_key [] = None"
| "first_key (RSAKey k # xs) = Some k"
| "first_key (PKCS8Key k # xs) = Some k"
| "first_key (ECKey k # xs) = Some k"
| "first_key (x # xs) = first_key xs"

text \<open>Certificates and the like are skipped; a file without a key is a panic.\<close>

lemma read_key_first: "pem_items read_one reader xs \<Longrightarrow> read_key read_one reader = Some (unwrap_opt (first_key xs))"
proof (induction rule: pem_items.induct)
  case (none reader rest)
  then show ?case by (subst read_key.simps) simp
next
  case (item reader x rest xs)
  then show ?case by (subst read_key.simps) (cases x; simp)
qed

text \<open>The loop ends when every item takes something from the file.\<close>

lemma read_key_returns:
  assumes "\<And>r x r'. read_one r = Some (Some x, r') \<Longrightarrow> length r' < length r"
  shows "\<exists>res. read_key read_one reader = Some res"
proof (induction reader rule: length_induct)
  case (1 reader)
  have "\<exists>res. read_key read_one rest = Some res" if "read_one reader = Some (Some x, rest)" for x rest
    using 1 assms [OF that] by blast
  then show ?case
    by (subst read_key.simps) (auto split: option.split prod.split pem_item.split)
qed

lemma server_config_Ok:
  assumes "server_config env pc = Some (Ok sc)"
  shows "server_auth (te_env env) pc = Ok (sc_auth sc) \<and> load_certs (te_env env) (pc_cert pc) = Ok (sc_certs sc) \<and>
    load_private_key env (pc_key pc) = Some (Ok (sc_key sc))"
proof -
  obtain auth where auth: "server_auth (te_env env) pc = Ok auth"
    using assms by (cases "server_auth (te_env env) pc") (auto simp: server_config_def)
  obtain certs where certs: "load_certs (te_env env) (pc_cert pc) = Ok certs"
    using assms auth by (cases "load_certs (te_env env) (pc_cert pc)") (auto simp: server_config_def)
  obtain r where r: "load_private_key env (pc_key pc) = Some r"
    using assms auth certs by (cases "load_private_key env (pc_key pc)") (auto simp: server_config_def)
  with assms auth certs show ?thesis
    by (cases r) (auto simp: server_config_def split: if_splits)
qed

section \<open>Reachable states\<close>

definition presented :: "(bytes \<Rightarrow> bytes) \<Rightarrow> (nat \<Rightarrow> bytes) \<Rightarrow> nat \<Rightarrow> device_id" where
  "presented sha256 cert i = device_id_from_cert sha256 (cert i)"

lemma accept_verify_simp:
  "accept_verify sha256 (cert i) i s = s\<lparr>ac_auth := (ac_auth s)\<lparr>pa_client_device_id := Some (presented sha256 cert i)\<rparr>,
     ac_phase := (ac_phase s)(i := if presented sha256 cert i \<in> set (pa_trusted_peers (ac_auth s)) then Accepted else Ended)\<rparr>"
  by (auto simp: accept_verify_def verify_client_cert_def presented_def Let_def list_ex_iff)

definition accept_inv :: "(bytes \<Rightarrow> bytes) \<Rightarrow> (nat \<Rightarrow> bytes) \<Rightarrow> preshared_auth \<Rightarrow> accept_state \<Rightarrow> bool" where
  "accept_inv sha256 cert auth s \<longleftrightarrow> pa_trusted_peers (ac_auth s) = pa_trusted_peers auth \<and>
     (\<forall>i. (ac_phase s i = Accepted \<or> (\<exists>d. ac_phase s i = Serving d)) \<longrightarrow>
        presented sha256 cert i \<in> set (pa_trusted_peers auth) \<and> pa_client_device_id (ac_auth s) \<noteq> None) \<and>
     (\<forall>d. pa_client_device_id (ac_auth s) = Some d \<longrightarrow> d \<in> range (presented sha256 cert)) \<and>
     (\<forall>i d. ac_phase s i = Serving d \<longrightarrow> d \<in> range (presented sha256 cert))"

lemma accept_run_inv:
  assumes "accept_run sha256 cert auth s" and "pa_client_device_id auth = None"
  shows "accept_inv sha256 cert auth s"
  using assms(1)
proof induction
  case start
  then show ?case using assms(2) by (simp add: accept_inv_def accept_init_def)
next
  case (lock s i)
  then show ?case by (auto simp: accept_inv_def accept_lock_def)
next
  case (verify s i)
  then show ?case by (simp add: accept_inv_def accept_verify_simp split: if_splits)
next
  case (assign s i)
  then obtain d where "pa_client_device_id (ac_auth s) = Some d" by (fastforce simp: accept_inv_def)
  with assign show ?case by (auto simp: accept_inv_def accept_assign_def)
qed

section \<open>Properties\<close>

text \<open>
  In every interleaving of connections, a connection is served only when the certificate
  its peer presented belongs to a trusted peer, and no task fails for lack of an identifier.
\<close>

lemma served_connections_trusted:
  assumes "accept_run sha256 cert auth s" and "pa_client_device_id auth = None"
  shows "(\<forall>i d. ac_phase s i = Serving d \<longrightarrow>
      device_id_from_cert sha256 (cert i) \<in> set (pa_trusted_peers auth)) \<and>
    (\<forall>i. ac_phase s i = Accepted \<longrightarrow> (\<exists>d. ac_phase (accept_assign i s) i = Serving d))"
  using accept_run_inv [OF assms]
  by (auto simp: accept_inv_def presented_def accept_assign_def split: option.splits)

text \<open>
  Claim C40. The mutex does not protect the shared identifier: for any two connections there is an
  interleaving in which the first is served under the identifier of the second, and when the
  second is not trusted, under an identifier that was refused.
\<close>

theorem identifier_of_other_connection:
  assumes "i \<noteq> j" and "device_id_from_cert sha256 (cert i) \<in> set (pa_trusted_peers auth)"
  shows "\<exists>s. accept_run sha256 cert auth s \<and> ac_phase s i = Serving (device_id_from_cert sha256 (cert j)) \<and>
    (device_id_from_cert sha256 (cert j) \<notin> set (pa_trusted_peers auth) \<longrightarrow> ac_phase s j = Ended)"
proof -
  let ?l = "accept_lock j (accept_lock i (accept_init auth))"
  let ?v = "accept_verify sha256 (cert j) j (accept_verify sha256 (cert i) i ?l)"
  have "accept_run sha256 cert auth ?l"
    using assms(1) by (intro accept_run.intros) (simp_all add: accept_init_def accept_lock_def)
  then have "accept_run sha256 cert auth ?v"
    using assms(1) by (intro accept_run.intros) (simp_all add: accept_verify_simp accept_lock_def accept_init_def)
  moreover have "ac_phase ?v i = Accepted"
    using assms by (simp add: accept_verify_simp accept_lock_def accept_init_def presented_def)
  ultimately have "accept_run sha256 cert auth (accept_assign i ?v)" by (rule accept_run.assign)
  moreover have "ac_phase (accept_assign i ?v) i = Serving (device_id_from_cert sha256 (cert j))"
    "device_id_from_cert sha256 (cert j) \<notin> set (pa_trusted_peers auth) \<longrightarrow> ac_phase (accept_assign i ?v) j = Ended"
    using assms(1) by (simp_all add: accept_assign_def accept_verify_simp presented_def accept_lock_def accept_init_def)
  ultimately show ?thesis by blast
qed

text \<open>Two peers, of which the first is trusted; digests are the certificates here.\<close>

definition sample_auth :: preshared_auth where
  "sample_auth = \<lparr>pa_trusted_peers = [\<lparr>dev_bytes = [1]\<rparr>], pa_client_device_id = None\<rparr>"

theorem identifier_of_other_connection_witness:
  "\<exists>s. accept_run (\<lambda>c. c) (\<lambda>i. [if i = 0 then 1 else 2]) sample_auth s \<and>
     ac_phase s 0 = Serving \<lparr>dev_bytes = [2]\<rparr> \<and> ac_phase s 1 = Ended"
  using identifier_of_other_connection [of 0 1 "\<lambda>c. c" "\<lambda>i. [if i = 0 then 1 else 2]" sample_auth]
  by (auto simp: sample_auth_def device_id_from_cert_def)

lemma served_connections_trusted_witness:
  "\<exists>s. accept_run (\<lambda>c. c) (\<lambda>_. [1]) sample_auth s \<and> ac_phase s 0 = Accepted \<and>
     (\<exists>d. ac_phase (accept_assign 0 s) 0 = Serving d)"
proof -
  let ?s = "accept_verify (\<lambda>c. c) [1] 0 (accept_lock 0 (accept_init sample_auth))"
  have run: "accept_run (\<lambda>c. c) (\<lambda>_. [1]) sample_auth ?s"
    by (intro accept_run.intros) (simp_all add: accept_lock_def accept_init_def)
  moreover have "ac_phase ?s 0 = Accepted"
    by (simp add: accept_verify_def verify_client_cert_def Let_def sample_auth_def accept_lock_def accept_init_def
        device_id_from_cert_def)
  ultimately show ?thesis
    using served_connections_trusted [OF run] by (auto simp: sample_auth_def)
qed

end
