(* ===== verification/Start_Up.thy ===== *)
theory Start_Up
  imports Connectivity Bep_Processor Fuse
begin

text \<open>
  The start of the program (\<^verbatim>\<open>main\<close> and \<^verbatim>\<open>parse_config\<close> of \<^verbatim>\<open>src/src/main.rs\<close>), up to the loop that accepts
  connections: the configuration is read, TLS is set up, the address bound, the database opened, the state and the
  processor are made, and a thread for the file system is started when a mount point is configured.

  What the libraries do is gathered in \<open>main_env\<close>: reading a file, the parser of the text format of protocol
  buffers, the parser of addresses, the listening socket, the database (with the number of connections of the
  pool), \<^verbatim>\<open>rclone\<close>, and the disk and the clock at the start.
\<close>

section \<open>Definitions\<close>

record main_env =
  mn_tls :: tls_env
  mn_read_to_string :: "string \<Rightarrow> string option"
  mn_parse_text_format :: "string \<Rightarrow> proto_config option"
  mn_parse_address :: "string \<Rightarrow> string option"
  mn_bind :: "string \<Rightarrow> bool"
  mn_connect :: "nat \<Rightarrow> string \<Rightarrow> db option"
  mn_rclone :: rclone
  mn_disk :: file_system
  mn_now :: nat

definition parse_config :: "main_env \<Rightarrow> string \<Rightarrow> (proto_config, unit) result" where
  "parse_config env config_path =
     and_then (unwrap_opt (mn_read_to_string env config_path)) (\<lambda>config_txt.
     unwrap_opt (mn_parse_text_format env config_txt))"

text \<open>
  What is there when the first connection is awaited.  The thread of the file system may have panicked; the
  others go on then.
\<close>

record started =
  sd_tls :: tls_config
  sd_config :: grizol_config
  sd_address :: string
  sd_processor :: bep_processor
  sd_fuse :: "(grizol_fs, unit) result option"

text \<open>A failure to bind is the only error \<open>main\<close> returns (\<open>Err\<close>); all others panic.\<close>

definition start_listening :: "main_env \<Rightarrow> tls_config \<Rightarrow> grizol_config \<Rightarrow> (started, unit) result" where
  "start_listening env tls config =
     and_then (unwrap_opt (mn_parse_address env (gc_net_address config))) (\<lambda>addr.
     if \<not> mn_bind env addr then Err ()
     else
       and_then (unwrap_opt (mn_connect env 20 (gc_db_url config))) (\<lambda>db_pool_read.
       and_then (unwrap_opt (mn_connect env 1 (gc_db_url config))) (\<lambda>db_pool_write.
       let st = bep_state_new db_pool_write in
       and_then (bep_processor_new (mn_rclone env) (mn_disk env) config st) (\<lambda>bep_processor.
       Ok \<lparr>sd_tls = tls, sd_config = config, sd_address = addr, sd_processor = bep_processor,
           sd_fuse = map_option (\<lambda>m. grizol_fs_new (mn_now env) (mn_rclone env) config st (mn_disk env))
             (gc_mountpoint config)\<rparr>))))"

definition main_start :: "main_env \<Rightarrow> string \<Rightarrow> (started, unit) result option" where
  "main_start env config_path =
     opt_then (parse_config env config_path) (\<lambda>pc.
     Option.bind (server_config (mn_tls env) pc) (\<lambda>tls.
     opt_then tls (\<lambda>tls.
     opt_then (grizol_config_from (te_env (mn_tls env)) pc) (\<lambda>config.
     Some (start_listening env tls config)))))"

section \<open>A program that has started\<close>

lemma start_listening_Ok:
  assumes "start_listening env tls config = Ok st"
  shows "sd_tls st = tls \<and> sd_config st = config \<and> mn_bind env (sd_address st) \<and>
    (\<exists>d. mn_connect env 1 (gc_db_url config) = Some d \<and>
      bep_processor_new (mn_rclone env) (mn_disk env) config (bep_state_new d) = Ok (sd_processor st)) \<and>
    (sd_fuse st = None \<longleftrightarrow> gc_mountpoint config = None)"
  using assms by (auto simp: start_listening_def Let_def split: if_splits)

lemma bep_processor_new_Ok:
  assumes "bep_processor_new rclone fs config st = Ok p"
  shows "pr_config p = config \<and> pr_state p = st"
  using assms by (auto simp: bep_processor_new_def)

text \<open>The identifiers the verifier accepts are those of the configuration, and nobody has connected yet.\<close>

lemma main_start_Ok:
  assumes "main_start env path = Some (Ok st)"
  obtains pc d where "parse_config env path = Ok pc" "grizol_config_from (te_env (mn_tls env)) pc = Ok (sd_config st)"
    "parse_peers (te_env (mn_tls env)) (pc_trusted_peers pc) = Ok (pa_trusted_peers (sc_auth (sd_tls st)))"
    "pa_client_device_id (sc_auth (sd_tls st)) = None"
    "mn_connect env 1 (gc_db_url (sd_config st)) = Some d"
    "pr_config (sd_processor st) = sd_config st" "pr_state (sd_processor st) = bep_state_new d"
proof -
  let ?e = "te_env (mn_tls env)"
  obtain pc where pc: "parse_config env path = Ok pc"
    using assms by (cases "parse_config env path") (auto simp: main_start_def)
  obtain r where r: "server_config (mn_tls env) pc = Some r"
    using assms pc by (cases "server_config (mn_tls env) pc") (auto simp: main_start_def)
  obtain tls where tls: "r = Ok tls"
    using assms pc r by (cases r) (auto simp: main_start_def)
  obtain config where config: "grizol_config_from ?e pc = Ok config"
    using assms pc r tls by (cases "grizol_config_from ?e pc") (auto simp: main_start_def)
  have st: "start_listening env tls config = Ok st"
    using assms pc r tls config by (simp add: main_start_def)
  obtain d where d: "mn_connect env 1 (gc_db_url config) = Some d"
    "bep_processor_new (mn_rclone env) (mn_disk env) config (bep_state_new d) = Ok (sd_processor st)"
    and eq: "sd_tls st = tls" "sd_config st = config"
    using start_listening_Ok [OF st] by blast
  have "server_auth ?e pc = Ok (sc_auth tls)"
    using server_config_Ok [of "mn_tls env" pc tls] r tls by simp
  then have "parse_peers ?e (pc_trusted_peers pc) = Ok (pa_trusted_peers (sc_auth tls))"
    "pa_client_device_id (sc_auth tls) = None"
    by (auto simp: server_auth_def)
  with that [of pc d] pc config d eq bep_processor_new_Ok [OF d(2)] show ?thesis by simp
qed

end
