(* ===== verification/Server.thy ===== *)
theory Server
  imports Connection_Tasks Start_Up
begin

text \<open>
  The running server: the loop of \<^verbatim>\<open>main\<close> accepts connections, each has its tasks (\<^verbatim>\<open>handle_incoming_data\<close> of
  \<^verbatim>\<open>src/src/main.rs\<close>), and all of them and the file system (\<^verbatim>\<open>src/src/fuse.rs\<close>) share the state.  The steps of all
  tasks run in any order; what the peers send, the answers of the system and the arguments of the file system are
  arbitrary.
\<close>

section \<open>The server as a transition system\<close>

record server =
  sv_accept :: accept_state
  sv_processor :: bep_processor
  sv_conn :: "nat \<Rightarrow> connection"

definition server_start :: "started \<Rightarrow> server" where
  "server_start st = \<lparr>sv_accept = accept_init (sc_auth (sd_tls st)), sv_processor = sd_processor st,
     sv_conn = \<lambda>_. connection_new\<rparr>"

definition set_conn :: "nat \<Rightarrow> connection \<Rightarrow> server \<Rightarrow> server" where
  "set_conn i c s = s\<lparr>sv_conn := (sv_conn s)(i := c)\<rparr>"

text \<open>
  \<open>cert i\<close> is the certificate the peer of connection \<open>i\<close> presents.  A connection has its tasks once it is served.
  An error of the socket, or of \<^verbatim>\<open>accept\<close>, only ends tasks: that the others go on is a run of its own.
\<close>

inductive server_step :: "codec \<Rightarrow> (bytes \<Rightarrow> bytes) \<Rightarrow> (nat \<Rightarrow> bytes) \<Rightarrow> started \<Rightarrow> server \<Rightarrow> server \<Rightarrow> bool"
  for cdc sha256 cert st where
  lock: "ac_phase (sv_accept s) i = Locking \<Longrightarrow>
    server_step cdc sha256 cert st s (s\<lparr>sv_accept := accept_lock i (sv_accept s)\<rparr>)"
| verify: "ac_phase (sv_accept s) i = Handshake \<Longrightarrow>
    server_step cdc sha256 cert st s (s\<lparr>sv_accept := accept_verify sha256 (cert i) i (sv_accept s)\<rparr>)"
| assign: "ac_phase (sv_accept s) i = Accepted \<Longrightarrow>
    server_step cdc sha256 cert st s (s\<lparr>sv_accept := accept_assign i (sv_accept s)\<rparr>)"
| reading: "ac_phase (sv_accept s) i = Serving cdid \<Longrightarrow> length buf \<le> read_size \<Longrightarrow>
    server_step cdc sha256 cert st s (set_conn i (conn_read cdc buf (sv_conn s i)) s)"
| handling: "ac_phase (sv_accept s) i = Serving cdid \<Longrightarrow> conn_handle wd cdid k (sv_processor s) (sv_conn s i) = (p, c) \<Longrightarrow>
    server_step cdc sha256 cert st s (set_conn i c (s\<lparr>sv_processor := p\<rparr>))"
| sending: "ac_phase (sv_accept s) i = Serving cdid \<Longrightarrow>
    server_step cdc sha256 cert st s (set_conn i (conn_send k (sv_conn s i)) s)"
| pinging: "ac_phase (sv_accept s) i = Serving cdid \<Longrightarrow>
    server_step cdc sha256 cert st s (set_conn i (conn_ping (sv_conn s i)) s)"
| writing: "ac_phase (sv_accept s) i = Serving cdid \<Longrightarrow> conn_write cdc (sv_processor s) (sv_conn s i) = (p, c) \<Longrightarrow>
    server_step cdc sha256 cert st s (set_conn i c (s\<lparr>sv_processor := p\<rparr>))"
| failing: "ac_phase (sv_accept s) i = Serving cdid \<Longrightarrow>
    server_step cdc sha256 cert st s (set_conn i (conn_fail (sv_conn s i)) s)"
| file_system: "sd_fuse st = Some (Ok fs) \<Longrightarrow> fs_call (pr_state (sv_processor s)) bs \<Longrightarrow>
    server_step cdc sha256 cert st s (s\<lparr>sv_processor := (sv_processor s)\<lparr>pr_state := bs\<rparr>\<rparr>)"

definition server_run :: "codec \<Rightarrow> (bytes \<Rightarrow> bytes) \<Rightarrow> (nat \<Rightarrow> bytes) \<Rightarrow> started \<Rightarrow> server \<Rightarrow> bool" where
  "server_run cdc sha256 cert st = (server_step cdc sha256 cert st)\<^sup>*\<^sup>* (server_start st)"

section \<open>Invariants\<close>

text \<open>The accepting of connections is not disturbed by the rest, and nothing is done for a peer that is not served.\<close>

definition served_only :: "(bytes \<Rightarrow> bytes) \<Rightarrow> (nat \<Rightarrow> bytes) \<Rightarrow> started \<Rightarrow> server \<Rightarrow> bool" where
  "served_only sha256 cert st s \<longleftrightarrow> accept_run sha256 cert (sc_auth (sd_tls st)) (sv_accept s) \<and>
     (\<forall>i. (\<forall>d. ac_phase (sv_accept s) i \<noteq> Serving d) \<longrightarrow> sv_conn s i = connection_new)"

lemma served_only_accept:
  assumes "served_only sha256 cert st s" and "accept_run sha256 cert (sc_auth (sd_tls st)) a"
    and "\<And>i d. ac_phase (sv_accept s) i = Serving d \<Longrightarrow> ac_phase a i = Serving d"
  shows "served_only sha256 cert st (s\<lparr>sv_accept := a\<rparr>)"
  using assms by (simp add: served_only_def) blast

lemma server_step_served:
  assumes "server_step cdc sha256 cert st s s'" and "served_only sha256 cert st s"
  shows "served_only sha256 cert st s'"
proof -
  have acc: "accept_run sha256 cert (sc_auth (sd_tls st)) (sv_accept s)" using assms(2) by (simp add: served_only_def)
  from assms(1) show ?thesis
  proof cases
    case (lock i)
    then show ?thesis unfolding lock(1)
      by (intro served_only_accept [OF assms(2)] accept_run.lock acc) (auto simp: accept_lock_def)
  next
    case (verify i)
    then show ?thesis unfolding verify(1)
      by (intro served_only_accept [OF assms(2)] accept_run.verify acc) (auto simp: accept_verify_simp)
  next
    case (assign i)
    then show ?thesis unfolding assign(1)
      by (intro served_only_accept [OF assms(2)] accept_run.assign acc) (auto simp: accept_assign_def split: option.split)
  qed (use assms(2) in \<open>simp_all add: served_only_def set_conn_def\<close>)
qed

lemma served_only_start: "served_only sha256 cert st (server_start st)"
  by (simp add: served_only_def server_start_def accept_run.start)

lemma server_run_served: "server_run cdc sha256 cert st s \<Longrightarrow> served_only sha256 cert st s"
  unfolding server_run_def
  by (induction rule: rtranclp_induct)
     (auto intro: server_step_served served_only_start)

text \<open>The shared state and every connection keep their invariants.\<close>

definition server_inv :: "codec \<Rightarrow> started \<Rightarrow> server \<Rightarrow> bool" where
  "server_inv cdc st s \<longleftrightarrow> processor_ok (sd_config st) (sv_processor s) \<and> (\<forall>i. conn_ok cdc (sd_config st) (sv_conn s i))"

lemma server_inv_conn:
  "server_inv cdc st s \<Longrightarrow> processor_ok (sd_config st) p \<and> conn_ok cdc (sd_config st) c \<Longrightarrow>
   server_inv cdc st (set_conn i c (s\<lparr>sv_processor := p\<rparr>))"
  by (simp add: server_inv_def set_conn_def)

lemma server_inv_conn_only:
  "server_inv cdc st s \<Longrightarrow> conn_ok cdc (sd_config st) c \<Longrightarrow> server_inv cdc st (set_conn i c s)"
  by (simp add: server_inv_def set_conn_def)

lemma fs_call_ok: "fs_call (pr_state p) bs \<Longrightarrow> processor_ok config p \<Longrightarrow> processor_ok config (p\<lparr>pr_state := bs\<rparr>)"
  using limits.fs_call [of "pr_state p" bs config] integrity.fs_call [of "pr_state p" bs] by (simp add: processor_ok_iff)

lemma server_step_inv:
  assumes "server_step cdc sha256 cert st s s'" and "server_inv cdc st s"
  shows "server_inv cdc st s'"
proof -
  have conn: "conn_ok cdc (sd_config st) (sv_conn s i)" for i using assms(2) by (simp add: server_inv_def)
  have proc: "processor_ok (sd_config st) (sv_processor s)" using assms(2) by (simp add: server_inv_def)
  from assms(1) show ?thesis
  proof cases
    case (handling i cdid wd k p c)
    then show ?thesis using server_inv_conn [OF assms(2) conn_handle_ok [OF proc conn handling(3)]] by simp
  next
    case (writing i cdid p c)
    then show ?thesis using server_inv_conn [OF assms(2) conn_write_ok [OF proc conn writing(3)]] by simp
  next
    case (file_system fs bs)
    then show ?thesis using fs_call_ok [OF _ proc] assms(2) by (simp add: server_inv_def)
  next
    case (reading i cdid buf)
    then show ?thesis using server_inv_conn_only [OF assms(2) conn_read_ok [OF conn]] by simp
  next
    case (sending i cdid k)
    then show ?thesis using server_inv_conn_only [OF assms(2) conn_send_ok [OF conn]] by simp
  next
    case (pinging i cdid)
    then show ?thesis using server_inv_conn_only [OF assms(2) conn_ping_ok [OF conn]] by simp
  next
    case (failing i cdid)
    then show ?thesis using server_inv_conn_only [OF assms(2) conn_fail_ok [OF conn]] by simp
  qed (use assms(2) in \<open>simp_all add: server_inv_def\<close>)
qed

text \<open>A server that was started on sound tables.\<close>

definition sound_start :: "main_env \<Rightarrow> string \<Rightarrow> started \<Rightarrow> bool" where
  "sound_start env path st \<longleftrightarrow> main_start env path = Some (Ok st) \<and> tables_wf (bs_db (pr_state (sd_processor st)))"

lemma server_start_inv:
  assumes "sound_start env path st"
  shows "server_inv cdc st (server_start st)"
proof -
  obtain d where d: "pr_config (sd_processor st) = sd_config st" "pr_state (sd_processor st) = bep_state_new d"
    using assms main_start_Ok unfolding sound_start_def by metis
  have "tables_wf d" using assms d(2) by (simp add: sound_start_def bep_state_new_def)
  then have "processor_ok (sd_config st) (sd_processor st)"
    using d by (simp add: processor_ok_iff state_within_new state_ok_new)
  then show ?thesis
    by (simp add: server_inv_def server_start_def connection_new_ok)
qed

lemma server_run_inv:
  assumes "server_run cdc sha256 cert st s" and "sound_start env path st"
  shows "server_inv cdc st s"
  using assms(1) unfolding server_run_def
  by (induction rule: rtranclp_induct) (auto intro: server_start_inv [OF assms(2)] server_step_inv)

section \<open>Properties\<close>


text \<open>
  Claim C4. From the start of the server, in every interleaving, the tables stay intact: the keys of files, folders,
  devices, indices and the cache are unique, as are the sequence numbers of files; every file belongs to an index, every
  index to a folder and a device, and every block, version, location and cache entry to a file; and the next
  sequence number that is drawn is above all in the tables, so it never clashes.
\<close>

theorem server_tables_intact:
  assumes "sound_start env path st" and "server_run cdc sha256 cert st s"
  shows "let d = bs_db (pr_state (sv_processor s)) in
    distinct (map fr_key (db_files d)) \<and> distinct (map (\<lambda>r. fi_sequence (fr_info r)) (db_files d)) \<and>
    distinct (map (\<lambda>r. fol_id (fo_info r)) (db_folders d)) \<and> distinct (map dr_id (db_devices d)) \<and>
    distinct (db_index d) \<and> distinct (map cr_key (db_cache d)) \<and>
    (\<forall>r \<in> set (db_files d). (fst (fr_key r), fst (snd (fr_key r))) \<in> set (db_index d)) \<and>
    (\<forall>k \<in> set (db_index d). snd k \<in> dr_id ` set (db_devices d) \<and> fst k \<in> (\<lambda>r. fol_id (fo_info r)) ` set (db_folders d)) \<and>
    br_key ` set (db_blocks d) \<union> vr_key ` set (db_versions d) \<union> lr_key ` set (db_locations d) \<union>
      cr_key ` set (db_cache d) \<subseteq> fr_key ` set (db_files d) \<and>
    (\<forall>st' n. next_sequence_id (pr_state (sv_processor s)) = Ok (st', n) \<longrightarrow> (\<forall>r \<in> set (db_files d). fi_sequence (fr_info r) < n))"
proof -
  have ok: "state_ok (pr_state (sv_processor s))"
    using server_run_inv [OF assms(2,1)] by (simp add: server_inv_def processor_ok_iff)
  have "fi_sequence (fr_info r) < n"
    if "next_sequence_id (pr_state (sv_processor s)) = Ok (st', n)" "r \<in> set (db_files (bs_db (pr_state (sv_processor s))))"
    for st' n r
    using next_sequence_above [OF ok that(1)] that(2) by (simp add: sequences_def)
  with ok show ?thesis
    by (simp add: Let_def state_ok_def tables_wf_def db_wf_def config_wf_def file_keys_def)
qed

text \<open>
  Claim C5. Nothing that a peer sends is read before its certificate was accepted: every connection that is
  served, or for which anything was done, has shown a certificate whose identifier is written in the
  configuration file among the trusted peers.
\<close>

theorem server_serves_configured_peers:
  assumes "main_start env path = Some (Ok st)"
    and "server_run cdc (env_sha256 (te_env (mn_tls env))) cert st s"
    and "ac_phase (sv_accept s) i = Serving d \<or> sv_conn s i \<noteq> connection_new"
  shows "\<exists>pc x. parse_config env path = Ok pc \<and> x \<in> set (pc_trusted_peers pc) \<and>
    device_id_try_from_str (env_base32_decode (te_env (mn_tls env))) x =
      Ok (device_id_from_cert (env_sha256 (te_env (mn_tls env))) (cert i))"
proof -
  let ?e = "te_env (mn_tls env)" and ?auth = "sc_auth (sd_tls st)"
  obtain pc where pc: "parse_config env path = Ok pc" "parse_peers ?e (pc_trusted_peers pc) = Ok (pa_trusted_peers ?auth)"
    "pa_client_device_id ?auth = None"
    using assms(1) by (rule main_start_Ok)
  have served: "accept_run (env_sha256 ?e) cert ?auth (sv_accept s)" "\<exists>d. ac_phase (sv_accept s) i = Serving d"
    using server_run_served [OF assms(2)] assms(3) by (auto simp: served_only_def)
  then have "device_id_from_cert (env_sha256 ?e) (cert i) \<in> set (pa_trusted_peers ?auth)"
    using accept_run_inv [OF served(1) pc(3)] by (auto simp: accept_inv_def presented_def)
  with pc(1,2) show ?thesis
    unfolding parse_peers_Ok list_all2_conv_all_nth in_set_conv_nth by metis
qed
section \<open>A sample server\<close>

text \<open>
  One trusted peer; the file system is mounted; the tables hold one file.  Connection 0 is served and sends a
  ping; the file system draws a sequence number.
\<close>

definition server_db :: db where
  "server_db = (sample_db 5 [sample_block 0])\<lparr>
     db_folders := [\<lparr>fo_rowid = 1, fo_info = (sample_folder ''f'')\<lparr>fol_devices := []\<rparr>\<rparr>],
     db_devices := [\<lparr>dr_folder = ''f'', dr_id = sample_device, dr_addresses = [], dr_info = sample_cluster_device\<rparr>]\<rparr>"

definition trusted_peer :: string where
  "trusted_peer = ''AAAAAAA-AAAAAAA-AAAAAAA-AAAAAAA-AAAAAAA-AAAAAAA-AAAAAAA-AAAAAAA''"

definition trusted_device :: device_id where
  "trusted_device = \<lparr>dev_bytes = replicate 32 0\<rparr>"

definition server_proto_config :: proto_config where
  "server_proto_config = sample_proto_config\<lparr>pc_trusted_peers := [trusted_peer], pc_mountpoint := ''/m''\<rparr>"

definition server_env :: main_env where
  "server_env = \<lparr>mn_tls = \<lparr>te_env = sample_env\<lparr>env_sha256 := \<lambda>_. replicate 32 0\<rparr>,
       te_open = \<lambda>p. if p = ''key.pem'' then Some [1] else None,
       te_read_one = \<lambda>r. case r of [] \<Rightarrow> Some (None, []) | b # bs \<Rightarrow> Some (Some (PKCS8Key [b]), bs),
       te_versions = True, te_single_cert = \<lambda>_ _. True\<rparr>,
     mn_read_to_string = \<lambda>p. Some p, mn_parse_text_format = \<lambda>_. Some server_proto_config,
     mn_parse_address = \<lambda>a. Some a, mn_bind = \<lambda>_. True, mn_connect = \<lambda>_ _. Some server_db,
     mn_rclone = \<lambda>_. Exited 0 [], mn_disk = Map.empty, mn_now = 20000\<rparr>"

lemma trusted_peer_parsed: "device_id_try_from_str rfc4648_decode trusted_peer = Ok trusted_device"
  by code_simp

lemma server_starts:
  "\<exists>st fs. main_start server_env ''c'' = Some (Ok st) \<and> sd_fuse st = Some (Ok fs) \<and>
     pr_state (sd_processor st) = bep_state_new server_db \<and>
     sc_auth (sd_tls st) = \<lparr>pa_trusted_peers = [trusted_device], pa_client_device_id = None\<rparr> \<and>
     gc_max_pending_requests (sd_config st) = 10000"
proof -
  have key: "load_private_key (mn_tls server_env) ''key.pem'' = Some (Ok [1])"
    by (simp add: load_private_key_def server_env_def) (subst read_key.simps, simp)
  have rclone: "mn_rclone server_env = (\<lambda>_. Exited 0 [])" by (simp add: server_env_def)
  have sm: "storage_manager_new (\<lambda>_. Exited 0 []) config = Ok \<lparr>sm_config = config, sm_storage_backends = [], sm_file_writers = []\<rparr>" for config
    by (simp add: storage_manager_new_def storage_backends_from_conf_def section_name_def split_lines.simps valid_utf8.simps)
  have fs: "\<exists>fs. grizol_fs_new 20000 (\<lambda>_. Exited 0 []) config st disk = Ok fs" for config st disk
    by (simp add: grizol_fs_new_def sm checked_sub_def)
  obtain tls where tls: "server_config (mn_tls server_env) server_proto_config = Some (Ok tls)"
    "sc_auth tls = \<lparr>pa_trusted_peers = [trusted_device], pa_client_device_id = None\<rparr>"
    using key trusted_peer_parsed
    by (simp add: server_config_def server_auth_def load_certs_def) (simp add: server_env_def server_proto_config_def
        sample_env_def sample_proto_config_def)
  obtain config where config: "grizol_config_from (te_env (mn_tls server_env)) server_proto_config = Ok config"
    "gc_max_pending_requests config = 10000" "gc_mountpoint config = Some ''/m''"
    using trusted_peer_parsed
    by (simp add: grizol_config_from_def size_or_default_def device_id_from_path_def server_env_def
        server_proto_config_def sample_env_def sample_proto_config_def non_empty_def)
  have pc: "parse_config server_env ''c'' = Ok server_proto_config" by (simp add: parse_config_def server_env_def)
  obtain fs where "grizol_fs_new 20000 (\<lambda>_. Exited 0 []) config (bep_state_new server_db) Map.empty = Ok fs" using fs by blast
  then have "\<exists>st. start_listening server_env tls config = Ok st \<and> sd_fuse st = Some (Ok fs) \<and> sd_tls st = tls \<and>
      sd_config st = config \<and> pr_state (sd_processor st) = bep_state_new server_db"
    using config(3) by (simp add: start_listening_def bep_processor_new_def server_env_def sm Let_def)
  with tls config(1,2) pc show ?thesis unfolding main_start_def by fastforce
qed
lemma server_db_wf: "tables_wf server_db"
  by (simp add: tables_wf_def db_wf_def config_wf_def server_db_def sample_db_def sample_row_def sample_block_def
      sample_file_def columns_of_def db_empty_def file_keys_def sample_folder_def sample_cluster_device_def)

lemma server_runs:
  assumes "sc_auth (sd_tls st) = \<lparr>pa_trusted_peers = [trusted_device], pa_client_device_id = None\<rparr>"
    and "sd_fuse st = Some (Ok fs)" and "pr_state (sd_processor st) = bep_state_new server_db"
  shows "\<exists>s. server_run ref_codec (\<lambda>_. replicate 32 0) (\<lambda>_. [1]) st s \<and>
    ac_phase (sv_accept s) 0 = Serving trusted_device \<and> cn_sent (sv_conn s 0) = [(Message Ping, [])] \<and>
    pr_state (sv_processor s) = draw_sequences 1 (bep_state_new server_db)"
proof -
  let ?sha = "\<lambda>_. replicate 32 0" and ?init = "server_start st"
  let ?step = "server_step ref_codec ?sha (\<lambda>_. [1]) st"
  let ?locked = "accept_lock 0 (accept_init (sc_auth (sd_tls st)))"
  let ?verified = "accept_verify ?sha [1] 0 ?locked"
  let ?assigned = "accept_assign 0 ?verified"
  have phases: "ac_phase ?locked 0 = Handshake" "ac_phase ?verified 0 = Accepted" "ac_phase ?assigned 0 = Serving trusted_device"
    using assms(1)
    by (simp_all add: accept_init_def accept_lock_def accept_verify_def verify_client_cert_def accept_assign_def
        device_id_from_cert_def trusted_device_def Let_def)
  let ?serving = "?init\<lparr>sv_accept := ?assigned\<rparr>"
  let ?c = "snd (conn_write ref_codec (sd_processor st) (conn_ping connection_new))"
  let ?pinged = "set_conn 0 (conn_ping connection_new) ?serving"
  let ?sent = "set_conn 0 ?c (?pinged\<lparr>sv_processor := sd_processor st\<rparr>)"
  let ?p = "(sd_processor st)\<lparr>pr_state := draw_sequences 1 (bep_state_new server_db)\<rparr>"
  have written: "conn_write ref_codec (sd_processor st) (conn_ping connection_new) = (sd_processor st, ?c)"
    "cn_sent ?c = [(Message Ping, [])]"
    by (simp_all add: conn_write_def conn_ping_def connection_new_def channel_size_def event_requests_def
        event_data_def event_parts_def message_parts_def serialize_message_def ref_codec_def ref_encoders wire_header_def
        varint_encode.simps ref_header_encode_def Let_def)
  have step: "?step ?init (?init\<lparr>sv_accept := ?locked\<rparr>)"
    using server_step.lock [of ?init 0] by (simp add: server_start_def accept_init_def)
  moreover have "?step (?init\<lparr>sv_accept := ?locked\<rparr>) (?init\<lparr>sv_accept := ?verified\<rparr>)"
    using server_step.verify [of "?init\<lparr>sv_accept := ?locked\<rparr>" 0 ref_codec ?sha "\<lambda>_. [1]"] phases(1) by simp
  moreover have "?step (?init\<lparr>sv_accept := ?verified\<rparr>) ?serving"
    using server_step.assign [of "?init\<lparr>sv_accept := ?verified\<rparr>" 0] phases(2) by simp
  moreover have "?step ?serving ?pinged"
    using server_step.pinging [of ?serving 0] phases(3) by (simp add: server_start_def)
  moreover have "?step ?pinged ?sent"
    using server_step.writing [of ?pinged 0 _ ref_codec "sd_processor st" ?c] phases(3) written(1)
    by (simp add: server_start_def set_conn_def)
  moreover have "?step ?sent (?sent\<lparr>sv_processor := ?p\<rparr>)"
    using server_step.file_system [OF assms(2), of ?sent "draw_sequences 1 (bep_state_new server_db)"] assms(3)
      fs_call.numbers [of "bep_state_new server_db" 1]
    by (simp add: set_conn_def)
  ultimately have "server_run ref_codec ?sha (\<lambda>_. [1]) st (?sent\<lparr>sv_processor := ?p\<rparr>)"
    unfolding server_run_def by (meson rtranclp.rtrancl_into_rtrancl rtranclp.rtrancl_refl)
  then show ?thesis
    using phases(3) written(2)
    by (intro exI [of _ "?sent\<lparr>sv_processor := ?p\<rparr>"]) (simp add: set_conn_def server_start_def)
qed

lemma server_witness:
  "\<exists>st s. main_start server_env ''c'' = Some (Ok st) \<and> sound_start server_env ''c'' st \<and>
     server_run ref_codec (\<lambda>_. replicate 32 0) (\<lambda>_. [1]) st s \<and> gc_max_pending_requests (sd_config st) = 10000 \<and>
     ac_phase (sv_accept s) 0 = Serving trusted_device \<and> cn_sent (sv_conn s 0) = [(Message Ping, [])] \<and>
     pr_state (sv_processor s) = draw_sequences 1 (bep_state_new server_db)"
proof -
  obtain st fs where st: "main_start server_env ''c'' = Some (Ok st)" "sd_fuse st = Some (Ok fs)"
    "pr_state (sd_processor st) = bep_state_new server_db" "gc_max_pending_requests (sd_config st) = 10000"
    "sc_auth (sd_tls st) = \<lparr>pa_trusted_peers = [trusted_device], pa_client_device_id = None\<rparr>"
    using server_starts by blast
  then have "sound_start server_env ''c'' st" using server_db_wf by (simp add: sound_start_def bep_state_new_def)
  with st(1,4) server_runs [OF st(5,2,3)] show ?thesis by blast
qed


theorem server_tables_intact_witness:
  "\<exists>st s. server_run ref_codec (\<lambda>_. replicate 32 0) (\<lambda>_. [1]) st s \<and>
     db_files (bs_db (pr_state (sv_processor s))) = [sample_row 5] \<and>
     (\<forall>st' n. next_sequence_id (pr_state (sv_processor s)) = Ok (st', n) \<longrightarrow> fi_sequence (fr_info (sample_row 5)) < n)"
proof -
  obtain st s where st: "sound_start server_env ''c'' st" "server_run ref_codec (\<lambda>_. replicate 32 0) (\<lambda>_. [1]) st s"
    "pr_state (sv_processor s) = draw_sequences 1 (bep_state_new server_db)"
    using server_witness by blast
  then have "db_files (bs_db (pr_state (sv_processor s))) = [sample_row 5]"
    by (simp add: bep_state_new_def next_sequence_id_def server_db_def sample_db_def max_sequence_def sample_row_def
        sample_file_def columns_of_def)
  then show ?thesis using server_tables_intact [OF st(1,2)] st(2) unfolding Let_def by (metis list.set_intros(1))
qed

theorem server_serves_configured_peers_witness:
  "\<exists>x \<in> {trusted_peer}. device_id_try_from_str rfc4648_decode x = Ok (device_id_from_cert (\<lambda>_. replicate 32 0) [1])"
proof -
  obtain st s where st: "main_start server_env ''c'' = Some (Ok st)"
    "server_run ref_codec (\<lambda>_. replicate 32 0) (\<lambda>_. [1]) st s" "ac_phase (sv_accept s) 0 = Serving trusted_device"
    using server_witness by blast
  have env: "env_sha256 (te_env (mn_tls server_env)) = (\<lambda>_. replicate 32 0)"
    "env_base32_decode (te_env (mn_tls server_env)) = rfc4648_decode"
    "parse_config server_env ''c'' = Ok server_proto_config" "pc_trusted_peers server_proto_config = [trusted_peer]"
    by (simp_all add: server_env_def sample_env_def parse_config_def server_proto_config_def)
  show ?thesis
    using server_serves_configured_peers [OF st(1), of ref_codec "\<lambda>_. [1]" s 0 trusted_device] st(2,3)
    by (simp add: env)
qed

end
