(* ===== verification/File_Transfer.thy ===== *)
theory File_Transfer
  imports Index_Exchange
begin

text \<open>
  Receiving a whole file: the composition of the queue of requests, the tables, the chunked writer,
  the storage manager and the handler of responses (\<^verbatim>\<open>src/src/core/bep_processor.rs\<close>).

  This theory has the steps: each section of the task of a response, what it needs and what it does to the tables
  (\<open>tr_known\<close>, \<open>tr_blocks\<close>), the queue (\<open>tr_requested\<close>) and the disk (\<open>tr_written\<close>).  Theory \<open>Transfer_Tasks\<close> has all
  interleavings of the tasks.
\<close>

section \<open>A transfer\<close>

record transfer =
  tr_folder :: string
  tr_name :: string
  tr_data :: bytes
  tr_block :: nat
  tr_ids :: "nat \<Rightarrow> int"

definition tr_count :: "transfer \<Rightarrow> nat" where
  "tr_count t = (length (tr_data t) + tr_block t - 1) div tr_block t"

definition tr_piece :: "transfer \<Rightarrow> nat \<Rightarrow> bytes" where
  "tr_piece t = piece (tr_block t) (tr_data t)"

definition tr_request :: "world \<Rightarrow> transfer \<Rightarrow> nat \<Rightarrow> request" where
  "tr_request wd t i = \<lparr>req_id = tr_ids t i, req_folder = tr_folder t, req_name = tr_name t,
     req_offset = int (i * tr_block t), req_size = int (length (tr_piece t i)),
     req_hash = wd_sha256 wd (tr_piece t i), req_from_temporary = False\<rparr>"

definition tr_response :: "transfer \<Rightarrow> nat \<Rightarrow> response" where
  "tr_response t i = \<lparr>resp_id = tr_ids t i, resp_data = tr_piece t i, resp_code = 0\<rparr>"

text \<open>
  What is assumed of the file and of the world: a file that is not empty, blocks with different
  digests requested under different identifiers, a file system that works, and \<^verbatim>\<open>rclone\<close> can be
  started, whatever its exit status.
\<close>

definition transfer_ok :: "world \<Rightarrow> transfer \<Rightarrow> bool" where
  "transfer_ok wd t \<longleftrightarrow> tr_data t \<noteq> [] \<and> 0 < tr_block t \<and> length (tr_data t) + tr_block t < 2 ^ 63 \<and>
     inj_on (\<lambda>i. wd_sha256 wd (tr_piece t i)) {..<tr_count t} \<and> inj_on (tr_ids t) {..<tr_count t} \<and>
     wd_os wd = os_works \<and> (\<forall>c. wd_rclone wd c \<noteq> NotStarted)"

definition tr_key :: "transfer \<Rightarrow> bep_processor \<Rightarrow> file_key" where
  "tr_key t p = (tr_folder t, gc_local_device_id (pr_config p), tr_name t)"

text \<open>The part of the state that the transfer uses: the file is known to the tables.\<close>

definition tr_known :: "transfer \<Rightarrow> bep_processor \<Rightarrow> bool" where
  "tr_known t p \<longleftrightarrow> (\<exists>f. find (\<lambda>f. fr_key f = tr_key t p) (db_files (bs_db (pr_state p))) = Some f \<and>
     fi_size (fr_info f) = int (length (tr_data t)) \<and> fi_block_size (fr_info f) = int (tr_block t))"

text \<open>The blocks in \<open>done\<close> have been stored.\<close>

definition tr_blocks :: "world \<Rightarrow> transfer \<Rightarrow> nat set \<Rightarrow> bep_processor \<Rightarrow> bool" where
  "tr_blocks wd t done p \<longleftrightarrow> (\<exists>B. (\<forall>i < tr_count t. bi_hash (B i) = wd_sha256 wd (tr_piece t i)) \<and>
     block_rows (bs_db (pr_state p)) (tr_key t p) =
       map (\<lambda>i. \<lparr>br_key = tr_key t p, br_block = B i, br_status = if i \<in> done then 1 else 0\<rparr>) [0..<tr_count t])"

definition tr_requested :: "world \<Rightarrow> transfer \<Rightarrow> nat set \<Rightarrow> bep_processor \<Rightarrow> bool" where
  "tr_requested wd t done p \<longleftrightarrow> queue_wf (bs_outgoing (pr_state p)) \<and>
     (\<forall>i < tr_count t. abs_queue (bs_outgoing (pr_state p)) (tr_ids t i) =
        (if i \<in> done then None else Some (tr_request wd t i, True)))"

definition tr_local :: "transfer \<Rightarrow> bep_processor \<Rightarrow> string" where
  "tr_local t p = local_path (fst (pr_storage p)) (tr_folder t) (tr_name t)"

definition tr_written :: "world \<Rightarrow> transfer \<Rightarrow> nat set \<Rightarrow> bep_processor \<Rightarrow> bool" where
  "tr_written wd t done p \<longleftrightarrow> (\<exists>w.
     writer_for (wd_hash wd) (fst (pr_storage p)) (tr_request wd t 0) (length (tr_data t)) (tr_block t) w \<and>
     has_parent (tr_local t p) \<and> (\<forall>i \<in> done. snd (pr_storage p) (chunk_path w i) = Some (tr_piece t i)) \<and>
     (done \<noteq> {} \<longrightarrow> map_of (sm_file_writers (fst (pr_storage p))) (rel_path (tr_folder t) (tr_name t)) \<noteq> None))"

text \<open>All blocks have been requested and none has been received.\<close>

definition receiving :: "world \<Rightarrow> transfer \<Rightarrow> bep_processor \<Rightarrow> bool" where
  "receiving wd t p \<longleftrightarrow> tr_known t p \<and> tr_blocks wd t {} p \<and> tr_requested wd t {} p \<and> tr_written wd t {} p"

text \<open>What the steps of a transfer do not change.\<close>

definition same_setting :: "transfer \<Rightarrow> bep_processor \<Rightarrow> bep_processor \<Rightarrow> bool" where
  "same_setting t p p' \<longleftrightarrow> pr_config p' = pr_config p \<and> tr_local t p' = tr_local t p \<and>
     sm_storage_backends (fst (pr_storage p')) = sm_storage_backends (fst (pr_storage p)) \<and>
     sm_config (fst (pr_storage p')) = sm_config (fst (pr_storage p))"

section \<open>The steps of a response\<close>

lemma tr_request_simps [simp]:
  "req_id (tr_request wd t i) = tr_ids t i" "req_folder (tr_request wd t i) = tr_folder t"
  "req_name (tr_request wd t i) = tr_name t" "req_offset (tr_request wd t i) = int (i * tr_block t)"
  "req_hash (tr_request wd t i) = wd_sha256 wd (tr_piece t i)"
  by (simp_all add: tr_request_def)

lemma tr_response_simps [simp]:
  "resp_id (tr_response t i) = tr_ids t i" "resp_data (tr_response t i) = tr_piece t i"
  "resp_code (tr_response t i) = 0"
  by (simp_all add: tr_response_def)

lemma tr_count_iff: "0 < tr_block t \<Longrightarrow> i < tr_count t \<longleftrightarrow> i * tr_block t < length (tr_data t)"
  unfolding tr_count_def by (rule chunk_count)

lemma sdiv_int: "int a sdiv int b = int (a div b)"
  by (simp add: signed_divide_int_def zdiv_int sgn_if)

lemma tr_expected:
  assumes "transfer_ok wd t" and "fi_size f = int (length (tr_data t))" and "fi_block_size f = int (tr_block t)"
  shows "expected_blocks f = Ok (int (tr_count t))"
proof -
  have ok: "tr_data t \<noteq> []" "0 < tr_block t" "length (tr_data t) + tr_block t < 2 ^ 63"
    using assms(1) by (auto simp: transfer_ok_def)
  have "0 < tr_count t" using tr_count_iff [OF ok(2), of 0] ok(1) by simp
  moreover have q: "(int (length (tr_data t)) + int (tr_block t) - 1) sdiv int (tr_block t) = int (tr_count t)"
    unfolding tr_count_def sdiv_int [symmetric] using ok(1,2)
    by (intro arg_cong [of _ _ "\<lambda>x. x sdiv int (tr_block t)"]) (cases "tr_data t"; simp)
  moreover have "tr_count t \<le> length (tr_data t) + tr_block t"
    unfolding tr_count_def by (rule order_trans [OF div_le_dividend]) simp
  moreover have "int (length (tr_data t)) + int (tr_block t) < 2 ^ 63"
    using ok(3) by (metis of_nat_add of_nat_less_iff of_nat_numeral of_nat_power)
  ultimately show ?thesis
    using ok(2) by (simp add: expected_blocks_def assms(2,3) in_int64_def Let_def)
qed

lemma tr_writer:
  assumes "transfer_ok wd t"
    and "writer_for (wd_hash wd) sm (tr_request wd t 0) (length (tr_data t)) (tr_block t) w"
  shows "writer_idle w" "fw_file_path w = local_path sm (tr_folder t) (tr_name t)"
    "fw_file_size w = length (tr_data t)" "fw_chunk_size w = tr_block t" "length (fw_writing_chunk w) = tr_count t"
  using assms by (auto simp: writer_for_def file_writer_new_def tr_count_def Let_def split: if_splits
      intro!: file_writer_new_idle)

lemma writer_for_any: "writer_for h sm (tr_request wd t i) n c w \<longleftrightarrow> writer_for h sm (tr_request wd t j) n c w"
  by (simp add: writer_for_def)

lemma tr_check:
  assumes "transfer_ok wd t" and "i < tr_count t"
    and "writer_for (wd_hash wd) sm (tr_request wd t 0) (length (tr_data t)) (tr_block t) w"
  shows "check_chunk w (tr_piece t i) (i * tr_block t) = Ok ()"
proof -
  have "0 < tr_block t" using assms(1) by (simp add: transfer_ok_def)
  then show ?thesis
    using check_piece [of w "tr_data t" i] tr_writer [OF assms(1,3)] assms(2) by (simp add: tr_piece_def tr_count_iff)
qed

text \<open>Storing the block.\<close>

lemma store_step:
  assumes "transfer_ok wd t" and "tr_written wd t done p" and "i < tr_count t"
  shows "\<exists>p'. in_storage (\<lambda>s. store_block_concurrently (wd_hash wd) (wd_os wd) s (tr_piece t i) (tr_request wd t i)
      (length (tr_data t)) (tr_block t)) p = (p', Ok ()) \<and>
    same_setting t p p' \<and> pr_state p' = pr_state p \<and> tr_written wd t (insert i done) p'"
proof -
  obtain sm fs where s: "pr_storage p = (sm, fs)" by (cases "pr_storage p")
  obtain w where w: "writer_for (wd_hash wd) sm (tr_request wd t 0) (length (tr_data t)) (tr_block t) w"
    "has_parent (local_path sm (tr_folder t) (tr_name t))"
    "\<forall>i \<in> done. fs (chunk_path w i) = Some (tr_piece t i)"
    using assms(2) s by (auto simp: tr_written_def tr_local_def)
  note wi = w(1) [unfolded writer_for_any [of _ _ wd t 0 _ _ _ i]]
  have c: "0 < tr_block t" and os: "wd_os wd = os_works" using assms(1) by (auto simp: transfer_ok_def)
  let ?sm = "sm\<lparr>sm_file_writers := AList.update (rel_path (tr_folder t) (tr_name t)) w (sm_file_writers sm)\<rparr>"
  let ?fs = "fs(chunk_path w i \<mapsto> tr_piece t i)"
  have "check_chunk w (tr_piece t i) (nat (req_offset (tr_request wd t i))) = Ok ()"
    using tr_check [OF assms(1,3) w(1)] by (simp add: nat_mult_distrib)
  then have st: "store_block_concurrently (wd_hash wd) os_works (sm, fs) (tr_piece t i) (tr_request wd t i)
      (length (tr_data t)) (tr_block t) = ((?sm, ?fs), Ok ())"
    using store_block_works [OF wi, of "tr_piece t i" fs] w(2) c by (simp add: nat_mult_distrib)
  have path: "local_path ?sm a b = local_path sm a b" for a b by (simp add: local_path_def)
  have w': "writer_for (wd_hash wd) ?sm (tr_request wd t 0) (length (tr_data t)) (tr_block t) w"
    using w(1) by (simp add: writer_for_def path update_conv)
  let ?p = "p\<lparr>pr_storage := (?sm, ?fs)\<rparr>"
  have "in_storage (\<lambda>s. store_block_concurrently (wd_hash wd) (wd_os wd) s (tr_piece t i) (tr_request wd t i)
      (length (tr_data t)) (tr_block t)) p = (?p, Ok ())"
    using st by (simp add: in_storage_def s os)
  moreover have "tr_written wd t (insert i done) ?p"
    unfolding tr_written_def using w w'
    by (intro exI [of _ w]) (simp add: tr_local_def path update_conv)
  ultimately show ?thesis
    by (intro exI [of _ ?p]) (simp add: s tr_local_def path same_setting_def)
qed

text \<open>Marking the block.\<close>

lemma count_in_upt: "S \<subseteq> {..<n} \<Longrightarrow> length (filter (\<lambda>j. j \<in> S) [0..<n]) = card S"
proof -
  assume "S \<subseteq> {..<n}"
  then have "set (filter (\<lambda>j. j \<in> S) [0..<n]) = S" by auto
  then show ?thesis using distinct_card [of "filter (\<lambda>j. j \<in> S) [0..<n]"] by simp
qed

lemma tr_known_cong:
  "pr_config p' = pr_config p \<Longrightarrow> db_files (bs_db (pr_state p')) = db_files (bs_db (pr_state p)) \<Longrightarrow>
   tr_known t p' \<longleftrightarrow> tr_known t p"
  by (simp add: tr_known_def tr_key_def)

lemma mark_step:
  assumes "transfer_ok wd t" and "tr_known t p" and "tr_blocks wd t done p" and "tr_requested wd t R p"
    and "done \<subseteq> {..<tr_count t}" and "i < tr_count t" and "i \<notin> R"
  shows "\<exists>p'. mark_block (tr_ids t i) (gc_local_device_id (pr_config p)) p =
      (p', Ok (if insert i done = {..<tr_count t} then AllBlocks else BlocksMissing)) \<and>
    same_setting t p p' \<and> pr_storage p' = pr_storage p \<and> tr_known t p' \<and>
    tr_blocks wd t (insert i done) p' \<and> bs_outgoing (pr_state p') = bs_outgoing (pr_state p)"
proof -
  let ?d = "bs_db (pr_state p)" and ?k = "tr_key t p" and ?r = "tr_request wd t i" and ?n = "tr_count t"
  have inj: "inj_on (\<lambda>i. wd_sha256 wd (tr_piece t i)) {..<?n}" using assms(1) by (simp add: transfer_ok_def)
  obtain f where f: "find (\<lambda>f. fr_key f = ?k) (db_files ?d) = Some f" "expected_blocks (fr_info f) = Ok (int ?n)"
    using assms(2) tr_expected [OF assms(1)] by (auto simp: tr_known_def)
  obtain B where B: "\<forall>i < ?n. bi_hash (B i) = wd_sha256 wd (tr_piece t i)"
    "block_rows ?d ?k = map (\<lambda>i. \<lparr>br_key = ?k, br_block = B i, br_status = if i \<in> done then 1 else 0\<rparr>) [0..<?n]"
    using assms(3) by (auto simp: tr_blocks_def)
  have q: "get_request (bs_outgoing (pr_state p)) (tr_ids t i) = Some ?r"
    using assms(4,6,7) by (auto simp: tr_requested_def abs_queue_def get_request_def)
  have k: "?k = (req_folder ?r, gc_local_device_id (pr_config p), req_name ?r)" by (simp add: tr_key_def)
  let ?d' = "mark_stored ?k (req_hash ?r) ?d"
  have hash: "bi_hash (B j) = req_hash ?r \<longleftrightarrow> j = i" if "j < ?n" for j
    using that assms(6) B(1) inj by (auto simp: inj_on_def)
  have rows: "block_rows ?d' ?k =
      map (\<lambda>j. \<lparr>br_key = ?k, br_block = B j, br_status = if j \<in> insert i done then 1 else 0\<rparr>) [0..<?n]"
    unfolding block_rows_marked B(2) using hash by auto
  have count: "stored_count ?k ?d' = int (card (insert i done))"
    using count_in_upt [of "insert i done" ?n] assms(5,6)
    unfolding stored_count_rows rows by (simp add: filter_map comp_def)
  have sub: "insert i done \<subseteq> {..<?n}" using assms(5,6) by simp
  have all: "card (insert i done) = ?n \<longleftrightarrow> insert i done = {..<?n}"
  proof
    assume "card (insert i done) = ?n"
    then show "insert i done = {..<?n}" using card_subset_eq [OF finite_lessThan sub] by simp
  qed (metis card_lessThan)
  have le: "card (insert i done) \<le> ?n" using card_mono [OF finite_lessThan sub] by simp
  have mem: "\<lparr>br_key = ?k, br_block = B i, br_status = if i \<in> done then 1 else 0\<rparr> \<in> set (block_rows ?d ?k)"
    using assms(6) by (auto simp: B(2))
  have hi: "bi_hash (br_block \<lparr>br_key = ?k, br_block = B i, br_status = if i \<in> done then 1 else 0\<rparr>) = req_hash ?r"
    using hash [OF assms(6)] by simp
  have upd: "update_block_storage_state (pr_state p) (tr_ids t i) (gc_local_device_id (pr_config p)) =
      Ok ((pr_state p)\<lparr>bs_db := ?d'\<rparr>, Ok (if insert i done = {..<?n} then AllBlocks else BlocksMissing))"
    unfolding update_block_storage_state_eq [OF q k f mem hi refl] count all [symmetric] using le by auto
  let ?p = "p\<lparr>pr_state := (pr_state p)\<lparr>bs_db := ?d'\<rparr>\<rparr>"
  have key: "tr_key t ?p = ?k" by (simp add: tr_key_def)
  have "tr_known t ?p" using assms(2) tr_known_cong [of ?p p t] by (simp add: mark_stored_def)
  moreover have "tr_blocks wd t (insert i done) ?p"
    unfolding tr_blocks_def key using B(1) rows by (intro exI [of _ B]) simp
  ultimately show ?thesis
    by (intro exI [of _ ?p]) (simp add: mark_block_def in_state_def upd same_setting_def tr_local_def)
qed

text \<open>Removing the request.\<close>

lemma remove_step:
  assumes "transfer_ok wd t" and "tr_requested wd t done p" and "i < tr_count t" and "i \<notin> done"
  shows "\<exists>p' r. in_state (\<lambda>st. bep_remove_request st (tr_ids t i)) p = (p', Ok r) \<and>
    same_setting t p p' \<and> pr_storage p' = pr_storage p \<and> bs_db (pr_state p') = bs_db (pr_state p) \<and>
    tr_requested wd t (insert i done) p'"
proof -
  let ?q = "bs_outgoing (pr_state p)"
  have "queue_wf ?q" "abs_queue ?q (tr_ids t i) = Some (tr_request wd t i, True)"
    using assms(2-4) by (auto simp: tr_requested_def)
  from abs_remove [OF this]
  obtain q' where q': "remove_request ?q (tr_ids t i) = Ok (q', Some (tr_request wd t i))" "queue_wf q'"
    "abs_queue q' = (abs_queue ?q)(tr_ids t i := None)" by blast
  have "tr_ids t j \<noteq> tr_ids t i" if "j < tr_count t" "j \<noteq> i" for j
    using that assms(1,3) by (auto simp: transfer_ok_def inj_on_def)
  then show ?thesis
    using q' assms(2)
    by (intro exI [of _ "p\<lparr>pr_state := (pr_state p)\<lparr>bs_outgoing := q'\<rparr>\<rparr>"])
       (auto simp: in_state_def bep_remove_request_def tr_requested_def same_setting_def tr_local_def)
qed

text \<open>Concluding the file.\<close>

lemma insert_locations_Ok:
  assumes "k \<in> file_keys d"
  shows "\<exists>d'. for_each ls (insert_location k) d = Ok d' \<and> db_files d' = db_files d \<and> db_blocks d' = db_blocks d \<and>
    (\<forall>l \<in> set ls. \<lparr>lr_key = k, lr_backend = fst l, lr_location = snd l\<rparr> \<in> set (db_locations d')) \<and>
    set (db_locations d) \<subseteq> set (db_locations d')"
  using assms
proof (induction ls arbitrary: d)
  case (Cons l ls)
  let ?row = "\<lparr>lr_key = k, lr_backend = fst l, lr_location = snd l\<rparr>"
  obtain d1 where d1: "insert_location k l d = Ok d1" "db_files d1 = db_files d" "db_blocks d1 = db_blocks d" "?row \<in> set (db_locations d1)"
    "set (db_locations d) \<subseteq> set (db_locations d1)"
    using Cons.prems by (cases "?row \<in> set (db_locations d)") (auto simp: insert_location_def Let_def)
  have "k \<in> file_keys d1" using Cons.prems d1(2) by (simp add: file_keys_def)
  from Cons.IH [OF this] d1 show ?case by fastforce
qed simp

lemma receiving_file_info:
  assumes "tr_known t p"
  shows "\<exists>f. bep_file_info (pr_state p) (tr_folder t) (gc_local_device_id (pr_config p)) (tr_name t) = Some f \<and>
    fi_size f = int (length (tr_data t)) \<and> fi_block_size f = int (tr_block t)"
  using assms by (auto simp: tr_known_def bep_file_info_def file_at_def tr_key_def stored_file_def)

lemma join_step:
  assumes "transfer_ok wd t" and "tr_written wd t {..<tr_count t} p"
  shows "\<exists>p'. in_storage (\<lambda>s. conclude_block_storage (wd_hash wd) (wd_os wd) s (tr_request wd t i)
      (length (tr_data t)) (tr_block t)) p = (p', Ok ()) \<and> same_setting t p p' \<and> pr_state p' = pr_state p \<and>
    snd (pr_storage p') (tr_local t p) = Some (tr_data t)"
proof -
  obtain sm fs where s: "pr_storage p = (sm, fs)" by (cases "pr_storage p")
  have os: "wd_os wd = os_works" and c: "0 < tr_block t" using assms(1) by (auto simp: transfer_ok_def)
  have n: "{..<tr_count t} \<noteq> {}" using tr_count_iff [OF c, of 0] assms(1) by (auto simp: transfer_ok_def)
  let ?rel = "rel_path (tr_folder t) (tr_name t)" and ?loc = "local_path sm (tr_folder t) (tr_name t)"
  obtain w where w: "writer_for (wd_hash wd) sm (tr_request wd t 0) (length (tr_data t)) (tr_block t) w"
    "\<forall>i < tr_count t. fs (chunk_path w i) = Some (tr_piece t i)" and reg: "map_of (sm_file_writers sm) ?rel \<noteq> None"
    using assms(2) s n by (auto simp: tr_written_def)
  note tw = tr_writer [OF assms(1) w(1)]
  have wm: "map_of (sm_file_writers sm) ?rel = Some w" using w(1) reg by (auto simp: writer_for_def)
  have len: "\<forall>i. Suc i < tr_count t \<longrightarrow> length (tr_piece t i) = fw_chunk_size w"
  proof (intro allI impI)
    fix i assume "Suc i < tr_count t"
    then have "i * tr_block t + tr_block t < length (tr_data t)"
      using tr_count_iff [OF c, of "Suc i"] by (simp add: add.commute)
    then show "length (tr_piece t i) = fw_chunk_size w"
      unfolding tw(4) tr_piece_def piece_def length_take length_drop by linarith
  qed
  have "length (tr_data t) \<le> tr_count t * tr_block t" using tr_count_iff [OF c, of "tr_count t"] by simp
  then have whole: "concat (map (tr_piece t) [0..<tr_count t]) = tr_data t"
    by (simp add: tr_piece_def concat_pieces)
  obtain fs' where fs': "consolidate os_works (w, fs) = ((w, fs'), Ok ())" "fs' ?loc = Some (tr_data t)"
  proof (rule that [OF consolidate_works [OF tw(1) tw(5) [symmetric] w(2) len]])
    have "?loc \<notin> chunk_path w ` {0..<tr_count t}" unfolding tw(2) [symmetric] by auto
    then show "(if ?loc \<in> chunk_path w ` {0..<tr_count t} then None
        else if ?loc = fw_file_path w then Some (concat (map (tr_piece t) [0..<tr_count t])) else fs ?loc) =
      Some (tr_data t)"
      by (simp add: tw(2) whole)
  qed
  let ?sm = "sm\<lparr>sm_file_writers := AList.update ?rel w (sm_file_writers sm)\<rparr>"
  have "entry_writer (wd_hash wd) sm ?rel ?rel (length (tr_data t)) (tr_block t) = Ok w"
    using wm w(1) by (auto simp: entry_writer_def writer_for_def file_writer_new_def Let_def split: if_splits)
  then have "in_storage (\<lambda>s. conclude_block_storage (wd_hash wd) (wd_os wd) s (tr_request wd t i)
      (length (tr_data t)) (tr_block t)) p = (p\<lparr>pr_storage := (?sm, fs')\<rparr>, Ok ())"
    using fs'(1) by (simp add: in_storage_def conclude_block_storage_def s os put_writer_def Let_def)
  then show ?thesis
    using fs'(2) by (intro exI [of _ "p\<lparr>pr_storage := (?sm, fs')\<rparr>"]) (simp add: s same_setting_def tr_local_def local_path_def)
qed

text \<open>The places of the copies.\<close>

definition tr_copies :: "transfer \<Rightarrow> bep_processor \<Rightarrow> (string \<times> string) list" where
  "tr_copies t p = map (\<lambda>b. (b, remote_path (fst (pr_storage p)) b (tr_folder t) (tr_name t)))
     (sm_storage_backends (fst (pr_storage p)))"

definition tr_located :: "transfer \<Rightarrow> bep_processor \<Rightarrow> bep_processor \<Rightarrow> bool" where
  "tr_located t p p' \<longleftrightarrow> (\<forall>b \<in> set (sm_storage_backends (fst (pr_storage p))) - {''local''}.
     \<lparr>lr_key = tr_key t p, lr_backend = b, lr_location = remote_path (fst (pr_storage p)) b (tr_folder t) (tr_name t)\<rparr>
       \<in> set (db_locations (bs_db (pr_state p'))))"

lemma tr_copies_cong: "same_setting t p p' \<Longrightarrow> tr_copies t p' = tr_copies t p"
  by (simp add: tr_copies_def same_setting_def remote_path_def)

lemma copy_step:
  assumes "transfer_ok wd t"
  shows "cp_local_to_remote (wd_rclone wd) (fst (pr_storage p)) (tr_folder t) (tr_name t) =
    (Ok (tr_copies t p) :: (_, processor_error) result)"
proof -
  have ns: "wd_rclone wd cmd \<noteq> NotStarted" for cmd using assms by (auto simp: transfer_ok_def)
  have "\<exists>st out. wd_rclone wd cmd = Exited st out" for cmd using ns [of cmd] by (cases "wd_rclone wd cmd") auto
  then show ?thesis
    unfolding cp_local_to_remote_def tr_copies_def by (subst for_backends_Ok) auto
qed

lemma locate_step:
  assumes "tr_known t p" and "same_setting t p0 p"
  shows "\<exists>p'. on_state (\<lambda>st. update_file_locations st (tr_folder t) (gc_local_device_id (pr_config p)) (tr_name t)
      (tr_copies t p0)) p = (p', Ok ()) \<and> same_setting t p p' \<and> pr_storage p' = pr_storage p \<and>
    bs_outgoing (pr_state p') = bs_outgoing (pr_state p) \<and> db_files (bs_db (pr_state p')) = db_files (bs_db (pr_state p)) \<and>
    db_blocks (bs_db (pr_state p')) = db_blocks (bs_db (pr_state p)) \<and> tr_located t p0 p'"
proof -
  have "tr_key t p \<in> file_keys (bs_db (pr_state p))"
    using assms(1) by (force simp: tr_known_def file_keys_def dest!: find_SomeD)
  from insert_locations_Ok [OF this, of "tr_copies t p0"]
  obtain d' where d': "for_each (tr_copies t p0) (insert_location (tr_key t p)) (bs_db (pr_state p)) = Ok d'"
    "db_files d' = db_files (bs_db (pr_state p))" "db_blocks d' = db_blocks (bs_db (pr_state p))"
    "\<forall>l \<in> set (tr_copies t p0). \<lparr>lr_key = tr_key t p, lr_backend = fst l, lr_location = snd l\<rparr> \<in> set (db_locations d')"
    by blast
  have "tr_key t p = tr_key t p0" using assms(2) by (simp add: tr_key_def same_setting_def)
  then show ?thesis
    using d' by (intro exI [of _ "p\<lparr>pr_state := (pr_state p)\<lparr>bs_db := d'\<rparr>\<rparr>"])
      (auto simp: on_state_def in_state_def update_file_locations_def tr_key_def same_setting_def tr_local_def
        tr_located_def tr_copies_def)
qed

lemma unlocate_step:
  assumes "tr_located t p0 p"
  shows "\<exists>p'. on_state (\<lambda>st. Ok (remove_file_locations st (tr_folder t) dev (tr_name t) [''local''])) p = (p', Ok ()) \<and>
    same_setting t p p' \<and> pr_storage p' = pr_storage p \<and>
    bs_outgoing (pr_state p') = bs_outgoing (pr_state p) \<and> db_files (bs_db (pr_state p')) = db_files (bs_db (pr_state p)) \<and>
    db_blocks (bs_db (pr_state p')) = db_blocks (bs_db (pr_state p)) \<and> tr_located t p0 p'"
  using assms
  by (intro exI [of _ "p\<lparr>pr_state := remove_file_locations (pr_state p) (tr_folder t) dev (tr_name t) [''local'']\<rparr>"])
     (auto simp: on_state_def in_state_def remove_file_locations_def tr_located_def same_setting_def tr_local_def Let_def)

lemma drop_step:
  assumes "transfer_ok wd t" and "snd (pr_storage p) (tr_local t p) = Some d"
  shows "\<exists>p'. in_storage (\<lambda>(sm, fs). apfst (Pair sm) (rm_local_file (wd_os wd) sm (tr_folder t) (tr_name t) fs)) p = (p', Ok ()) \<and>
    same_setting t p p' \<and> pr_state p' = pr_state p \<and> snd (pr_storage p') (tr_local t p) = None"
proof -
  obtain sm fs where s: "pr_storage p = (sm, fs)" by (cases "pr_storage p")
  let ?loc = "local_path sm (tr_folder t) (tr_name t)"
  have "rm_local_file (wd_os wd) sm (tr_folder t) (tr_name t) fs = (fs(?loc := None), Ok ())"
    using assms s by (simp add: rm_local_file_def remove_file_def transfer_ok_def os_works_def tr_local_def domI)
  then show ?thesis
    by (intro exI [of _ "p\<lparr>pr_storage := (sm, fs(?loc := None))\<rparr>"])
       (simp add: s in_storage_def same_setting_def tr_local_def)
qed

end
