(* ===== verification/Transfer_Tasks.thy ===== *)
theory Transfer_Tasks
  imports File_Transfer
begin

text \<open>
  The responses with the blocks of a file are handled by tasks that run at the same time: a section of one task may
  come between any two sections of another.  \<open>phase\<close> says how far the task of a block is, \<open>task_at\<close> what is left of
  it, and \<open>transfer_inv\<close> is the invariant of all interleavings: which blocks are marked in the tables, which chunks
  are on disk, which requests are in the queue, and that at most one task, the one that marked the last block,
  joins the file.
\<close>

section \<open>The tasks of a transfer\<close>

text \<open>
  The phases of the task of a response: it has arrived, the request is found (\<open>Asked\<close>), the sizes are read,
  the chunk is kept on disk; then the block is marked, which settles the task, or makes the file whole.  In that case
  the task joins the chunks, copies the file, records the locations and removes the local one before it is
  settled.  Finally the request is removed.
\<close>

datatype phase = Arrived | Asked | Sized | Kept | Whole | Joined | Copied | Located | Unlocated | Settled | Answered

definition is_kept :: "phase \<Rightarrow> bool" where
  "is_kept ph \<longleftrightarrow> ph \<notin> {Arrived, Asked, Sized}"

definition is_marked :: "phase \<Rightarrow> bool" where
  "is_marked ph \<longleftrightarrow> ph \<notin> {Arrived, Asked, Sized, Kept}"

definition is_concluding :: "phase \<Rightarrow> bool" where
  "is_concluding ph \<longleftrightarrow> ph \<in> {Whole, Joined, Copied, Located, Unlocated}"

lemmas phase_defs = is_kept_def is_marked_def is_concluding_def

text \<open>The sections that a task in a phase has ahead, at most.\<close>

fun sections :: "phase \<Rightarrow> nat" where
  "sections Arrived = 10" | "sections Asked = 9" | "sections Sized = 8" | "sections Kept = 7" | "sections Whole = 6"
| "sections Joined = 5" | "sections Copied = 4" | "sections Located = 3" | "sections Unlocated = 2"
| "sections Settled = 1" | "sections Answered = 0"

definition settle :: "transfer \<Rightarrow> nat \<Rightarrow> (unit, processor_error) result \<Rightarrow> events handler" where
  "settle t i stored =
     after (if stored = Panic then Return Panic
            else then_task (critical (in_state (\<lambda>st. bep_remove_request st (tr_ids t i)))) (\<lambda>_.
                 Return (and_then stored (\<lambda>_. Ok RequestProcessed))))
       (\<lambda>res. Return (if res = Panic then Panic else Ok [res]))"

fun task_at :: "world \<Rightarrow> transfer \<Rightarrow> bep_processor \<Rightarrow> nat \<Rightarrow> phase \<Rightarrow> events handler" where
  "task_at wd t p i Arrived = handle_response wd (pr_config p) (tr_response t i)"
| "task_at wd t p i Asked =
     after (store_response_data wd (pr_config p) (tr_request wd t i) (tr_response t i)) (settle t i)"
| "task_at wd t p i Sized =
     after (then_task (critical (in_storage (\<lambda>s. store_block_concurrently (wd_hash wd) (wd_os wd) s (tr_piece t i)
         (tr_request wd t i) (length (tr_data t)) (tr_block t)))) (\<lambda>_.
       then_task (critical (mark_block (tr_ids t i) (gc_local_device_id (pr_config p)))) (\<lambda>upload_status.
       if upload_status = AllBlocks
       then conclude_file wd (pr_config p) (tr_request wd t i) (length (tr_data t)) (tr_block t) else Return (Ok ()))))
     (settle t i)"
| "task_at wd t p i Kept =
     after (then_task (critical (mark_block (tr_ids t i) (gc_local_device_id (pr_config p)))) (\<lambda>upload_status.
       if upload_status = AllBlocks
       then conclude_file wd (pr_config p) (tr_request wd t i) (length (tr_data t)) (tr_block t) else Return (Ok ())))
     (settle t i)"
| "task_at wd t p i Whole =
     after (conclude_file wd (pr_config p) (tr_request wd t i) (length (tr_data t)) (tr_block t)) (settle t i)"
| "task_at wd t p i Joined =
     after (then_task (copy_to_remote wd (pr_config p) (tr_request wd t i)) (\<lambda>_.
       drop_local wd (pr_config p) (tr_request wd t i))) (settle t i)"
| "task_at wd t p i Copied =
     after (then_task (critical (on_state (\<lambda>st. update_file_locations st (tr_folder t)
         (gc_local_device_id (pr_config p)) (tr_name t) (tr_copies t p)))) (\<lambda>_.
       drop_local wd (pr_config p) (tr_request wd t i))) (settle t i)"
| "task_at wd t p i Located = after (drop_local wd (pr_config p) (tr_request wd t i)) (settle t i)"
| "task_at wd t p i Unlocated =
     after (critical (in_storage (\<lambda>(sm, fs). apfst (Pair sm)
       (rm_local_file (wd_os wd) sm (tr_folder t) (tr_name t) fs)))) (settle t i)"
| "task_at wd t p i Settled = settle t i (Ok ())"
| "task_at wd t p i Answered = Return (Ok [Ok RequestProcessed])"

text \<open>What a completed transfer leaves, and what the concluding task has reached.\<close>

definition received :: "transfer \<Rightarrow> bep_processor \<Rightarrow> bep_processor \<Rightarrow> bool" where
  "received t p p' \<longleftrightarrow>
     snd (pr_storage p') (tr_local t p) =
       (if gc_storage_strategy (pr_config p) = Remote then None else Some (tr_data t)) \<and> tr_located t p p'"

definition stage :: "world \<Rightarrow> transfer \<Rightarrow> bep_processor \<Rightarrow> phase \<Rightarrow> bep_processor \<Rightarrow> bool" where
  "stage wd t p0 ph p \<longleftrightarrow>
     (if ph = Whole then tr_written wd t {..<tr_count t} p
      else snd (pr_storage p) (tr_local t p0) = Some (tr_data t) \<and>
        (ph \<in> {Located, Unlocated} \<longrightarrow> gc_storage_strategy (pr_config p0) = Remote \<and> tr_located t p0 p))"

definition phases_in :: "transfer \<Rightarrow> (nat \<Rightarrow> phase) \<Rightarrow> (phase \<Rightarrow> bool) \<Rightarrow> nat set" where
  "phases_in t ph P = {i. i < tr_count t \<and> P (ph i)}"

definition transfer_inv :: "world \<Rightarrow> transfer \<Rightarrow> bep_processor \<Rightarrow> (nat \<Rightarrow> phase) \<Rightarrow> bep_processor \<Rightarrow> bool" where
  "transfer_inv wd t p0 ph p \<longleftrightarrow> same_setting t p0 p \<and> tr_known t p \<and>
     tr_blocks wd t (phases_in t ph is_marked) p \<and> tr_requested wd t (phases_in t ph (\<lambda>x. x = Answered)) p \<and>
     (case phases_in t ph is_concluding = {} of
        True \<Rightarrow> if phases_in t ph is_marked = {..<tr_count t} then received t p0 p
               else tr_written wd t (phases_in t ph is_kept) p
      | False \<Rightarrow> phases_in t ph is_marked = {..<tr_count t} \<and>
          (\<exists>i. phases_in t ph is_concluding = {i} \<and> stage wd t p0 (ph i) p))"

section \<open>Every turn keeps the invariant\<close>

lemma same_setting_trans: "same_setting t p p1 \<Longrightarrow> same_setting t p1 p2 \<Longrightarrow> same_setting t p p2"
  by (simp add: same_setting_def)

lemma transfer_parts_cong:
  assumes "same_setting t p p'" and "db_files (bs_db (pr_state p')) = db_files (bs_db (pr_state p))"
    and "db_blocks (bs_db (pr_state p')) = db_blocks (bs_db (pr_state p))"
    and "bs_outgoing (pr_state p') = bs_outgoing (pr_state p)"
  shows "tr_known t p' = tr_known t p" "tr_blocks wd t M p' = tr_blocks wd t M p"
    "tr_requested wd t R p' = tr_requested wd t R p"
proof -
  have "tr_key t p' = tr_key t p" using assms(1) by (simp add: same_setting_def tr_key_def)
  with assms show "tr_known t p' = tr_known t p" "tr_blocks wd t M p' = tr_blocks wd t M p"
    "tr_requested wd t R p' = tr_requested wd t R p"
    by (simp_all add: tr_known_def tr_blocks_def tr_requested_def block_rows_def)
qed

lemma tr_written_cong:
  "tr_local t p' = tr_local t p \<Longrightarrow> pr_storage p' = pr_storage p \<Longrightarrow> tr_written wd t W p' = tr_written wd t W p"
  by (simp add: tr_written_def)

lemma phases_in_upd:
  assumes "i < tr_count t"
  shows "phases_in t (ph(i := x)) P = (if P x then insert i (phases_in t ph P) else phases_in t ph P - {i})"
  using assms by (auto simp: phases_in_def)

lemma phases_in_same: "P x = P (ph i) \<Longrightarrow> phases_in t (ph(i := x)) P = phases_in t ph P"
  by (auto simp: phases_in_def)

text \<open>Before its block is marked, no task concludes.\<close>

lemma before_marking:
  assumes "transfer_inv wd t p0 ph p" and "i < tr_count t" and "\<not> is_marked (ph i)"
  shows "phases_in t ph is_concluding = {}" "phases_in t ph is_marked \<noteq> {..<tr_count t}"
    "tr_written wd t (phases_in t ph is_kept) p"
proof -
  have "i \<notin> phases_in t ph is_marked" using assms(3) by (simp add: phases_in_def)
  moreover have "i \<in> {..<tr_count t}" using assms(2) by simp
  ultimately show "phases_in t ph is_marked \<noteq> {..<tr_count t}" by blast
  with assms(1) show "phases_in t ph is_concluding = {}" "tr_written wd t (phases_in t ph is_kept) p"
    by (auto simp: transfer_inv_def split: bool.splits)
qed

lemma inv_unmarked:
  assumes "transfer_inv wd t p0 ph p" and "i < tr_count t" and "\<not> is_marked (ph i)" and "\<not> is_marked x"
    and "same_setting t p p'" and "pr_state p' = pr_state p"
    and "tr_written wd t (phases_in t (ph(i := x)) is_kept) p'"
  shows "transfer_inv wd t p0 (ph(i := x)) p'"
proof -
  note b = before_marking [OF assms(1-3)]
  have nc: "\<not> is_concluding x" "\<not> is_concluding (ph i)" "x \<noteq> Answered" "ph i \<noteq> Answered"
    using assms(3,4) by (auto simp: phase_defs)
  have same: "phases_in t (ph(i := x)) is_marked = phases_in t ph is_marked"
    "phases_in t (ph(i := x)) is_concluding = {}"
    "phases_in t (ph(i := x)) (\<lambda>y. y = Answered) = phases_in t ph (\<lambda>y. y = Answered)"
    using b(1) phases_in_same [of is_marked x ph i] phases_in_same [of is_concluding x ph i]
      phases_in_same [of "\<lambda>y. y = Answered" x ph i] assms(3,4) nc by simp_all
  have parts: "same_setting t p0 p" "tr_known t p" "tr_blocks wd t (phases_in t ph is_marked) p"
    "tr_requested wd t (phases_in t ph (\<lambda>x. x = Answered)) p"
    using assms(1) by (simp_all add: transfer_inv_def)
  show ?thesis
    using parts b(2) assms(5-7) same_setting_trans [OF parts(1) assms(5)]
    unfolding transfer_inv_def same by (simp add: transfer_parts_cong [OF assms(5)])
qed

text \<open>The concluding task.\<close>

lemma while_concluding:
  assumes "transfer_inv wd t p0 ph p" and "i < tr_count t" and "is_concluding (ph i)"
  shows "phases_in t ph is_concluding = {i}" "phases_in t ph is_marked = {..<tr_count t}" "stage wd t p0 (ph i) p"
proof -
  have "i \<in> phases_in t ph is_concluding" using assms(2,3) by (simp add: phases_in_def)
  then obtain j where j: "phases_in t ph is_marked = {..<tr_count t}" "phases_in t ph is_concluding = {j}"
    "stage wd t p0 (ph j) p" and "i = j"
    using assms(1) by (auto simp: transfer_inv_def split: bool.splits)
  then show "phases_in t ph is_concluding = {i}" "phases_in t ph is_marked = {..<tr_count t}" "stage wd t p0 (ph i) p"
    by simp_all
qed

lemma inv_concluding:
  assumes "transfer_inv wd t p0 ph p" and "i < tr_count t" and "is_concluding (ph i)"
    and "same_setting t p p'" and "db_files (bs_db (pr_state p')) = db_files (bs_db (pr_state p))"
    and "db_blocks (bs_db (pr_state p')) = db_blocks (bs_db (pr_state p))"
    and "bs_outgoing (pr_state p') = bs_outgoing (pr_state p)"
    and "is_concluding x \<and> stage wd t p0 x p' \<or> x = Settled \<and> received t p0 p'"
  shows "transfer_inv wd t p0 (ph(i := x)) p'"
proof -
  note c = while_concluding [OF assms(1-3)]
  have x: "is_marked x" "x \<noteq> Answered" "is_marked (ph i)" "ph i \<noteq> Answered"
    using assms(3,8) by (auto simp: phase_defs)
  have same: "phases_in t (ph(i := x)) is_marked = phases_in t ph is_marked"
    "phases_in t (ph(i := x)) (\<lambda>y. y = Answered) = phases_in t ph (\<lambda>y. y = Answered)"
    using phases_in_same [of is_marked x ph i] phases_in_same [of "\<lambda>y. y = Answered" x ph i] x by simp_all
  have conc: "phases_in t (ph(i := x)) is_concluding = (if is_concluding x then {i} else {})"
    using phases_in_upd [OF assms(2), of ph x is_concluding] c(1) by simp
  have parts: "same_setting t p0 p" "tr_known t p" "tr_blocks wd t (phases_in t ph is_marked) p"
    "tr_requested wd t (phases_in t ph (\<lambda>x. x = Answered)) p"
    using assms(1) by (simp_all add: transfer_inv_def)
  have "\<not> is_concluding Settled" by (simp add: phase_defs)
  then show ?thesis
    using parts c(2) assms(8) same_setting_trans [OF parts(1) assms(4)]
    unfolding transfer_inv_def same conc by (auto simp: transfer_parts_cong [OF assms(4-7)])
qed

text \<open>The turns of a task, phase by phase.\<close>

definition turn_ok :: "world \<Rightarrow> transfer \<Rightarrow> bep_processor \<Rightarrow> (nat \<Rightarrow> phase) \<Rightarrow> bep_processor \<Rightarrow> nat \<Rightarrow> bool" where
  "turn_ok wd t p0 ph p i \<longleftrightarrow> (\<exists>x p'. turn (task_at wd t p0 i (ph i)) p = (p', task_at wd t p0 i x) \<and>
     transfer_inv wd t p0 (ph(i := x)) p' \<and> sections x \<le> sections (ph i) - 1)"

fun following :: "phase \<Rightarrow> phase" where
  "following Arrived = Asked" | "following Asked = Sized" | "following ph = Kept"

lemma turn_unmarked:
  assumes "transfer_ok wd t" and inv: "transfer_inv wd t p0 ph p" and i: "i < tr_count t" and "ph i \<in> {Arrived, Asked, Sized}"
  shows "\<exists>p'. turn (task_at wd t p0 i (ph i)) p = (p', task_at wd t p0 i (following (ph i))) \<and>
    transfer_inv wd t p0 (ph(i := following (ph i))) p'"
proof -
  have um: "\<not> is_marked (ph i)" using assms(4) by (auto simp: phase_defs)
  note b = before_marking [OF inv i um]
  have setting: "pr_config p = pr_config p0" "tr_known t p"
    and req: "tr_requested wd t (phases_in t ph (\<lambda>x. x = Answered)) p"
    using inv by (simp_all add: transfer_inv_def same_setting_def)
  have stay: "transfer_inv wd t p0 (ph(i := x)) p" if "x \<in> {Asked, Sized}" for x
  proof (rule inv_unmarked [OF inv i um])
    have "is_kept x = is_kept (ph i)" using that assms(4) by (auto simp: phase_defs)
    then show "tr_written wd t (phases_in t (ph(i := x)) is_kept) p" using b(3) by (simp add: phases_in_same)
  qed (use that in \<open>auto simp: phase_defs same_setting_def\<close>)
  consider "ph i = Arrived" | "ph i = Asked" | "ph i = Sized" using assms(4) by blast
  then show ?thesis
  proof cases
    case 1
    have "bep_get_request (pr_state p) (tr_ids t i) = Some (tr_request wd t i)"
      using req i 1 by (auto simp: tr_requested_def abs_queue_def bep_get_request_def get_request_def phases_in_def)
    then have "turn (task_at wd t p0 i Arrived) p = (p, task_at wd t p0 i Asked)"
      by (simp add: handle_response_def process_response_def turn_after_then after_assoc settle_def [abs_def] cong: if_cong)
    then show ?thesis using 1 stay [of Asked] by auto
  next
    case 2
    obtain f where f: "bep_file_info (pr_state p) (tr_folder t) (gc_local_device_id (pr_config p0)) (tr_name t) = Some f"
      "fi_size f = int (length (tr_data t))" "fi_block_size f = int (tr_block t)"
      using receiving_file_info [OF setting(2)] setting(1) by auto
    have "file_sizes (tr_folder t) (gc_local_device_id (pr_config p0)) (tr_name t) p = (p, Ok (length (tr_data t), tr_block t))"
      using f by (simp add: file_sizes_def)
    then have "turn (task_at wd t p0 i Asked) p = (p, task_at wd t p0 i Sized)"
      by (simp add: store_response_data_def check_data_def turn_after_then)
    then show ?thesis using 2 stay [of Sized] by auto
  next
    case 3
    obtain p' where p': "in_storage (\<lambda>s. store_block_concurrently (wd_hash wd) (wd_os wd) s (tr_piece t i)
        (tr_request wd t i) (length (tr_data t)) (tr_block t)) p = (p', Ok ())" "same_setting t p p'"
      "pr_state p' = pr_state p" "tr_written wd t (insert i (phases_in t ph is_kept)) p'"
      using store_step [OF assms(1) b(3) i] by blast
    have "turn (task_at wd t p0 i Sized) p = (p', task_at wd t p0 i Kept)"
      using p'(1) by (simp add: turn_after_then)
    moreover have "transfer_inv wd t p0 (ph(i := Kept)) p'"
      by (rule inv_unmarked [OF inv i um _ p'(2,3)])
         (use p'(4) phases_in_upd [OF i, of ph Kept is_kept] in \<open>simp_all add: phase_defs\<close>)
    ultimately show ?thesis using 3 by auto
  qed
qed

lemma turn_kept:
  assumes "transfer_ok wd t" and inv: "transfer_inv wd t p0 ph p" and i: "i < tr_count t" and ph: "ph i = Kept"
  shows "turn_ok wd t p0 ph p i"
proof -
  let ?M = "phases_in t ph is_marked" and ?n = "{..<tr_count t}"
  have um: "\<not> is_marked (ph i)" using ph by (simp add: phase_defs)
  note b = before_marking [OF inv i um]
  have parts: "same_setting t p0 p" "tr_known t p" "tr_blocks wd t ?M p"
    "tr_requested wd t (phases_in t ph (\<lambda>x. x = Answered)) p"
    using inv by (simp_all add: transfer_inv_def)
  have "?M \<subseteq> ?n" "i \<notin> phases_in t ph (\<lambda>x. x = Answered)" using ph by (auto simp: phases_in_def)
  then obtain p' where p': "mark_block (tr_ids t i) (gc_local_device_id (pr_config p)) p =
      (p', Ok (if insert i ?M = ?n then AllBlocks else BlocksMissing))"
    "same_setting t p p'" "pr_storage p' = pr_storage p" "tr_known t p'" "tr_blocks wd t (insert i ?M) p'"
    "bs_outgoing (pr_state p') = bs_outgoing (pr_state p)"
    using mark_step [OF assms(1) parts(2-4) _ i] by blast
  define x where "x = (if insert i ?M = ?n then Whole else Settled)"
  have conf: "pr_config p = pr_config p0" using parts(1) by (simp add: same_setting_def)
  have "turn (task_at wd t p0 i Kept) p = (p', task_at wd t p0 i x)"
    using p'(1) unfolding conf by (cases "insert i ?M = ?n") (simp_all add: turn_after_then x_def)
  moreover have "transfer_inv wd t p0 (ph(i := x)) p'"
  proof -
    have x: "is_marked x" "is_kept x" "x \<noteq> Answered" "is_concluding x \<longleftrightarrow> insert i ?M = ?n" "is_kept (ph i)"
      "ph i \<noteq> Answered"
      using ph by (auto simp: x_def phase_defs)
    have sets: "phases_in t (ph(i := x)) is_marked = insert i ?M"
      "phases_in t (ph(i := x)) is_concluding = (if is_concluding x then {i} else {})"
      "phases_in t (ph(i := x)) is_kept = phases_in t ph is_kept"
      "phases_in t (ph(i := x)) (\<lambda>y. y = Answered) = phases_in t ph (\<lambda>y. y = Answered)"
      using phases_in_upd [OF i, of ph x is_marked] phases_in_upd [OF i, of ph x is_concluding] b(1)
        phases_in_same [of is_kept x ph i] phases_in_same [of "\<lambda>y. y = Answered" x ph i] x(1-3,5,6) by simp_all
    have w: "tr_written wd t (phases_in t ph is_kept) p'"
      using b(3) p'(2,3) tr_written_cong [of t p' p] by (simp add: same_setting_def)
    have kept: "phases_in t ph is_kept = ?n" if "insert i ?M = ?n"
    proof -
      have "insert i ?M \<subseteq> phases_in t ph is_kept" using i ph by (auto simp: phases_in_def phase_defs)
      then show ?thesis unfolding that by (auto simp: phases_in_def)
    qed
    have "stage wd t p0 x p'" if "insert i ?M = ?n"
      using w kept [OF that] that by (simp add: stage_def x_def)
    moreover have "tr_requested wd t (phases_in t ph (\<lambda>x. x = Answered)) p'"
      using parts(4) p'(6) by (simp add: tr_requested_def)
    ultimately show ?thesis
      using p'(4,5) same_setting_trans [OF parts(1) p'(2)] w
      unfolding transfer_inv_def sets x(4) by (cases "insert i ?M = ?n") auto
  qed
  ultimately show ?thesis
    using ph unfolding turn_ok_def by (intro exI [of _ x] exI [of _ p']) (simp add: x_def)
qed

lemma turn_concluding:
  assumes "transfer_ok wd t" and inv: "transfer_inv wd t p0 ph p" and i: "i < tr_count t" and c: "is_concluding (ph i)"
  shows "turn_ok wd t p0 ph p i"
proof -
  note st = while_concluding(3) [OF inv i c]
  have set: "same_setting t p0 p" and known: "tr_known t p" using inv by (simp_all add: transfer_inv_def)
  have eq: "pr_config p = pr_config p0" "tr_local t p = tr_local t p0" using set by (simp_all add: same_setting_def)
  have step: "turn_ok wd t p0 ph p i"
    if "turn (task_at wd t p0 i (ph i)) p = (p', task_at wd t p0 i x)" "same_setting t p p'"
      "db_files (bs_db (pr_state p')) = db_files (bs_db (pr_state p))"
      "db_blocks (bs_db (pr_state p')) = db_blocks (bs_db (pr_state p))"
      "bs_outgoing (pr_state p') = bs_outgoing (pr_state p)"
      "is_concluding x \<and> stage wd t p0 x p' \<or> x = Settled \<and> received t p0 p'" "sections x \<le> sections (ph i) - 1" for p' x
    using inv_concluding [OF inv i c that(2-6)] that(1,7) unfolding turn_ok_def by blast
  consider "ph i = Whole" | "ph i = Joined" | "ph i = Copied" | "ph i = Located" | "ph i = Unlocated"
    using c by (auto simp: phase_defs)
  then show ?thesis
  proof cases
    case 1
    have "tr_written wd t {..<tr_count t} p" using st 1 by (simp add: stage_def)
    from join_step [OF assms(1) this, of i]
    obtain p' where p': "in_storage (\<lambda>s. conclude_block_storage (wd_hash wd) (wd_os wd) s (tr_request wd t i)
        (length (tr_data t)) (tr_block t)) p = (p', Ok ())" "same_setting t p p'" "pr_state p' = pr_state p"
      "snd (pr_storage p') (tr_local t p) = Some (tr_data t)" by blast
    have "turn (task_at wd t p0 i (ph i)) p = (p', task_at wd t p0 i Joined)"
      using p'(1) 1 by (simp add: conclude_file_def turn_after_then)
    then show ?thesis
      by (rule step) (use p' 1 eq in \<open>simp_all add: stage_def phase_defs\<close>)
  next
    case 2
    have strat: "gc_storage_strategy (pr_config p0) = Remote \<or> gc_storage_strategy (pr_config p0) = LocalRemote"
      using storage_strategy.exhaust by blast
    have "cp_local_to_remote (wd_rclone wd) (fst (pr_storage p)) (tr_folder t) (tr_name t) =
        (Ok (tr_copies t p0) :: (_, processor_error) result)"
      using copy_step [OF assms(1)] tr_copies_cong [OF set] by simp
    then have "turn (task_at wd t p0 i (ph i)) p = (p, task_at wd t p0 i Copied)"
      using 2 strat by (simp add: copy_to_remote_def then_assoc turn_after_then)
    then show ?thesis
      by (rule step) (use st 2 in \<open>simp_all add: stage_def phase_defs same_setting_def\<close>)
  next
    case 3
    obtain p' where p': "on_state (\<lambda>st. update_file_locations st (tr_folder t) (gc_local_device_id (pr_config p)) (tr_name t)
        (tr_copies t p0)) p = (p', Ok ())" "same_setting t p p'" "pr_storage p' = pr_storage p"
      "bs_outgoing (pr_state p') = bs_outgoing (pr_state p)" "db_files (bs_db (pr_state p')) = db_files (bs_db (pr_state p))"
      "db_blocks (bs_db (pr_state p')) = db_blocks (bs_db (pr_state p))" "tr_located t p0 p'"
      using locate_step [OF known set] by blast
    define x where "x = (if gc_storage_strategy (pr_config p0) = Remote then Located else Settled)"
    have "turn (task_at wd t p0 i (ph i)) p = (p', task_at wd t p0 i x)"
      using p'(1) 3 unfolding eq by (simp add: turn_after_then x_def drop_local_def)
    then show ?thesis
      by (rule step)
         (use p' st 3 in \<open>auto simp: x_def stage_def received_def phase_defs\<close>)
  next
    case 4
    have loc: "gc_storage_strategy (pr_config p0) = Remote" "tr_located t p0 p" using st 4 by (simp_all add: stage_def)
    obtain p' where p': "on_state (\<lambda>st. Ok (remove_file_locations st (tr_folder t) (gc_local_device_id (pr_config p0))
        (tr_name t) [''local''])) p = (p', Ok ())" "same_setting t p p'" "pr_storage p' = pr_storage p"
      "bs_outgoing (pr_state p') = bs_outgoing (pr_state p)" "db_files (bs_db (pr_state p')) = db_files (bs_db (pr_state p))"
      "db_blocks (bs_db (pr_state p')) = db_blocks (bs_db (pr_state p))" "tr_located t p0 p'"
      using unlocate_step [OF loc(2)] by blast
    have "turn (task_at wd t p0 i (ph i)) p = (p', task_at wd t p0 i Unlocated)"
      using p'(1) 4 loc(1) by (simp add: turn_after_then drop_local_def)
    then show ?thesis
      by (rule step) (use p' st 4 loc in \<open>simp_all add: stage_def phase_defs\<close>)
  next
    case 5
    have s: "snd (pr_storage p) (tr_local t p) = Some (tr_data t)" "gc_storage_strategy (pr_config p0) = Remote"
      "tr_located t p0 p" using st 5 eq by (simp_all add: stage_def)
    obtain p' where p': "in_storage (\<lambda>(sm, fs). apfst (Pair sm) (rm_local_file (wd_os wd) sm (tr_folder t) (tr_name t) fs)) p
        = (p', Ok ())" "same_setting t p p'" "pr_state p' = pr_state p" "snd (pr_storage p') (tr_local t p) = None"
      using drop_step [OF assms(1) s(1)] by blast
    have "turn (task_at wd t p0 i (ph i)) p = (p', task_at wd t p0 i Settled)"
      using p'(1) 5 by (simp add: turn_after)
    then show ?thesis
      by (rule step) (use p' s 5 eq in \<open>simp_all add: received_def tr_located_def\<close>)
  qed
qed

lemma turn_settled:
  assumes "transfer_ok wd t" and inv: "transfer_inv wd t p0 ph p" and i: "i < tr_count t" and ph: "ph i = Settled"
  shows "turn_ok wd t p0 ph p i"
proof -
  let ?R = "phases_in t ph (\<lambda>x. x = Answered)" and ?ph = "ph(i := Answered)"
  have parts: "same_setting t p0 p" "tr_known t p" "tr_blocks wd t (phases_in t ph is_marked) p" "tr_requested wd t ?R p"
    using inv by (simp_all add: transfer_inv_def)
  have "i \<notin> ?R" using ph by (simp add: phases_in_def)
  from remove_step [OF assms(1) parts(4) i this]
  obtain p' r where p': "in_state (\<lambda>st. bep_remove_request st (tr_ids t i)) p = (p', Ok r)" "same_setting t p p'"
    "pr_storage p' = pr_storage p" "bs_db (pr_state p') = bs_db (pr_state p)" "tr_requested wd t (insert i ?R) p'"
    by blast
  have "turn (task_at wd t p0 i (ph i)) p = (p', task_at wd t p0 i Answered)"
    using p'(1) ph by (simp add: settle_def turn_after_then)
  moreover have "transfer_inv wd t p0 ?ph p'"
  proof -
    have sets: "phases_in t ?ph is_marked = phases_in t ph is_marked" "phases_in t ?ph is_kept = phases_in t ph is_kept"
      "phases_in t ?ph is_concluding = phases_in t ph is_concluding" "phases_in t ?ph (\<lambda>x. x = Answered) = insert i ?R"
      using phases_in_upd [OF i, of ph Answered "\<lambda>x. x = Answered"] ph
      by (simp_all add: phases_in_same phase_defs)
    have key: "tr_key t p' = tr_key t p" using p'(2) by (simp add: same_setting_def tr_key_def)
    have "tr_known t p'" "tr_blocks wd t (phases_in t ph is_marked) p'"
      using parts p'(4) key by (simp_all add: tr_known_def tr_blocks_def)
    moreover have "received t p0 p' = received t p0 p" "stage wd t p0 y p' = stage wd t p0 y p"
      "tr_written wd t W p' = tr_written wd t W p" for y W
      using p'(2-4) tr_written_cong [of t p' p]
      by (simp_all add: received_def stage_def tr_located_def same_setting_def)
    moreover have "?ph j = ph j" if "phases_in t ph is_concluding = {j}" for j
    proof -
      have "is_concluding (ph j)" using that by (auto simp: phases_in_def)
      then show ?thesis using ph by (auto simp: phase_defs)
    qed
    ultimately show ?thesis
      using inv p'(5) same_setting_trans [OF parts(1) p'(2)]
      unfolding transfer_inv_def sets by (auto split: bool.splits)
  qed
  ultimately show ?thesis using ph unfolding turn_ok_def by (intro exI [of _ Answered] exI [of _ p']) simp
qed

lemma turn_any:
  assumes "transfer_ok wd t" and "transfer_inv wd t p0 ph p" and "i < tr_count t"
  shows "turn_ok wd t p0 ph p i"
proof -
  consider "ph i \<in> {Arrived, Asked, Sized}" | "ph i = Kept" | "is_concluding (ph i)" | "ph i = Settled" | "ph i = Answered"
    by (cases "ph i") (simp_all add: phase_defs)
  then show ?thesis
  proof cases
    case 1
    then have "sections (following (ph i)) \<le> sections (ph i) - 1" by auto
    with turn_unmarked [OF assms 1] show ?thesis unfolding turn_ok_def by blast
  next
    case 5
    then have "ph(i := Answered) = ph" by auto
    with 5 assms(2) show ?thesis unfolding turn_ok_def by (intro exI [of _ Answered] exI [of _ p]) simp
  qed (use turn_kept [OF assms] turn_concluding [OF assms] turn_settled [OF assms] in simp_all)
qed

text \<open>Every schedule.\<close>

lemma turns_inv:
  assumes "transfer_ok wd t" and "transfer_inv wd t p0 ph p"
  shows "\<exists>ph' p'. turns is (p, map (\<lambda>i. task_at wd t p0 i (ph i)) [0..<tr_count t]) =
      (p', map (\<lambda>i. task_at wd t p0 i (ph' i)) [0..<tr_count t]) \<and> transfer_inv wd t p0 ph' p' \<and>
    (\<forall>i < tr_count t. sections (ph' i) \<le> sections (ph i) - count_list is i)"
  using assms(2)
proof (induction "is" arbitrary: ph p)
  case (Cons i "is")
  let ?ts = "map (\<lambda>i. task_at wd t p0 i (ph i)) [0..<tr_count t]"
  show ?case
  proof (cases "i < tr_count t")
    case True
    obtain x p1 where x: "turn (task_at wd t p0 i (ph i)) p = (p1, task_at wd t p0 i x)"
      "transfer_inv wd t p0 (ph(i := x)) p1" "sections x \<le> sections (ph i) - 1"
      using turn_any [OF assms(1) Cons.prems True] unfolding turn_ok_def by blast
    have ts: "?ts[i := task_at wd t p0 i x] = map (\<lambda>j. task_at wd t p0 j ((ph(i := x)) j)) [0..<tr_count t]"
      by (rule nth_equalityI) (auto simp: nth_list_update)
    obtain ph' p' where r: "turns is (p1, map (\<lambda>j. task_at wd t p0 j ((ph(i := x)) j)) [0..<tr_count t]) =
        (p', map (\<lambda>i. task_at wd t p0 i (ph' i)) [0..<tr_count t])" "transfer_inv wd t p0 ph' p'"
      "\<forall>j < tr_count t. sections (ph' j) \<le> sections ((ph(i := x)) j) - count_list is j"
      using Cons.IH [OF x(2)] by blast
    have "turns (i # is) (p, ?ts) = (p', map (\<lambda>i. task_at wd t p0 i (ph' i)) [0..<tr_count t])"
      using True x(1) r(1) by (simp add: ts del: fun_upd_apply)
    moreover have "\<forall>j < tr_count t. sections (ph' j) \<le> sections (ph j) - count_list (i # is) j"
      using r(3) x(3) by (fastforce split: if_splits)
    ultimately show ?thesis using r(2) by blast
  next
    case False
    from Cons.IH [OF Cons.prems] obtain ph' p' where
      "turns is (p, ?ts) = (p', map (\<lambda>i. task_at wd t p0 i (ph' i)) [0..<tr_count t])" "transfer_inv wd t p0 ph' p'"
      "\<forall>j < tr_count t. sections (ph' j) \<le> sections (ph j) - count_list is j" by blast
    with False show ?thesis by (intro exI [of _ ph'] exI [of _ p']) auto
  qed
qed auto

section \<open>Properties\<close>

lemma transfer_start:
  assumes "receiving wd t p" and "transfer_ok wd t"
  shows "transfer_inv wd t p (\<lambda>_. Arrived) p"
proof -
  have none: "phases_in t (\<lambda>_. Arrived) is_marked = {}" "phases_in t (\<lambda>_. Arrived) is_kept = {}"
    "phases_in t (\<lambda>_. Arrived) is_concluding = {}" "phases_in t (\<lambda>_. Arrived) (\<lambda>x. x = Answered) = {}"
    by (simp_all add: phases_in_def phase_defs)
  have "{} \<noteq> {..<tr_count t}" using tr_count_iff [of t 0] assms(2) by (auto simp: transfer_ok_def)
  then show ?thesis
    using assms(1) unfolding transfer_inv_def none receiving_def same_setting_def by simp
qed

lemma transfer_end:
  assumes "transfer_inv wd t p0 ph p" and "\<forall>i < tr_count t. ph i = Answered"
  shows "received t p0 p"
proof -
  have "phases_in t ph is_concluding = {}" "phases_in t ph is_marked = {..<tr_count t}"
    using assms(2) by (auto simp: phases_in_def phase_defs)
  with assms(1) show ?thesis by (simp add: transfer_inv_def)
qed


text \<open>One task alone.\<close>

lemma three_turns:
  assumes "transfer_ok wd t" and "transfer_inv wd t p0 (\<lambda>_. Arrived) p" and i: "i < tr_count t"
  shows "\<exists>p'. advance 3 (task_at wd t p0 i Arrived) p = (p', task_at wd t p0 i Kept) \<and>
    transfer_inv wd t p0 ((\<lambda>_. Arrived)(i := Kept)) p'"
proof -
  obtain p1 where p1: "turn (task_at wd t p0 i Arrived) p = (p1, task_at wd t p0 i Asked)"
    "transfer_inv wd t p0 ((\<lambda>_. Arrived)(i := Asked)) p1"
    using turn_unmarked [OF assms] by auto
  obtain p2 where p2: "turn (task_at wd t p0 i Asked) p1 = (p2, task_at wd t p0 i Sized)"
    "transfer_inv wd t p0 ((\<lambda>_. Arrived)(i := Sized)) p2"
    using turn_unmarked [OF assms(1) p1(2) i] by auto
  obtain p3 where "turn (task_at wd t p0 i Sized) p2 = (p3, task_at wd t p0 i Kept)"
    "transfer_inv wd t p0 ((\<lambda>_. Arrived)(i := Kept)) p3"
    using turn_unmarked [OF assms(1) p2(2) i] by auto
  with p1(1) p2(1) show ?thesis by (simp add: numeral_3_eq_3 del: task_at.simps)
qed

lemma all_turns:
  assumes "transfer_ok wd t" and "transfer_inv wd t p0 ph p" and i: "i < tr_count t" and "sections (ph i) \<le> n"
  shows "\<exists>p'. advance n (task_at wd t p0 i (ph i)) p = (p', task_at wd t p0 i Answered) \<and>
    transfer_inv wd t p0 (ph(i := Answered)) p'"
  using assms(2,4)
proof (induction n arbitrary: ph p)
  case 0
  then have "ph i = Answered" by (cases "ph i") simp_all
  moreover from this have "ph(i := Answered) = ph" by auto
  ultimately show ?case using 0 by simp
next
  case (Suc n)
  obtain x p1 where x: "turn (task_at wd t p0 i (ph i)) p = (p1, task_at wd t p0 i x)"
    "transfer_inv wd t p0 (ph(i := x)) p1" "sections x \<le> sections (ph i) - 1"
    using turn_any [OF assms(1) Suc.prems(1) i] unfolding turn_ok_def by blast
  have "sections ((ph(i := x)) i) \<le> n" using x(3) Suc.prems(2) by simp
  from Suc.IH [OF x(2) this] x(1) show ?case by (simp del: task_at.simps fun_upd_apply) simp
qed

text \<open>A chunk on disk does no harm to a transfer that does not count on it.\<close>

lemma tr_written_mono:
  assumes "V \<subseteq> W" and "tr_written wd t W p"
  shows "tr_written wd t V p"
proof -
  have ne: "V \<noteq> {} \<Longrightarrow> W \<noteq> {}" using assms(1) by blast
  obtain w where "writer_for (wd_hash wd) (fst (pr_storage p)) (tr_request wd t 0) (length (tr_data t)) (tr_block t) w"
    "has_parent (tr_local t p)" "\<forall>i \<in> W. snd (pr_storage p) (chunk_path w i) = Some (tr_piece t i)"
    "W \<noteq> {} \<longrightarrow> map_of (sm_file_writers (fst (pr_storage p))) (rel_path (tr_folder t) (tr_name t)) \<noteq> None"
    using assms(2) unfolding tr_written_def by blast
  with ne assms(1) show ?thesis unfolding tr_written_def by (intro exI [of _ w]) blast
qed

lemma forget_kept:
  assumes "transfer_inv wd t p0 (ph(i := Kept)) p" and i: "i < tr_count t"
  shows "transfer_inv wd t p0 (ph(i := Arrived)) p"
proof -
  let ?k = "ph(i := Kept)" and ?a = "ph(i := Arrived)"
  have k: "phases_in t ?a P = phases_in t ?k P" if "P Arrived = P Kept" for P
    using that phases_in_upd [OF i, of ph] by simp
  have sets: "phases_in t ?a is_marked = phases_in t ?k is_marked" "phases_in t ?a is_concluding = phases_in t ?k is_concluding"
    "phases_in t ?a (\<lambda>x. x = Answered) = phases_in t ?k (\<lambda>x. x = Answered)"
    using k [of is_marked] k [of is_concluding] k [of "\<lambda>x. x = Answered"] by (simp_all add: phase_defs)
  have "phases_in t ?a is_kept \<subseteq> phases_in t ?k is_kept" by (auto simp: phases_in_def phase_defs)
  then have "tr_written wd t (phases_in t ?k is_kept) p \<Longrightarrow> tr_written wd t (phases_in t ?a is_kept) p"
    by (rule tr_written_mono)
  with before_marking [OF assms(1) i] assms(1) show ?thesis
    unfolding transfer_inv_def sets by (simp add: phase_defs)
qed

text \<open>
  Claim C38. A response that arrives twice: its second task can find the request before the first task has removed it, and
  then panics when it marks the block.
\<close>

theorem duplicate_response_panics:
  assumes "transfer_ok wd t" and "receiving wd t p" and "i < tr_count t"
  shows "\<exists>schedule p'. turns schedule (p, replicate 2 (message_task wd (pr_config p) (Response (tr_response t i)) client)) =
    (p', [Return (Ok [Ok RequestProcessed]), Return Panic])"
proof -
  let ?T = "\<lambda>x. task_at wd t p i x"
  obtain p1 where p1: "turns (replicate 3 1) (p, [?T Arrived, ?T Arrived]) = (p1, [?T Arrived, ?T Kept])"
    "transfer_inv wd t p ((\<lambda>_. Arrived)(i := Kept)) p1"
    using three_turns [OF assms(1) transfer_start [OF assms(2,1)] assms(3)] by (auto simp: turns_replicate)
  have "transfer_inv wd t p (\<lambda>_. Arrived) p1"
    using forget_kept [OF p1(2) assms(3)] by (simp add: fun_upd_def)
  from all_turns [OF assms(1) this assms(3), of 10]
  obtain p2 where p2: "turns (replicate 10 0) (p1, [?T Arrived, ?T Kept]) = (p2, [?T Answered, ?T Kept])"
    "transfer_inv wd t p ((\<lambda>_. Arrived)(i := Answered)) p2"
    by (auto simp: turns_replicate)
  have "tr_requested wd t {i} p2"
    using p2(2) phases_in_upd [OF assms(3), of "\<lambda>_. Arrived" Answered "\<lambda>x. x = Answered"]
    by (simp add: transfer_inv_def phases_in_def [of _ "\<lambda>_. Arrived"])
  then have "get_request (bs_outgoing (pr_state p2)) (tr_ids t i) = None"
    using assms(3) by (auto simp: tr_requested_def abs_queue_def get_request_def split: option.splits)
  then have "turn (?T Kept) p2 = (p2, Return Panic)"
    by (simp add: turn_after_panic mark_block_def in_state_def update_block_storage_state_def settle_def)
  then have "turns [1] (p2, [?T Answered, ?T Kept]) = (p2, [Return (Ok [Ok RequestProcessed]), Return Panic])" by simp
  then have "turns (replicate 3 1 @ replicate 10 0 @ [1]) (p, [?T Arrived, ?T Arrived]) =
      (p2, [Return (Ok [Ok RequestProcessed]), Return Panic])"
    using p1(1) p2(1) by (simp only: turns_append)
  then show ?thesis by (intro exI [of _ "replicate 3 1 @ replicate 10 0 @ [1]"] exI [of _ p2]) (simp add: numeral_2_eq_2)
qed

definition sample_transfer :: transfer where
  "sample_transfer = \<lparr>tr_folder = ''f'', tr_name = ''a'', tr_data = [1, 2, 3, 4, 5], tr_block = 5, tr_ids = \<lambda>_. 1\<rparr>"

definition sent_state :: bep_state where
  "sent_state = (sample_state 5 [sample_block 0])\<lparr>bs_outgoing := mark_sent small_queue [small_request]\<rparr>"

lemma sample_count: "tr_count sample_transfer = 1"
  by (simp add: tr_count_def sample_transfer_def)

lemma sample_piece: "tr_piece sample_transfer 0 = [1, 2, 3, 4, 5]"
  by (simp add: tr_piece_def piece_def sample_transfer_def)

lemma sample_tr_request: "tr_request sample_world sample_transfer 0 = small_request"
  by (simp add: tr_request_def small_request_def sample_piece) (simp add: sample_transfer_def sample_world_def)

lemma sample_receiving: "receiving sample_world sample_transfer (sample_processor sent_state)"
proof -
  let ?p = "sample_processor sent_state" and ?t = sample_transfer
  have key: "tr_key ?t ?p = (''f'', sample_device, ''a'')"
    by (simp add: tr_key_def sample_transfer_def sample_processor_def sample_config_def)
  have db: "bs_db (pr_state ?p) = sample_db 5 [sample_block 0]"
    by (simp add: sample_processor_def sent_state_def sample_state_def bep_state_new_def)
  have known: "tr_known ?t ?p"
    unfolding tr_known_def key db by (simp add: sample_state_defs sample_transfer_def)
  have blocks: "tr_blocks sample_world ?t {} ?p"
    unfolding tr_blocks_def key db
    by (intro exI [of _ "\<lambda>_. sample_block 0"])
       (simp add: sample_count block_rows_def sample_state_defs sample_world_def)
  have wf: "queue_wf small_queue" using queue_run_limits [OF small_queue_run] by (simp add: queue_limits_def)
  have q: "bs_outgoing (pr_state ?p) = mark_sent small_queue [small_request]"
    by (simp add: sample_processor_def sent_state_def)
  have "\<forall>r \<in> set [small_request]. \<exists>i. requests_by_id small_queue i = Some r"
    by (auto simp: small_queue_def intro!: exI [of _ 1])
  from mark_sent_wf [OF wf this] have req: "tr_requested sample_world ?t {} ?p"
    unfolding tr_requested_def q
    by (simp add: sample_count sample_tr_request)
       (simp add: abs_queue_def mark_sent_def small_queue_def sample_transfer_def)
  have "tr_written sample_world ?t {} ?p"
    unfolding tr_written_def sample_tr_request
    by (simp add: writer_for_def file_writer_new_def tr_local_def sample_processor_def sample_transfer_def
        small_request_def local_path_def rel_path_def sample_manager_def sample_config_def has_parent_def)
  with known blocks req show ?thesis by (simp add: receiving_def)
qed


theorem duplicate_response_panics_witness:
  "\<exists>schedule p'. turns schedule (sample_processor sent_state,
      replicate 2 (message_task sample_world sample_config (Response (tr_response sample_transfer 0)) sample_device)) =
    (p', [Return (Ok [Ok RequestProcessed]), Return Panic])"
proof -
  have "transfer_ok sample_world sample_transfer"
    unfolding transfer_ok_def sample_count by (simp add: sample_transfer_def sample_world_def inj_on_def)
  from duplicate_response_panics [OF this sample_receiving, of 0 sample_device] show ?thesis
    by (simp add: sample_count sample_processor_def)
qed

end
