(* ===== verification/File_Tree.thy ===== *)
theory File_Tree
  imports Fuse "HOL-Library.Sublist"
begin

text \<open>
  The tree of the file system against the database: where an insertion changes the tree, the
  invariant that every node has an address of its own, the queue of the refresh with its end and
  its endless loop, and what the handlers show after a refresh.

  The tree is seen as a map from paths to labels (\<open>label_at\<close>); \<open>put_node\<close> says what an insertion does
  to that map, and the proofs on the loops use nothing else of the tree.
\<close>

section \<open>Paths in the tree\<close>

text \<open>What a node is, without its children, and the node that a path leads to.\<close>

definition node_label :: "fs_node \<Rightarrow> nat \<times> nat \<times> grizol_fs_file_type" where
  "node_label n = (node_addr n, node_id n, node_type n)"

definition label_at :: "fs_node \<Rightarrow> string list \<Rightarrow> (nat \<times> nat \<times> grizol_fs_file_type) option" where
  "label_at t p = map_option node_label (walk t p)"

lemma walk_append: "walk t (p @ q) = (case walk t p of None \<Rightarrow> None | Some n \<Rightarrow> walk n q)"
  by (induction t p rule: walk.induct) (auto split: option.splits)

lemma label_at_prefix: "label_at t (p @ q) \<noteq> None \<Longrightarrow> label_at t p \<noteq> None"
  by (auto simp: label_at_def walk_append split: option.splits)

lemma label_at_Nil [simp]: "label_at t [] = Some (node_label t)"
  by (simp add: label_at_def)

lemma label_at_Cons: "label_at t (x # q) = (case map_of (children t) x of None \<Rightarrow> None | Some c \<Rightarrow> label_at c q)"
  by (simp add: label_at_def split: option.split)

lemma insert_at_eq_None: "insert_at ps name new t = None \<longleftrightarrow> walk t ps = None"
  by (induction ps name new t rule: insert_at.induct) (auto split: option.splits)

lemma insert_at_label: "insert_at ps name new t = Some t' \<Longrightarrow> node_label t' = node_label t"
  by (cases "(ps, name, new, t)" rule: insert_at.cases) (auto simp: node_label_def split: option.splits)

lemma label_at_insert_at:
  assumes "insert_at ps name new t = Some t'" and "children new = []"
  shows "label_at t' q =
    (if q = ps @ [name] then Some (node_label new) else if prefix (ps @ [name]) q then None else label_at t q)"
  using assms
proof (induction ps name new t arbitrary: t' q rule: insert_at.induct)
  case (1 name new a i t cs)
  show ?case
  proof (cases q)
    case Nil
    with 1 show ?thesis by (auto simp: node_label_def)
  next
    case (Cons x q')
    with 1 show ?thesis
      by (cases q') (auto simp: label_at_Cons update_conv' split: option.split if_splits)
  qed
next
  case (2 p ps name new a i t cs)
  obtain c c' where c: "map_of cs p = Some c" "insert_at ps name new c = Some c'"
    and t': "t' = FsNode a i t (AList.update p c' cs)"
    using 2(2) by (auto split: option.splits)
  show ?case
  proof (cases q)
    case Nil
    with t' show ?thesis by (auto simp: node_label_def)
  next
    case (Cons x q')
    with 2(1) [OF c 2(3)] c t' show ?thesis
      by (auto simp: label_at_Cons update_conv' split: option.split)
  qed
qed

lemma update_entries: "c \<in> set (AList.update k v cs) \<Longrightarrow> c = (k, v) \<or> c \<in> set cs"
  by (induction cs) (auto split: if_splits)

fun tree_wf :: "fs_node \<Rightarrow> bool" where
  "tree_wf (FsNode a i t cs) \<longleftrightarrow> distinct (map fst cs) \<and> (\<forall>c \<in> set cs. tree_wf (snd c))"

lemma tree_wf_insert_at:
  assumes "insert_at ps name new t = Some t'" and "tree_wf t" and "tree_wf new"
  shows "tree_wf t'"
  using assms
proof (induction ps name new t arbitrary: t' rule: insert_at.induct)
  case (1 name new a i t cs)
  then show ?case
    by (auto simp: distinct_update dest!: update_entries)
next
  case (2 p ps name new a i t cs)
  then show ?case
    by (auto simp: distinct_update split: option.splits dest!: update_entries map_of_SomeD)
       fastforce+
qed

lemma tree_nodes_walk:
  assumes "tree_wf t"
  shows "n \<in> set (tree_nodes t) \<longleftrightarrow> (\<exists>p. walk t p = Some n)"
  using assms
proof (induction t rule: tree_wf.induct)
  case (1 a i t cs)
  have "(\<exists>p. walk (FsNode a i t cs) p = Some n) \<longleftrightarrow>
      n = FsNode a i t cs \<or> (\<exists>x c p. map_of cs x = Some c \<and> walk c p = Some n)"
  proof (intro iffI)
    assume "\<exists>p. walk (FsNode a i t cs) p = Some n"
    then obtain p where "walk (FsNode a i t cs) p = Some n" ..
    then show "n = FsNode a i t cs \<or> (\<exists>x c p. map_of cs x = Some c \<and> walk c p = Some n)"
      by (cases p) (auto split: option.splits)
  next
    assume "n = FsNode a i t cs \<or> (\<exists>x c p. map_of cs x = Some c \<and> walk c p = Some n)"
    then show "\<exists>p. walk (FsNode a i t cs) p = Some n"
    proof (elim disjE exE conjE)
      assume "n = FsNode a i t cs"
      then show ?thesis by (intro exI [of _ "[]"]) simp
    next
      fix x c p
      assume "map_of cs x = Some c" "walk c p = Some n"
      then show ?thesis by (intro exI [of _ "x # p"]) simp
    qed
  qed
  also have "\<dots> \<longleftrightarrow> n = FsNode a i t cs \<or> (\<exists>c \<in> set cs. \<exists>p. walk (snd c) p = Some n)"
    using 1(2) by (metis (no_types, lifting) map_of_SomeD map_of_is_SomeI prod.collapse snd_conv tree_wf.simps)
  finally show ?case
    using 1 by auto
qed

section \<open>Invariant of the tree\<close>

abbreviation mem_label :: "fs_mem \<Rightarrow> string list \<Rightarrow> (nat \<times> nat \<times> grizol_fs_file_type) option" where
  "mem_label m \<equiv> label_at (fm_root m)"

text \<open>Every address is used once and below the next one.\<close>

definition mem_wf :: "fs_mem \<Rightarrow> bool" where
  "mem_wf m \<longleftrightarrow> tree_wf (fm_root m) \<and>
     (\<forall>p l. mem_label m p = Some l \<longrightarrow> fst l < fm_next m) \<and>
     (\<forall>p q l k. mem_label m p = Some l \<longrightarrow> mem_label m q = Some k \<longrightarrow> fst l = fst k \<longrightarrow> p = q)"

lemma mem_wf_new: "mem_wf fs_mem_new"
proof -
  have "mem_label fs_mem_new p = Some l \<Longrightarrow> p = [] \<and> fst l = 0" for p l
    by (cases p) (auto simp: fs_mem_new_def label_at_Cons node_label_def)
  then show ?thesis
    unfolding mem_wf_def by (auto simp: fs_mem_new_def) metis+
qed

lemma upgrade_alive:
  assumes "mem_wf m" and "mem_label m p = Some l"
  shows "\<exists>n. upgrade m (fst l) = Some n \<and> walk (fm_root m) p = Some n \<and> node_label n = l"
proof -
  obtain n where n: "walk (fm_root m) p = Some n" "node_label n = l"
    using assms(2) by (auto simp: label_at_def)
  have wf: "tree_wf (fm_root m)" using assms(1) by (simp add: mem_wf_def)
  have "n \<in> set (tree_nodes (fm_root m))" using tree_nodes_walk [OF wf] n(1) by blast
  then obtain k where k: "upgrade m (fst l) = Some k"
    using n(2) by (cases "upgrade m (fst l)") (auto simp: upgrade_def find_None_iff node_label_def)
  then have "k \<in> set (tree_nodes (fm_root m))" and a: "node_addr k = fst l"
    by (auto simp: upgrade_def dest!: find_SomeD)
  then obtain q where q: "walk (fm_root m) q = Some k" using tree_nodes_walk [OF wf] by blast
  then have "mem_label m q = Some (node_label k)" by (simp add: label_at_def)
  then have "q = p"
    using assms a unfolding mem_wf_def by (metis fst_conv node_label_def)
  with q n k show ?thesis by simp
qed

lemma upgrade_dead:
  assumes "mem_wf m" and "\<And>p l. mem_label m p = Some l \<Longrightarrow> fst l \<noteq> a"
  shows "upgrade m a = None"
proof (rule ccontr)
  assume "upgrade m a \<noteq> None"
  then obtain n where "n \<in> set (tree_nodes (fm_root m))" "node_addr n = a"
    by (auto simp: upgrade_def dest!: find_SomeD)
  moreover have "tree_wf (fm_root m)" using assms(1) by (simp add: mem_wf_def)
  ultimately obtain p where "walk (fm_root m) p = Some n" using tree_nodes_walk by blast
  then have "mem_label m p = Some (node_label n)" by (simp add: label_at_def)
  from assms(2) [OF this] \<open>node_addr n = a\<close> show False by (simp add: node_label_def)
qed

text \<open>Both insertions put a new node without children at a path whose parent is there.\<close>

definition put_node :: "string list \<Rightarrow> nat \<Rightarrow> grizol_fs_file_type \<Rightarrow> fs_mem \<Rightarrow> fs_mem \<Rightarrow> bool" where
  "put_node p i ty m m' \<longleftrightarrow>
     p \<noteq> [] \<and> mem_label m (butlast p) \<noteq> None \<and>
     (\<forall>q. mem_label m' q =
        (if q = p then Some (fm_next m, i, ty) else if prefix p q then None else mem_label m q)) \<and>
     fm_nodes m' = (fm_nodes m)(i \<mapsto> fm_next m) \<and> fm_next m' = fm_next m + 1 \<and>
     (tree_wf (fm_root m) \<longrightarrow> tree_wf (fm_root m'))"

lemma put_node_wf [wf_intros]:
  assumes "put_node p i ty m m'" and "mem_wf m"
  shows "mem_wf m'"
proof -
  have old: "mem_label m' q = Some l \<Longrightarrow> q = p \<and> fst l = fm_next m \<or> mem_label m q = Some l" for q l
    using assms(1) unfolding put_node_def by (metis fst_conv option.distinct(1) option.inject)
  have below: "mem_label m q = Some l \<Longrightarrow> fst l < fm_next m" for q l
    using assms(2) unfolding mem_wf_def by blast
  have "q = r" if "mem_label m' q = Some l" "mem_label m' r = Some k" "fst l = fst k" for q r l k
    using old [OF that(1)] old [OF that(2)] below [of q l] below [of r k] that(3) assms(2)
    unfolding mem_wf_def by (metis less_irrefl)
  moreover have "fst l < fm_next m'" if "mem_label m' q = Some l" for q l
    using old [OF that] below [of q l] assms(1) unfolding put_node_def by linarith
  moreover have "tree_wf (fm_root m')" using assms by (simp add: put_node_def mem_wf_def)
  ultimately show ?thesis unfolding mem_wf_def by blast
qed

lemma put_node_insert_at:
  assumes "insert_at ps name (FsNode (fm_next m) i ty []) (fm_root m) = Some root"
    and "m' = m\<lparr>fm_root := root, fm_nodes := (fm_nodes m)(i \<mapsto> fm_next m), fm_next := fm_next m + 1\<rparr>"
  shows "put_node (ps @ [name]) i ty m m'"
proof -
  have "walk (fm_root m) ps \<noteq> None" using assms(1) insert_at_eq_None by (metis option.distinct(1))
  then show ?thesis
    using assms(2) label_at_insert_at [OF assms(1)] tree_wf_insert_at [OF assms(1)]
    by (simp add: put_node_def node_label_def label_at_def [of "fm_root m" ps])
qed

definition folder_ino :: "grizol_folder \<Rightarrow> nat" where
  "folder_ino f = gfo_id f + top_dirs_start"

definition file_ino :: "grizol_file_info \<Rightarrow> nat" where
  "file_ino f = gfi_id f + entries_start"

definition folder_id_ok :: "grizol_folder \<Rightarrow> bool" where
  "folder_id_ok f \<longleftrightarrow> folder_ino f < entries_start"

definition file_id_ok :: "grizol_file_info \<Rightarrow> bool" where
  "file_id_ok f \<longleftrightarrow> file_ino f < 2 ^ 64"

lemma top_dir_id_ok [simp]: "folder_id_ok f \<Longrightarrow> top_dir_id (int (gfo_id f)) = Ok (folder_ino f)"
  by (simp add: folder_id_ok_def top_dir_id_def folder_ino_def entries_start_def top_dirs_start_def
      nat_mod_distrib zmod_int [symmetric])

lemma entry_id_ok [simp]: "file_id_ok f \<Longrightarrow> entry_id (int (gfi_id f)) = Ok (file_ino f)"
  by (simp add: file_id_ok_def entry_id_def file_ino_def entries_start_def zmod_int [symmetric])

lemma fs_insert_folder_ok:
  assumes "folder_id_ok f"
  shows "\<exists>m'. fs_insert_folder f m = Ok m' \<and> put_node [fol_id (gfo_folder f)] (folder_ino f) (Folder f) m m'"
proof -
  let ?n = "FsNode (fm_next m) (folder_ino f) (Folder f) []"
  obtain root where r: "insert_at [] (fol_id (gfo_folder f)) ?n (fm_root m) = Some root"
    by (cases "fm_root m") auto
  with assms put_node_insert_at [OF r refl] show ?thesis
    by (simp add: fs_insert_folder_def)
qed

lemma components_not_Nil [simp]: "components acc s \<noteq> []"
  by (induction acc s rule: components.induct) auto

lemma split_path_not_Nil [simp]: "split_path f \<noteq> []" "butlast (split_path f) \<noteq> []"
  by (simp_all add: split_path_def)

lemma fs_insert_file_cases:
  assumes "file_id_ok f"
  shows "if mem_label m (butlast (split_path f)) = None then fs_insert_file f m = Err (NoParent f)
    else \<exists>m'. fs_insert_file f m = Ok m' \<and> put_node (split_path f) (file_ino f) (File f) m m'"
proof (cases "walk (fm_root m) (butlast (split_path f))")
  case None
  then show ?thesis by (simp add: label_at_def fs_insert_file_def)
next
  case (Some n)
  let ?n = "FsNode (fm_next m) (file_ino f) (File f) []"
  obtain root where r: "insert_at (butlast (split_path f)) (last (split_path f)) ?n (fm_root m) = Some root"
    using Some by (cases "insert_at (butlast (split_path f)) (last (split_path f)) ?n (fm_root m)")
      (auto simp: insert_at_eq_None)
  with assms Some put_node_insert_at [OF r refl] show ?thesis
    by (simp add: fs_insert_file_def label_at_def)
qed

section \<open>Loading the files\<close>

text \<open>Files of different paths and numbers, none of which is in the tree yet.\<close>

definition loadable :: "fs_mem \<Rightarrow> grizol_file_info list \<Rightarrow> bool" where
  "loadable m files \<longleftrightarrow> mem_wf m \<and> distinct (map split_path files) \<and> distinct (map gfi_id files) \<and>
     (\<forall>f \<in> set files. file_id_ok f \<and> mem_label m (split_path f) = None)"

text \<open>Every file has its parent in the tree or among the files.\<close>

definition parents_present :: "fs_mem \<Rightarrow> grizol_file_info list \<Rightarrow> bool" where
  "parents_present m files \<longleftrightarrow>
     (\<forall>f \<in> set files. mem_label m (butlast (split_path f)) \<noteq> None \<or>
        butlast (split_path f) \<in> split_path ` set files)"

text \<open>The tree afterwards: the nodes it had, and a node for each of the files.\<close>

definition loaded :: "fs_mem \<Rightarrow> grizol_file_info list \<Rightarrow> fs_mem \<Rightarrow> bool" where
  "loaded m files m' \<longleftrightarrow> mem_wf m' \<and>
     (\<forall>q. q \<notin> split_path ` set files \<longrightarrow> mem_label m' q = mem_label m q) \<and>
     (\<forall>i. i \<notin> file_ino ` set files \<longrightarrow> fm_nodes m' i = fm_nodes m i) \<and>
     (\<forall>f \<in> set files. \<exists>a \<ge> fm_next m. mem_label m' (split_path f) = Some (a, file_ino f, File f) \<and>
        fm_nodes m' (file_ino f) = Some a)"

lemma put_node_fresh:
  assumes "put_node p i ty m m'" and "mem_label m p = None"
  shows "mem_label m' = (mem_label m)(p \<mapsto> (fm_next m, i, ty))"
proof
  fix q
  have "prefix p q \<Longrightarrow> mem_label m q = None"
    using assms(2) label_at_prefix [of "fm_root m" p] by (metis prefixE)
  then show "mem_label m' q = ((mem_label m)(p \<mapsto> (fm_next m, i, ty))) q"
    using assms(1) by (auto simp: put_node_def)
qed

lemma load_put:
  assumes "loadable m (f # files)" and "put_node (split_path f) (file_ino f) (File f) m m1"
  shows "loadable m1 files" "loaded m1 files m' \<Longrightarrow> loaded m (f # files) m'"
    "mem_label m1 = (mem_label m)(split_path f \<mapsto> (fm_next m, file_ino f, File f))"
proof -
  have lab: "mem_label m1 = (mem_label m)(split_path f \<mapsto> (fm_next m, file_ino f, File f))"
    and nodes: "fm_nodes m1 = (fm_nodes m)(file_ino f \<mapsto> fm_next m)"
    using assms put_node_fresh [OF assms(2)] by (auto simp: loadable_def put_node_def)
  have new: "split_path f \<notin> split_path ` set files" "file_ino f \<notin> file_ino ` set files"
    using assms(1) by (auto simp: loadable_def file_ino_def)
  then have "split_path g \<noteq> split_path f" if "g \<in> set files" for g
    using that by (metis imageI)
  then show "loadable m1 files"
    using assms put_node_wf [OF assms(2)] by (auto simp: loadable_def lab)
  assume l: "loaded m1 files m'"
  then have "mem_label m' (split_path f) = Some (fm_next m, file_ino f, File f)"
    "fm_nodes m' (file_ino f) = Some (fm_next m)"
    using new by (simp_all add: loaded_def lab nodes)
  moreover have "\<exists>a \<ge> fm_next m. mem_label m' (split_path g) = Some (a, file_ino g, File g) \<and>
      fm_nodes m' (file_ino g) = Some a" if "g \<in> set files" for g
  proof -
    have "fm_next m1 = fm_next m + 1" using assms(2) by (simp add: put_node_def)
    then show ?thesis
      using l that unfolding loaded_def by (metis add_leE)
  qed
  ultimately show "loaded m (f # files) m'"
    using l by (simp add: loaded_def lab nodes)
next
  show "mem_label m1 = (mem_label m)(split_path f \<mapsto> (fm_next m, file_ino f, File f))"
    using assms put_node_fresh [OF assms(2)] by (auto simp: loadable_def)
qed

lemma load_files_Nil [simp]: "load_files [] m = Some (Ok m)"
  by (simp add: load_files.simps)

lemma load_files_wait:
  assumes "file_id_ok f" and "mem_label m (butlast (split_path f)) = None"
  shows "load_files (f # files) m = load_files (files @ [f]) m"
  using fs_insert_file_cases [OF assms(1), of m] assms(2)
  by (subst load_files.simps) simp

lemma load_files_insert:
  assumes "file_id_ok f" and "mem_label m (butlast (split_path f)) \<noteq> None"
  obtains m' where "put_node (split_path f) (file_ino f) (File f) m m'" "load_files (f # files) m = load_files files m'"
  using fs_insert_file_cases [OF assms(1), of m] assms(2) that
  by (subst (asm) (2) load_files.simps) auto

lemma load_files_rotate:
  assumes "\<And>f. f \<in> set xs \<Longrightarrow> file_id_ok f \<and> mem_label m (butlast (split_path f)) = None"
  shows "load_files (xs @ ys) m = load_files (ys @ xs) m"
  using assms
proof (induction xs arbitrary: ys)
  case (Cons x xs)
  have "load_files ((x # xs) @ ys) m = load_files (xs @ (ys @ [x])) m"
    using load_files_wait [of x m "xs @ ys"] Cons.prems by simp
  also have "\<dots> = load_files ((ys @ [x]) @ xs) m"
    using Cons.prems by (intro Cons.IH) simp
  finally show ?case by simp
qed simp

lemma loadable_mset:
  "set xs = set ys \<Longrightarrow> distinct (map split_path xs) = distinct (map split_path ys) \<Longrightarrow>
   distinct (map gfi_id xs) = distinct (map gfi_id ys) \<Longrightarrow> loadable m xs = loadable m ys"
  by (simp add: loadable_def)

lemma insertable_file_exists:
  assumes "parents_present m files" and "files \<noteq> []"
  shows "\<exists>f \<in> set files. mem_label m (butlast (split_path f)) \<noteq> None"
proof -
  obtain f where f: "f \<in> set files" "\<And>g. g \<in> set files \<Longrightarrow> length (split_path f) \<le> length (split_path g)"
    using assms(2) ex_has_least_nat [of "\<lambda>f. f \<in> set files" "hd files" "\<lambda>f. length (split_path f)"] by auto
  have "butlast (split_path f) \<notin> split_path ` set files"
  proof
    assume "butlast (split_path f) \<in> split_path ` set files"
    then obtain g where g: "g \<in> set files" "split_path g = butlast (split_path f)" by auto
    moreover have "split_path f \<noteq> []" by simp
    ultimately show False using f(2) [OF g(1)] by (cases "split_path f" rule: rev_cases) auto
  qed
  then show ?thesis using assms(1) f(1) unfolding parents_present_def by blast
qed

lemma load_files_returns:
  assumes "loadable m files" and "parents_present m files"
  shows "\<exists>m'. load_files files m = Some (Ok m') \<and> loaded m files m'"
  using assms
proof (induction "length files" arbitrary: files m)
  case 0
  then show ?case by (auto simp: loaded_def loadable_def)
next
  case (Suc n)
  let ?waits = "\<lambda>f. mem_label m (butlast (split_path f)) = None"
  obtain xs f ys where s: "files = xs @ f # ys" "\<not> ?waits f" "\<And>x. x \<in> set xs \<Longrightarrow> ?waits x"
    using insertable_file_exists [OF Suc.prems(2)] Suc.hyps(2) split_list_first_prop [of files "\<lambda>f. \<not> ?waits f"]
    by (metis length_0_conv nat.distinct(1))
  have l: "loadable m (f # ys @ xs)"
    using Suc.prems(1) s(1) by (subst loadable_mset [of _ files]) auto
  then have "file_id_ok f" by (simp add: loadable_def)
  then obtain m1 where m1: "put_node (split_path f) (file_ino f) (File f) m m1"
    "load_files (f # ys @ xs) m = load_files (ys @ xs) m1"
    using load_files_insert [of f m "ys @ xs"] s(2) by blast
  have "load_files files m = load_files (ys @ xs) m1"
    using load_files_rotate [of xs m "f # ys"] s Suc.prems(1) m1(2) by (simp add: loadable_def)
  moreover have "parents_present m1 (ys @ xs)"
    using Suc.prems(2) load_put(3) [OF l m1(1)] by (auto simp: parents_present_def s(1) image_Un)
  ultimately obtain m' where m': "load_files files m = Some (Ok m')" "loaded m1 (ys @ xs) m'"
    using Suc.hyps(1) [of "ys @ xs" m1] Suc.hyps(2) load_put(1) [OF l m1(1)] s(1) by auto
  have "loaded m (f # ys @ xs) m'" by (rule load_put(2) [OF l m1(1) m'(2)])
  then have "loaded m files m'" by (simp add: loaded_def s(1)) blast
  with m'(1) show ?case by blast
qed

lemma load_files_all:
  assumes "load_files files m = Some r" and "loadable m files"
  shows "\<exists>m'. r = Ok m' \<and> loaded m files m'"
proof -
  have "loadable m files \<longrightarrow> (\<exists>m'. r = Ok m' \<and> loaded m files m')"
  proof (rule load_files.raw_induct [OF _ assms(1)], intro impI)
    fix load files m r
    assume 1: "\<And>files m r. load files m = Some r \<Longrightarrow> loadable m files \<longrightarrow> (\<exists>m'. r = Ok m' \<and> loaded m files m')"
      "(case files of [] \<Rightarrow> Some (Ok m)
        | f # files \<Rightarrow> (case fs_insert_file f m of
            Ok m \<Rightarrow> load files m
          | Err e \<Rightarrow> load (files @ [case e of NoParent f \<Rightarrow> f]) m
          | Panic \<Rightarrow> Some Panic)) = Some r" "loadable m files"
    show "\<exists>m'. r = Ok m' \<and> loaded m files m'"
    proof (cases files)
      case Nil
      with 1 show ?thesis by (auto simp: loaded_def loadable_def)
    next
      case (Cons f fs)
      have ok: "file_id_ok f" using 1(3) by (simp add: Cons loadable_def)
      show ?thesis
      proof (cases "mem_label m (butlast (split_path f)) = None")
        case True
        then have "load (fs @ [f]) m = Some r"
          using 1(2) fs_insert_file_cases [OF ok, of m] by (simp add: Cons)
        moreover have "loadable m (fs @ [f])"
          using 1(3) unfolding Cons by (subst loadable_mset [of _ "f # fs"]) auto
        ultimately have "\<exists>m'. r = Ok m' \<and> loaded m (fs @ [f]) m'" using 1(1) by blast
        then show ?thesis by (auto simp: Cons loaded_def)
      next
        case False
        then obtain m1 where m1: "fs_insert_file f m = Ok m1" "put_node (split_path f) (file_ino f) (File f) m m1"
          using fs_insert_file_cases [OF ok, of m] by auto
        have "load fs m1 = Some r" using 1(2) m1(1) by (simp add: Cons)
        then have "\<exists>m'. r = Ok m' \<and> loaded m1 fs m'"
          using 1(1) load_put(1) [OF 1(3) [unfolded Cons] m1(2)] by blast
        then show ?thesis
          using load_put(2) [OF 1(3) [unfolded Cons] m1(2)] by (auto simp: Cons)
      qed
    qed
  qed
  with assms(2) show ?thesis by blast
qed

lemma load_files_stuck:
  assumes "loadable m files" and "\<not> parents_present m files"
  shows "load_files files m = None"
proof (rule ccontr)
  assume "load_files files m \<noteq> None"
  then obtain m' where m': "loaded m files m'"
    using load_files_all [OF _ assms(1)] by auto
  have "parents_present m files"
    unfolding parents_present_def
  proof (intro ballI)
    fix f
    assume "f \<in> set files"
    then have "mem_label m' (butlast (split_path f) @ [last (split_path f)]) \<noteq> None"
      using m' by (auto simp: loaded_def)
    from label_at_prefix [OF this]
    show "mem_label m (butlast (split_path f)) \<noteq> None \<or> butlast (split_path f) \<in> split_path ` set files"
      using m' unfolding loaded_def by metis
  qed
  with assms(2) show False ..
qed

section \<open>Loading the folders\<close>

definition empty_folder :: "fs_mem \<Rightarrow> string \<Rightarrow> bool" where
  "empty_folder m x \<longleftrightarrow> mem_label m [x] \<noteq> None \<and> (\<forall>q. q \<noteq> [] \<longrightarrow> mem_label m (x # q) = None)"

text \<open>The nodes with an old address are those that are not below one of the names.\<close>

definition old_nodes :: "string set \<Rightarrow> fs_mem \<Rightarrow> fs_mem \<Rightarrow> bool" where
  "old_nodes names m m' \<longleftrightarrow> fm_next m \<le> fm_next m' \<and>
     (\<forall>q l. mem_label m' q = Some l \<longrightarrow> fst l < fm_next m \<longrightarrow>
        mem_label m q = Some l \<and> (q = [] \<or> hd q \<notin> names))"

lemma put_folder:
  assumes "put_node [x] i ty m m'"
  shows "empty_folder m' x" "empty_folder m y \<Longrightarrow> empty_folder m' y" "old_nodes {x} m m'"
proof -
  have n: "fm_next m' = fm_next m + 1" using assms by (simp add: put_node_def)
  have lab: "mem_label m' q =
      (if q = [x] then Some (fm_next m, i, ty) else if prefix [x] q then None else mem_label m q)" for q
    using assms by (simp add: put_node_def)
  show "empty_folder m' x" "empty_folder m y \<Longrightarrow> empty_folder m' y"
    by (auto simp: empty_folder_def lab)
  have "mem_label m q = Some l \<and> (q = [] \<or> hd q \<notin> {x})"
    if "mem_label m' q = Some l" "fst l < fm_next m" for q l
    using that lab [of q] by (cases q) (auto split: if_splits)
  with n show "old_nodes {x} m m'" by (simp add: old_nodes_def)
qed

lemma old_nodes_trans: "old_nodes A m m1 \<Longrightarrow> old_nodes B m1 m' \<Longrightarrow> old_nodes (A \<union> B) m m'"
  unfolding old_nodes_def by (metis Un_iff order_less_le_trans order_trans)

lemma load_folders:
  assumes "\<And>f. f \<in> set folders \<Longrightarrow> folder_id_ok f" and "mem_wf m"
  obtains m' where "for_each folders fs_insert_folder m = (Ok m' :: (fs_mem, errno) result)" "mem_wf m'"
    "\<And>f. f \<in> set folders \<Longrightarrow> empty_folder m' (fol_id (gfo_folder f))"
    "old_nodes ((\<lambda>f. fol_id (gfo_folder f)) ` set folders) m m'"
    "\<And>i. i \<notin> folder_ino ` set folders \<Longrightarrow> fm_nodes m' i = fm_nodes m i"
proof -
  have "\<exists>m'. for_each folders fs_insert_folder m = (Ok m' :: (fs_mem, errno) result) \<and> mem_wf m' \<and>
      (\<forall>x. empty_folder m x \<longrightarrow> empty_folder m' x) \<and>
      (\<forall>f \<in> set folders. empty_folder m' (fol_id (gfo_folder f))) \<and>
      old_nodes ((\<lambda>f. fol_id (gfo_folder f)) ` set folders) m m' \<and>
      (\<forall>i. i \<notin> folder_ino ` set folders \<longrightarrow> fm_nodes m' i = fm_nodes m i)"
    using assms
  proof (induction folders arbitrary: m)
    case Nil
    then show ?case by (simp add: old_nodes_def)
  next
    case (Cons f folders)
    obtain m1 where m1: "fs_insert_folder f m = (Ok m1 :: (fs_mem, errno) result)"
      and p: "put_node [fol_id (gfo_folder f)] (folder_ino f) (Folder f) m m1"
      using fs_insert_folder_ok Cons.prems(1) by (metis list.set_intros(1))
    have nodes: "fm_nodes m1 = (fm_nodes m)(folder_ino f \<mapsto> fm_next m)" using p by (simp add: put_node_def)
    obtain m' where m': "for_each folders fs_insert_folder m1 = (Ok m' :: (fs_mem, errno) result)" "mem_wf m'"
      "\<forall>x. empty_folder m1 x \<longrightarrow> empty_folder m' x" "\<forall>f \<in> set folders. empty_folder m' (fol_id (gfo_folder f))"
      "old_nodes ((\<lambda>f. fol_id (gfo_folder f)) ` set folders) m1 m'"
      "\<forall>i. i \<notin> folder_ino ` set folders \<longrightarrow> fm_nodes m' i = fm_nodes m1 i"
      using Cons.IH [of m1] Cons.prems put_node_wf [OF p] by auto
    have "old_nodes ((\<lambda>f. fol_id (gfo_folder f)) ` set (f # folders)) m m'"
      using old_nodes_trans [OF put_folder(3) [OF p] m'(5)] by simp
    with m1 m' put_folder(1,2) [OF p] nodes show ?case by auto
  qed
  then show thesis using that by blast
qed

section \<open>The files of the database\<close>

fun join_slash :: "string list \<Rightarrow> string" where
  "join_slash [] = []"
| "join_slash [x] = x"
| "join_slash (x # xs) = x @ ''/'' @ join_slash xs"

lemma join_components: "join_slash (components acc s) = rev acc @ s"
proof (induction acc s rule: components.induct)
  case (2 acc c s)
  then show ?case by (cases "components [] s") auto
qed simp

lemma split_path_inj:
  "split_path f = split_path g \<longleftrightarrow> gfi_folder f = gfi_folder g \<and> fi_name (gfi_info f) = fi_name (gfi_info g)"
  by (simp add: split_path_def) (metis append_Nil join_components rev.simps(1))

text \<open>A file of the view stands for a row of the table.\<close>

definition view_of :: "file_row \<Rightarrow> grizol_file_info \<Rightarrow> bool" where
  "view_of r g \<longleftrightarrow> gfi_id g = fr_rowid r \<and> gfi_folder g = fst (fr_key r) \<and>
     gfi_info g = (fr_info r)\<lparr>fi_version := None, fi_blocks := []\<rparr>"

definition views_of :: "file_row list \<Rightarrow> (file_key \<times> grizol_file_info) list \<Rightarrow> bool" where
  "views_of rs al \<longleftrightarrow> distinct (map fst al) \<and> (\<forall>(k, g) \<in> set al. \<exists>r \<in> set rs. fr_key r = k \<and> view_of r g)"

lemma views_of_update:
  assumes "views_of rs al" and "r \<in> set rs" and "fr_key r = k" and "view_of r g"
  shows "views_of rs (AList.update k g al)"
  using assms by (auto simp: views_of_def distinct_update dest!: update_entries)

lemma add_location_row_views:
  assumes "views_of rs al" and "fst row \<in> set rs"
  shows "views_of rs (add_location_row row al)"
proof -
  obtain r loc where row: "row = (r, loc)" by (cases row)
  define g where "g = \<lparr>gfi_info = (fr_info r)\<lparr>fi_version := None, fi_blocks := []\<rparr>, gfi_id = fr_rowid r,
    gfi_locations = [], gfi_folder = fst (fr_key r)\<rparr>"
  define al' where "al' = (case map_of al (fr_key r) of Some _ \<Rightarrow> al | None \<Rightarrow> AList.update (fr_key r) g al)"
  have al': "views_of rs al'"
    using assms views_of_update [OF assms(1), of r "fr_key r" g]
    by (auto simp: al'_def row view_of_def g_def split: option.split)
  have "views_of rs (AList.update (fr_key r) (h\<lparr>gfi_locations := ls\<rparr>) al')" if h: "map_of al' (fr_key r) = Some h" for h ls
  proof -
    obtain r' where "r' \<in> set rs" "fr_key r' = fr_key r" "view_of r' h"
      using al' map_of_SomeD [OF h] by (auto simp: views_of_def)
    then show ?thesis by (intro views_of_update [OF al', of r']) (auto simp: view_of_def)
  qed
  moreover have "add_location_row row al = (case loc of
      None \<Rightarrow> al'
    | Some l \<Rightarrow> if lr_backend l = ''local'' then al'
        else case map_of al' (fr_key r) of
          None \<Rightarrow> al'
        | Some h \<Rightarrow> AList.update (fr_key r) (h\<lparr>gfi_locations := gfi_locations h @
            [\<lparr>floc_location = lr_location l, floc_backend = lr_backend l\<rparr>]\<rparr>) al')"
    unfolding add_location_row_def row al'_def g_def Let_def by simp
  ultimately show ?thesis using al' by (auto split: option.split)
qed

lemma files_fuse_views:
  "\<exists>al. views_of (filter (\<lambda>r. fst (snd (fr_key r)) = device_id) (db_files (bs_db st))) al \<and>
     files_fuse st device_id = map snd al"
proof -
  let ?rs = "filter (\<lambda>r. fst (snd (fr_key r)) = device_id) (db_files (bs_db st))"
  have "views_of ?rs (fold add_location_row rows al)" if "views_of ?rs al" "fst ` set rows \<subseteq> set ?rs" for rows al
    using that by (induction rows arbitrary: al) (simp_all add: add_location_row_views)
  moreover have "fst ` set (file_location_rows (bs_db st) device_id) \<subseteq> set ?rs"
    by (auto simp: file_location_rows_def split: list.splits)
  moreover have "views_of ?rs []" by (simp add: views_of_def)
  ultimately show ?thesis unfolding files_fuse_def by blast
qed

lemma files_fuse_distinct:
  assumes "db_wf (bs_db st)"
  shows "distinct (map split_path (files_fuse st device_id))" "distinct (map gfi_id (files_fuse st device_id))"
    "f \<in> set (files_fuse st device_id) \<Longrightarrow> \<exists>r \<in> set (db_files (bs_db st)). view_of r f \<and> fst (snd (fr_key r)) = device_id"
proof -
  let ?rs = "filter (\<lambda>r. fst (snd (fr_key r)) = device_id) (db_files (bs_db st))"
  obtain al where al: "views_of ?rs al" "files_fuse st device_id = map snd al"
    using files_fuse_views by blast
  have key: "\<exists>r \<in> set ?rs. fr_key r = k \<and> view_of r g" if "(k, g) \<in> set al" for k g
    using al(1) that by (auto simp: views_of_def)
  have name: "fi_name (fr_info r) = snd (snd (fr_key r))" if "r \<in> set ?rs" for r
    using assms that by (auto simp: db_wf_def)
  have row: "r = r'" if "r \<in> set ?rs" "r' \<in> set ?rs" "fr_rowid r = fr_rowid r'" for r r'
    using assms that by (auto simp: db_wf_def distinct_map inj_on_def)
  have d: "distinct al" using al(1) by (auto simp: views_of_def distinct_map)
  have same: "x = y" if "x \<in> set al" "y \<in> set al" "fst x = fst y" for x y
    using al(1) that by (auto simp: views_of_def distinct_map inj_on_def)
  have "inj_on (split_path \<circ> snd) (set al)"
  proof (rule inj_onI)
    fix x y
    assume xy: "x \<in> set al" "y \<in> set al" "(split_path \<circ> snd) x = (split_path \<circ> snd) y"
    obtain r r' where r: "r \<in> set ?rs" "fr_key r = fst x" "view_of r (snd x)"
      "r' \<in> set ?rs" "fr_key r' = fst y" "view_of r' (snd y)"
      using key [of "fst x" "snd x"] key [of "fst y" "snd y"] xy by auto
    have "fst (fr_key r) = fst (fr_key r')" "snd (snd (fr_key r)) = snd (snd (fr_key r'))"
      using xy(3) r name [OF r(1)] name [OF r(4)] by (simp_all add: split_path_inj view_of_def)
    moreover have "fst (snd (fr_key r)) = fst (snd (fr_key r'))" using r(1,4) by simp
    ultimately have "fst x = fst y" using r(2,5) by (metis prod.collapse)
    then show "x = y" using same xy by blast
  qed
  with d show "distinct (map split_path (files_fuse st device_id))" by (simp add: al(2) distinct_map)
  have "inj_on (gfi_id \<circ> snd) (set al)"
  proof (rule inj_onI)
    fix x y
    assume xy: "x \<in> set al" "y \<in> set al" "(gfi_id \<circ> snd) x = (gfi_id \<circ> snd) y"
    obtain r r' where r: "r \<in> set ?rs" "fr_key r = fst x" "view_of r (snd x)"
      "r' \<in> set ?rs" "fr_key r' = fst y" "view_of r' (snd y)"
      using key [of "fst x" "snd x"] key [of "fst y" "snd y"] xy by auto
    have "r = r'" using row [OF r(1,4)] r(3,6) xy(3) by (simp add: view_of_def)
    then show "x = y" using same xy r(2,5) by simp
  qed
  with d show "distinct (map gfi_id (files_fuse st device_id))" by (simp add: al(2) distinct_map)
  assume "f \<in> set (files_fuse st device_id)"
  then obtain k where "(k, f) \<in> set al" by (auto simp: al(2))
  from key [OF this] show "\<exists>r \<in> set (db_files (bs_db st)). view_of r f \<and> fst (snd (fr_key r)) = device_id" by auto
qed

section \<open>Refresh\<close>

text \<open>
  The directory of every file is one of the files: the path without its last component, unless that
  is only the folder.
\<close>

definition dirs_present :: "grizol_file_info list \<Rightarrow> bool" where
  "dirs_present files \<longleftrightarrow>
     (\<forall>f \<in> set files. length (components [] (fi_name (gfi_info f))) = 1 \<or>
        (\<exists>g \<in> set files. gfi_folder g = gfi_folder f \<and>
           components [] (fi_name (gfi_info g)) = butlast (components [] (fi_name (gfi_info f)))))"

text \<open>The database as the schema has it, with row numbers that fit into inode numbers.\<close>

definition view_wf :: "grizol_fs \<Rightarrow> bool" where
  "view_wf s \<longleftrightarrow>
     (let d = bs_db (fu_state s) in
      db_wf d \<and> mem_wf (fu_mem s) \<and> fst ` set (db_index d) \<subseteq> (\<lambda>r. fol_id (fo_info r)) ` set (db_folders d) \<and>
      (\<forall>r \<in> set (db_folders d). fo_rowid r < 2 ^ 32 - 10) \<and> (\<forall>r \<in> set (db_files d). fr_rowid r < 2 ^ 63))"

definition refresh_due :: "fuse_env \<Rightarrow> grizol_fs \<Rightarrow> bool" where
  "refresh_due env s \<longleftrightarrow> gc_fuse_refresh_rate_ms (fu_config s) \<le> fe_now env - fu_last s"

abbreviation db_files_of :: "grizol_fs \<Rightarrow> grizol_file_info list" where
  "db_files_of s \<equiv> files_fuse (fu_state s) (gc_local_device_id (fu_config s))"

abbreviation db_folders_of :: "grizol_fs \<Rightarrow> grizol_folder list" where
  "db_folders_of s \<equiv> top_folders_fuse (fu_state s) (gc_local_device_id (fu_config s))"

lemma view_folders_ok:
  assumes "view_wf s" and "f \<in> set (db_folders_of s)"
  shows "folder_id_ok f"
  using assms
  by (auto simp: view_wf_def top_folders_fuse_def Let_def folder_id_ok_def folder_ino_def entries_start_def
      top_dirs_start_def)

lemma view_files:
  assumes "view_wf s" and "f \<in> set (db_files_of s)"
  shows "file_id_ok f" "gfi_folder f \<in> (\<lambda>g. fol_id (gfo_folder g)) ` set (db_folders_of s)"
proof -
  let ?d = "bs_db (fu_state s)"
  have wf: "db_wf ?d" using assms(1) by (simp add: view_wf_def Let_def)
  then obtain r where r: "r \<in> set (db_files ?d)" "view_of r f" "fst (snd (fr_key r)) = gc_local_device_id (fu_config s)"
    using files_fuse_distinct(3) assms(2) by blast
  have "fr_rowid r < 2 ^ 63" using assms(1) r(1) by (auto simp: view_wf_def Let_def)
  then show "file_id_ok f" using r(2) by (simp add: view_of_def file_id_ok_def file_ino_def entries_start_def)
  have i: "(gfi_folder f, gc_local_device_id (fu_config s)) \<in> set (db_index ?d)"
    using wf r by (auto simp: db_wf_def view_of_def)
  then obtain g where "g \<in> set (db_folders ?d)" "fol_id (fo_info g) = gfi_folder f"
    using assms(1) by (force simp: view_wf_def Let_def)
  with i show "gfi_folder f \<in> (\<lambda>g. fol_id (gfo_folder g)) ` set (db_folders_of s)"
    by (force simp: top_folders_fuse_def Let_def image_iff)
qed

lemma butlast_split_path: "butlast (split_path f) = gfi_folder f # butlast (components [] (fi_name (gfi_info f)))"
  by (simp add: split_path_def)

lemma parents_present_dirs:
  assumes "\<And>f. f \<in> set files \<Longrightarrow> empty_folder m (gfi_folder f)"
  shows "parents_present m files \<longleftrightarrow> dirs_present files"
proof -
  have "mem_label m (butlast (split_path f)) \<noteq> None \<longleftrightarrow> length (components [] (fi_name (gfi_info f))) = 1"
    if "f \<in> set files" for f
  proof -
    have "butlast (components [] (fi_name (gfi_info f))) = [] \<longleftrightarrow> length (components [] (fi_name (gfi_info f))) = 1"
      by (cases "components [] (fi_name (gfi_info f))") auto
    then show ?thesis
      using assms [OF that] unfolding butlast_split_path empty_folder_def by metis
  qed
  moreover have "butlast (split_path f) \<in> split_path ` set files \<longleftrightarrow>
      (\<exists>g \<in> set files. gfi_folder g = gfi_folder f \<and>
         components [] (fi_name (gfi_info g)) = butlast (components [] (fi_name (gfi_info f))))" for f
    unfolding butlast_split_path by (auto simp: split_path_def image_iff) metis+
  ultimately show ?thesis by (simp add: parents_present_def dirs_present_def)
qed

definition refreshed :: "fuse_env \<Rightarrow> grizol_fs \<Rightarrow> fs_mem \<Rightarrow> grizol_fs" where
  "refreshed env s m = s\<lparr>fu_folders := db_folders_of s, fu_files := db_files_of s, fu_last := fe_now env, fu_mem := m\<rparr>"

lemma refresh_after_folders:
  assumes "view_wf s" and "refresh_due env s"
  obtains m where "loadable m (db_files_of s)" "parents_present m (db_files_of s) \<longleftrightarrow> dirs_present (db_files_of s)"
    "old_nodes ((\<lambda>f. fol_id (gfo_folder f)) ` set (db_folders_of s)) (fu_mem s) m"
    "\<And>i. i \<notin> folder_ino ` set (db_folders_of s) \<Longrightarrow> fm_nodes m i = fm_nodes (fu_mem s) i"
    "\<And>m'. load_files (db_files_of s) m = Some (Ok m') \<Longrightarrow>
       refresh_expired_folders_files env s = Some (refreshed env s m', Ok ())"
    "load_files (db_files_of s) m = None \<Longrightarrow> refresh_expired_folders_files env s = None"
proof -
  have wf: "db_wf (bs_db (fu_state s))" "mem_wf (fu_mem s)" using assms(1) by (simp_all add: view_wf_def Let_def)
  obtain m where m: "for_each (db_folders_of s) fs_insert_folder (fu_mem s) = (Ok m :: (fs_mem, errno) result)" "mem_wf m"
    "\<And>f. f \<in> set (db_folders_of s) \<Longrightarrow> empty_folder m (fol_id (gfo_folder f))"
    "old_nodes ((\<lambda>f. fol_id (gfo_folder f)) ` set (db_folders_of s)) (fu_mem s) m"
    "\<And>i. i \<notin> folder_ino ` set (db_folders_of s) \<Longrightarrow> fm_nodes m i = fm_nodes (fu_mem s) i"
    using load_folders [OF view_folders_ok [OF assms(1)] wf(2)] by blast
  have e: "empty_folder m (gfi_folder f)" if "f \<in> set (db_files_of s)" for f
    using view_files(2) [OF assms(1) that] m(3) by auto
  have "mem_label m (split_path f) = None" if "f \<in> set (db_files_of s)" for f
    using e [OF that] by (simp add: empty_folder_def split_path_def)
  then have "loadable m (db_files_of s)"
    using m(2) files_fuse_distinct(1,2) [OF wf(1)] view_files(1) [OF assms(1)] by (simp add: loadable_def)
  then show thesis
    using parents_present_dirs [OF e] m(1,4,5) assms(2)
    by (intro that [of m]) (simp_all add: refresh_expired_folders_files_def refresh_due_def refreshed_def Let_def)
qed

lemma refresh_returns:
  assumes "view_wf s" and "refresh_due env s" and "dirs_present (db_files_of s)"
  obtains m m' where "refresh_expired_folders_files env s = Some (refreshed env s m', Ok ())"
    "loaded m (db_files_of s) m'" "old_nodes ((\<lambda>f. fol_id (gfo_folder f)) ` set (db_folders_of s)) (fu_mem s) m"
    "\<And>i. i \<notin> folder_ino ` set (db_folders_of s) \<Longrightarrow> fm_nodes m i = fm_nodes (fu_mem s) i"
proof -
  obtain m where m: "loadable m (db_files_of s)" "parents_present m (db_files_of s)"
    "old_nodes ((\<lambda>f. fol_id (gfo_folder f)) ` set (db_folders_of s)) (fu_mem s) m"
    "\<And>i. i \<notin> folder_ino ` set (db_folders_of s) \<Longrightarrow> fm_nodes m i = fm_nodes (fu_mem s) i"
    "\<And>m'. load_files (db_files_of s) m = Some (Ok m') \<Longrightarrow>
       refresh_expired_folders_files env s = Some (refreshed env s m', Ok ())"
    using refresh_after_folders [OF assms(1,2)] assms(3) by metis
  obtain m' where "load_files (db_files_of s) m = Some (Ok m')" "loaded m (db_files_of s) m'"
    using load_files_returns [OF m(1,2)] by blast
  with m show thesis using that by blast
qed

lemma refresh_keeps_wf:
  assumes "view_wf s" and "loaded m files m'"
  shows "view_wf (refreshed env s m')"
  using assms by (simp add: view_wf_def refreshed_def loaded_def Let_def)

section \<open>Properties\<close>

definition sample_tree_row :: "nat \<Rightarrow> string \<Rightarrow> int \<Rightarrow> file_row" where
  "sample_tree_row i name t = \<lparr>fr_rowid = i, fr_key = (''f'', sample_device, name),
     fr_info = sample_file\<lparr>fi_name := name, fi_type := t, fi_sequence := int i, fi_version := None, fi_blocks := []\<rparr>\<rparr>"

definition sample_tree_db :: "file_row list \<Rightarrow> db" where
  "sample_tree_db rs = db_empty\<lparr>db_files := rs, db_index := [(''f'', sample_device)],
     db_folders := [\<lparr>fo_rowid = 1, fo_info = default_folder\<lparr>fol_id := ''f''\<rparr>\<rparr>]\<rparr>"

definition sample_fs :: "file_row list \<Rightarrow> grizol_fs" where
  "sample_fs rs = \<lparr>fu_state = bep_state_new (sample_tree_db rs), fu_config = sample_config, fu_last = 0,
     fu_folders = [], fu_files = [], fu_storage = sample_manager, fu_mem = fs_mem_new, fu_disk = Map.empty\<rparr>"

definition sample_fuse_env :: fuse_env where
  "sample_fuse_env = \<lparr>fe_now = 10, fe_time = 0, fe_os = os_works, fe_reads = \<lambda>_. 4, fe_rclone = \<lambda>_. Exited 0 [],
     fe_copied = \<lambda>_ fs. fs, fe_order = \<lambda>_ _. 0, fe_fits = \<lambda>_ _. True\<rparr>"

definition sample_dir_rows :: "file_row list" where
  "sample_dir_rows = [sample_tree_row 1 ''d/a'' 0, sample_tree_row 2 ''d'' 1]"


lemma sample_fs_wf:
  "view_wf (sample_fs sample_dir_rows)" "refresh_due sample_fuse_env (sample_fs rs)"
  "view_wf (sample_fs [sample_tree_row 1 ''d/a'' 0])"
  by (simp_all add: view_wf_def Let_def sample_fs_def sample_tree_db_def sample_dir_rows_def sample_tree_row_def
      bep_state_new_def db_wf_def db_empty_def file_keys_def mem_wf_new refresh_due_def sample_config_def
      default_folder_def sample_fuse_env_def)

lemma sample_fs_view:
  "db_files_of (sample_fs sample_dir_rows) =
     [\<lparr>gfi_info = fr_info (sample_tree_row 1 ''d/a'' 0), gfi_id = 1, gfi_locations = [], gfi_folder = ''f''\<rparr>,
      \<lparr>gfi_info = fr_info (sample_tree_row 2 ''d'' 1), gfi_id = 2, gfi_locations = [], gfi_folder = ''f''\<rparr>]"
  "db_files_of (sample_fs [sample_tree_row 1 ''d/a'' 0]) =
     [\<lparr>gfi_info = fr_info (sample_tree_row 1 ''d/a'' 0), gfi_id = 1, gfi_locations = [], gfi_folder = ''f''\<rparr>]"
  by (simp_all add: sample_fs_def sample_tree_db_def sample_dir_rows_def sample_tree_row_def bep_state_new_def
      db_empty_def sample_config_def files_fuse_def file_location_rows_def add_location_row_def)

lemma sample_dirs_present:
  "dirs_present (db_files_of (sample_fs sample_dir_rows))" "\<not> dirs_present (db_files_of (sample_fs [sample_tree_row 1 ''d/a'' 0]))"
  unfolding sample_fs_view by (simp_all add: dirs_present_def sample_tree_row_def)

lemma find_entry_file:
  assumes "distinct (map gfi_id files)" and "\<And>f. f \<in> set files \<Longrightarrow> file_id_ok f" and "f \<in> set files"
  shows "find_entry (file_ino f) files = Ok (Some f)"
  using assms unfolding find_entry_def
  by (induction files) (auto simp: file_ino_def)

lemma node_of_file_ino:
  assumes "loaded m files m'" and "f \<in> set files"
  shows "\<exists>n. node_of_ino m' (file_ino f) = Ok n \<and> node_type n = File f \<and> walk (fm_root m') (split_path f) = Some n"
proof -
  obtain a where a: "mem_label m' (split_path f) = Some (a, file_ino f, File f)" "fm_nodes m' (file_ino f) = Some a"
    using assms unfolding loaded_def by blast
  have "mem_wf m'" using assms(1) by (simp add: loaded_def)
  from upgrade_alive [OF this a(1)] a(2) show ?thesis
    by (auto simp: node_of_ino_def node_label_def)
qed

text \<open>
  Claim C14. The refresh of the tree ends exactly when the directory of every file is itself in the
  database; then the tree is well formed again.  With a directory missing the loop over the queue
  never ends.
\<close>

theorem refresh_returns_iff:
  assumes "view_wf s" and "refresh_due env s"
  shows "if dirs_present (db_files_of s)
    then \<exists>s'. refresh_expired_folders_files env s = Some (s', Ok ()) \<and> view_wf s' \<and> fu_files s' = db_files_of s
    else refresh_expired_folders_files env s = None"
proof (cases "dirs_present (db_files_of s)")
  case True
  then obtain m m' where m: "refresh_expired_folders_files env s = Some (refreshed env s m', Ok ())"
    "loaded m (db_files_of s) m'"
    using refresh_returns [OF assms] by metis
  have "fu_files (refreshed env s m') = db_files_of s" by (simp add: refreshed_def)
  with m refresh_keeps_wf [OF assms(1) m(2)] True show ?thesis by auto
next
  case False
  obtain m where m: "loadable m (db_files_of s)" "\<not> parents_present m (db_files_of s)"
    "load_files (db_files_of s) m = None \<Longrightarrow> refresh_expired_folders_files env s = None"
    using refresh_after_folders [OF assms] False by metis
  with load_files_stuck [OF m(1,2)] False show ?thesis by simp
qed

theorem refresh_returns_iff_witness:
  "(\<exists>s'. refresh_expired_folders_files sample_fuse_env (sample_fs sample_dir_rows) = Some (s', Ok ()) \<and> view_wf s' \<and>
      fu_files s' = db_files_of (sample_fs sample_dir_rows)) \<and>
   refresh_expired_folders_files sample_fuse_env (sample_fs [sample_tree_row 1 ''d/a'' 0]) = None"
  using refresh_returns_iff [OF sample_fs_wf(1) sample_fs_wf(2)]
    refresh_returns_iff [OF sample_fs_wf(3) sample_fs_wf(2)]
  unfolding if_P [OF sample_dirs_present(1)] if_not_P [OF sample_dirs_present(2)] by blast



text \<open>
  An inode number stays in the map after its file has left the database: the node behind it is gone,
  and asking for its attributes is a panic.
\<close>

lemma stale_inode_panics:
  assumes "view_wf s" and "refresh_due env s" and "dirs_present (db_files_of s)"
    and "mem_label (fu_mem s) (folder # p) = Some (a, i, ty)" and "fm_nodes (fu_mem s) i = Some a"
    and "folder \<in> (\<lambda>f. fol_id (gfo_folder f)) ` set (db_folders_of s)" and "entries_start \<le> i"
    and "i \<notin> file_ino ` set (db_files_of s)"
  shows "\<exists>s'. getattr_mem env s i = Some (s', Panic)"
proof -
  obtain m m' where r: "refresh_expired_folders_files env s = Some (refreshed env s m', Ok ())"
    and l: "loaded m (db_files_of s) m'"
    and o: "old_nodes ((\<lambda>f. fol_id (gfo_folder f)) ` set (db_folders_of s)) (fu_mem s) m"
    and n: "\<And>i. i \<notin> folder_ino ` set (db_folders_of s) \<Longrightarrow> fm_nodes m i = fm_nodes (fu_mem s) i"
    using refresh_returns [OF assms(1-3)] by metis
  have wf: "mem_wf (fu_mem s)" using assms(1) by (simp add: view_wf_def Let_def)
  have a: "a < fm_next (fu_mem s)" using wf assms(4) unfolding mem_wf_def by (metis fst_conv)
  have "i \<notin> folder_ino ` set (db_folders_of s)"
    using view_folders_ok [OF assms(1)] assms(7) by (force simp: folder_id_ok_def)
  then have i: "fm_nodes m' i = Some a" using n assms(5,8) l by (simp add: loaded_def)
  have "fst k \<noteq> a" if k: "mem_label m' q = Some k" for q k
  proof
    assume "fst k = a"
    show False
    proof (cases "q \<in> split_path ` set (db_files_of s)")
      case True
      then have "fm_next m \<le> fst k" using l k by (auto simp: loaded_def) fastforce
      with \<open>fst k = a\<close> a o show False by (simp add: old_nodes_def)
    next
      case False
      then have "mem_label m q = Some k" using l k by (simp add: loaded_def)
      then have q: "mem_label (fu_mem s) q = Some k" "q = [] \<or> hd q \<notin> (\<lambda>f. fol_id (gfo_folder f)) ` set (db_folders_of s)"
        using o \<open>fst k = a\<close> a unfolding old_nodes_def by blast+
      then have "q = folder # p" using wf assms(4) \<open>fst k = a\<close> unfolding mem_wf_def by (metis fst_conv)
      with q(2) assms(6) show False by simp
    qed
  qed
  then have "upgrade m' a = None" using upgrade_dead [of m' a] l by (auto simp: loaded_def)
  moreover have "i \<noteq> fuse_root_id" using assms(7) by (auto simp: fuse_root_id_def entries_start_def)
  ultimately show ?thesis
    using i by (simp add: getattr_mem_def after_refresh_def r refreshed_def node_of_ino_def)
qed

text \<open>The first call does not refresh when the rate is longer than ten seconds.\<close>

lemma first_call_not_refreshed:
  assumes "grizol_fs_new now rclone config st disk = Ok s" and "10000 < gc_fuse_refresh_rate_ms config"
    and "fe_now env = now" and "to_str name = Some name"
  shows "lookup_mem env s fuse_root_id name = Some (s, Err ENOENT)"
  using assms
  by (auto simp: grizol_fs_new_def checked_sub_eq_Ok lookup_mem_def after_refresh_def fuse_root_id_def
      refresh_expired_folders_files_def node_of_ino_def fs_mem_new_def upgrade_def)

text \<open>The variant on the lists does not look at the folder in which a name is looked up.\<close>

lemma lookup_db_ignores_folder:
  assumes "i < entries_start" "j < entries_start" and "i \<noteq> fuse_root_id" "j \<noteq> fuse_root_id"
  shows "lookup_db env s i name = lookup_db env s j name"
  using assms by (simp add: lookup_db_def parent_dir_def)

text \<open>A move in the tree to another folder gives the same name in the folder the file was in.\<close>

lemma rename_mem_ignores_folder:
  assumes "refresh_expired_folders_files env s = Some (s', Ok ())"
    and "dir_node (fu_mem s') i = Ok d" "node_type d = Folder f"
    and "dir_node (fu_mem s') j = Ok e" "node_type e = Folder g"
  shows "rename_mem env s orig orig_name i dest_name = rename_mem env s orig orig_name j dest_name"
  using assms by (cases "dir_node (fu_mem s') orig") (simp_all add: rename_mem_def after_refresh_def name_prefix_def)

end
