(* ===== verification/File_Reading.thy ===== *)
theory File_Reading
  imports File_Tree State_Operations "HOL-Library.Multiset"
begin

text \<open>
  Reading a file through the file system (\<^verbatim>\<open>read\<close> of \<^verbatim>\<open>src/src/fuse.rs\<close>): the refresh, the tree, the table of the
  read cache, the eviction, the copy from the backend and the reading of the local copy, composed.
\<close>

section \<open>The read cache\<close>

definition cache_used :: "db \<Rightarrow> nat" where
  "cache_used d = sum_list (map (\<lambda>f. nat (snd f)) (cached_files d))"

definition cached_path :: "storage_manager \<Rightarrow> cache_row \<Rightarrow> string" where
  "cached_path sm c = cache_path sm (fst (cr_key c)) (snd (snd (cr_key c)))"

text \<open>The cached files are on the disk, each at its own path, and together not larger than the cache.\<close>

definition cache_wf :: "grizol_fs \<Rightarrow> bool" where
  "cache_wf s \<longleftrightarrow>
     (let d = bs_db (fu_state s) in
      distinct (map cr_key (db_cache d)) \<and> (\<forall>f \<in> set (cached_files d). 0 \<le> snd f) \<and>
      cache_used d \<le> gc_read_cache_size (fu_config s) \<and>
      distinct (map (cached_path (fu_storage s)) (db_cache d)) \<and>
      cached_path (fu_storage s) ` set (db_cache d) \<subseteq> dom (fu_disk s))"

definition entries_of :: "db \<Rightarrow> cache_row \<Rightarrow> (cache_row \<times> int) list" where
  "entries_of d c = map (\<lambda>f. (c, fi_size (fr_info f))) (filter (\<lambda>f. fr_key f = cr_key c \<and> fi_type (fr_info f) = 0) (db_files d))"

lemma cached_files_entries: "cached_files d = sort_key (\<lambda>f. cr_timestamp (fst f)) (concat (map (entries_of d) (db_cache d)))"
  by (simp add: cached_files_def entries_of_def [abs_def])

lemma entries_of_cache [simp]: "entries_of (d\<lparr>db_cache := cs\<rparr>) = entries_of d"
  by (simp add: entries_of_def fun_eq_iff)

lemma cache_used_entries: "cache_used d = sum_list (map (\<lambda>f. nat (snd f)) (concat (map (entries_of d) (db_cache d))))"
proof -
  have "mset (map (\<lambda>f. nat (snd f)) (cached_files d)) = mset (map (\<lambda>f. nat (snd f)) (concat (map (entries_of d) (db_cache d))))"
    unfolding mset_map cached_files_entries mset_sort ..
  then show ?thesis unfolding cache_used_def by (metis sum_mset_sum_list)
qed

lemma fst_entries_of: "f \<in> set (entries_of d c) \<Longrightarrow> fst f = c"
  by (auto simp: entries_of_def)

text \<open>Without some of the entries, the cached files are the remaining ones.\<close>

lemma cached_files_filter:
  "cached_files (d\<lparr>db_cache := filter (\<lambda>r. P (cr_key r)) (db_cache d)\<rparr>) = filter (\<lambda>f. P (cr_key (fst f))) (cached_files d)"
proof -
  have one: "filter (\<lambda>f. P (cr_key (fst f))) (entries_of d c) = (if P (cr_key c) then entries_of d c else [])" for c
    using fst_entries_of by (auto simp: filter_id_conv filter_empty_conv)
  have "filter (\<lambda>f. P (cr_key (fst f))) (concat (map (entries_of d) cs)) =
      concat (map (entries_of d) (filter (\<lambda>r. P (cr_key r)) cs))" for cs
    by (induction cs) (simp_all add: one)
  then show ?thesis by (simp add: cached_files_entries filter_sort)
qed

lemma cached_files_range:
  "f \<in> set (cached_files d) \<longleftrightarrow> fst f \<in> set (db_cache d) \<and>
     (\<exists>r \<in> set (db_files d). fr_key r = cr_key (fst f) \<and> fi_type (fr_info r) = 0 \<and> snd f = fi_size (fr_info r))"
  by (cases f) (auto simp: cached_files_entries entries_of_def)

text \<open>A new entry takes at most the size of its file.\<close>

lemma cache_used_add:
  assumes "distinct (map fr_key (db_files d))" and "r \<in> set (db_files d)" and "fr_key r = cr_key c"
  shows "cache_used (d\<lparr>db_cache := db_cache d @ [c]\<rparr>) \<le> cache_used d + nat (fi_size (fr_info r))"
proof -
  have "sum_list (map (\<lambda>f. nat (fi_size (fr_info f))) (filter (\<lambda>f. fr_key f = cr_key c \<and> fi_type (fr_info f) = 0) rs))
      \<le> nat (fi_size (fr_info r))" if "distinct (map fr_key rs)" "\<forall>x \<in> set rs. fr_key x = cr_key c \<longrightarrow> x = r" for rs
    using that
  proof (induction rs)
    case (Cons x rs)
    show ?case
    proof (cases "fr_key x = cr_key c")
      case True
      then have "filter (\<lambda>f. fr_key f = cr_key c \<and> fi_type (fr_info f) = 0) rs = []"
        using Cons.prems(1) by (force simp: filter_empty_conv image_iff)
      with True Cons.prems show ?thesis by simp
    qed (use Cons in simp)
  qed simp
  moreover have "\<forall>x \<in> set (db_files d). fr_key x = cr_key c \<longrightarrow> x = r"
    using assms inj_onD [of fr_key "set (db_files d)"] by (auto simp: distinct_map)
  ultimately show ?thesis
    using assms(1) by (simp add: cache_used_entries entries_of_def comp_def)
qed

lemma is_cached_iff:
  assumes "distinct (map cr_key (db_cache (bs_db st)))"
  shows "is_file_in_read_cache st device_id folder name \<longleftrightarrow> (folder, device_id, name) \<in> cr_key ` set (db_cache (bs_db st))"
proof -
  have "length (filter (\<lambda>r. cr_key r = k) cs) = (if k \<in> cr_key ` set cs then 1 else 0)" if "distinct (map cr_key cs)" for k cs
    using that by (induction cs) (auto simp: filter_empty_conv)
  from this [OF assms] show ?thesis by (simp add: is_file_in_read_cache_def)
qed

section \<open>Making room\<close>

lemma free_cached_files_ok:
  "distinct (map (\<lambda>k. cache_path sm (fst k) (snd k)) ks) \<Longrightarrow> (\<lambda>k. cache_path sm (fst k) (snd k)) ` set ks \<subseteq> dom fs \<Longrightarrow>
   free_cached_files os_works sm ks fs = (fs |` (- (\<lambda>k. cache_path sm (fst k) (snd k)) ` set ks), Ok ())"
proof (induction ks arbitrary: fs)
  case Nil
  then show ?case by simp
next
  case (Cons k ks)
  let ?p = "\<lambda>k. cache_path sm (fst k) (snd k)"
  have rest: "?p ` set ks \<subseteq> dom (fs(?p k := None))"
    using Cons.prems by (simp add: subset_Diff_insert)
  have "remove_file os_works (?p k) fs = (fs(?p k := None), Ok ())"
    using Cons.prems(2) by (simp add: remove_file_def os_works_def)
  moreover have ih: "free_cached_files os_works sm ks (fs(?p k := None)) = ((fs(?p k := None)) |` (- ?p ` set ks), Ok ())"
    by (rule Cons.IH [OF _ rest]) (use Cons.prems(1) in simp)
  ultimately have "free_cached_files os_works sm (k # ks) fs = apsnd (\<lambda>r'. r') (free_cached_files os_works sm ks (fs(?p k := None)))"
    by (cases k) simp
  also have "\<dots> = ((fs(?p k := None)) |` (- ?p ` set ks), Ok ())"
    unfolding ih apsnd_conv ..
  finally have "free_cached_files os_works sm (k # ks) fs = ((fs(?p k := None)) |` (- ?p ` set ks), Ok ())" .
  moreover have "(fs(?p k := None)) |` (- ?p ` set ks) = fs |` (- ?p ` set (k # ks))"
    by (auto simp: restrict_map_def fun_eq_iff)
  ultimately show ?case by simp
qed

lemma cached_files_distinct:
  assumes "distinct (map fr_key (db_files d))" and "distinct (map cr_key (db_cache d))"
  shows "distinct (map fst (cached_files d))"
proof -
  have "length (filter (\<lambda>f. fr_key f = k \<and> Q f) rs) \<le> 1" if "distinct (map fr_key rs)" for k Q and rs :: "file_row list"
    using that by (induction rs) (auto simp: filter_empty_conv image_iff)
  from this [OF assms(1)] have short: "length (entries_of d c) \<le> 1" for c by (simp add: entries_of_def)
  have one: "map fst (entries_of d c) \<in> {[], [c]}" for c
    using short [of c] fst_entries_of [of _ d c] by (cases "entries_of d c"; cases "tl (entries_of d c)") (auto simp: le_Suc_eq)
  have "set (map fst (concat (map (entries_of d) cs))) \<subseteq> set cs \<and>
      (distinct cs \<longrightarrow> distinct (map fst (concat (map (entries_of d) cs))))" for cs
  proof (induction cs)
    case (Cons c cs)
    consider "map fst (entries_of d c) = []" | "map fst (entries_of d c) = [c]" using one [of c] by blast
    then show ?case
    proof cases
      case 1
      with Cons show ?thesis by auto
    next
      case 2
      define A where "A = map fst (concat (map (entries_of d) cs))"
      have "map fst (concat (map (entries_of d) (c # cs))) = c # A" using 2 by (simp add: A_def)
      then show ?thesis using Cons.IH [folded A_def] by auto
    qed
  qed simp
  then have "distinct (map fst (concat (map (entries_of d) (db_cache d))))"
    using assms(2) distinct_map [of cr_key "db_cache d"] by blast
  moreover have "mset (map fst (cached_files d)) = mset (map fst (concat (map (entries_of d) (db_cache d))))"
    unfolding mset_map cached_files_entries mset_sort ..
  ultimately show ?thesis using mset_eq_imp_distinct_iff by blast
qed

text \<open>Evicting keeps the cache sound and makes room for a file that fits the cache at all.\<close>

lemma make_room:
  assumes "cache_wf s" and "distinct (map fr_key (db_files (bs_db (fu_state s))))"
    and "needed \<le> gc_read_cache_size (fu_config s)"
  obtains d' removed disk where
    "free_read_cache (fu_state s) (gc_read_cache_size (fu_config s)) needed = Ok ((fu_state s)\<lparr>bs_db := d'\<rparr>, removed)"
    "free_cached_files os_works (fu_storage s) removed (fu_disk s) = (disk, Ok ())"
    "d' = (bs_db (fu_state s))\<lparr>db_cache := db_cache d'\<rparr>" "set (db_cache d') \<subseteq> set (db_cache (bs_db (fu_state s)))"
    "cache_wf (s\<lparr>fu_state := (fu_state s)\<lparr>bs_db := d'\<rparr>, fu_disk := disk\<rparr>)"
    "cache_used d' + needed \<le> gc_read_cache_size (fu_config s)"
proof -
  let ?d = "bs_db (fu_state s)" and ?cache_size = "gc_read_cache_size (fu_config s)"
  let ?rm = "evict (?cache_size - cache_used ?d) needed (cached_files ?d)"
  let ?K = "(\<lambda>f. cr_key (fst f)) ` set ?rm" and ?path = "cached_path (fu_storage s)"
  let ?d' = "?d\<lparr>db_cache := filter (\<lambda>r. cr_key r \<notin> ?K) (db_cache ?d)\<rparr>"
  let ?removed = "map (\<lambda>f. (fst (cr_key (fst f)), snd (snd (cr_key (fst f))))) ?rm"
  let ?disk = "fu_disk s |` (- ?path ` fst ` set ?rm)"
  have wf: "distinct (map cr_key (db_cache ?d))" "\<forall>f \<in> set (cached_files ?d). 0 \<le> snd f" "cache_used ?d \<le> ?cache_size"
    "distinct (map ?path (db_cache ?d))" "?path ` set (db_cache ?d) \<subseteq> dom (fu_disk s)"
    using assms(1) by (simp_all add: cache_wf_def Let_def)
  obtain rest where rest: "cached_files ?d = ?rm @ rest"
    "rest = [] \<or> needed \<le> ?cache_size - cache_used ?d + sum_list (map (\<lambda>f. nat (snd f)) ?rm)"
    using evict_split [of "cached_files ?d" "?cache_size - cache_used ?d" needed] by blast
  have sub: "set ?rm \<subseteq> set (cached_files ?d)" using arg_cong [OF rest(1), of set] by auto
  have fst_rm: "fst ` set ?rm \<subseteq> set (db_cache ?d)" using sub cached_files_range [of _ ?d] by auto
  have room: "cache_used ?d' + needed \<le> ?cache_size"
  proof -
    have "cached_files ?d' = filter (\<lambda>f. cr_key (fst f) \<notin> ?K) rest"
      unfolding cached_files_filter [of "\<lambda>k. k \<notin> ?K" ?d] by (subst rest(1)) (simp add: filter_empty_conv)
    then have "cache_used ?d' \<le> sum_list (map (\<lambda>f. nat (snd f)) rest)"
      by (simp add: cache_used_def sum_list_filter_le_nat)
    moreover have "cache_used ?d = sum_list (map (\<lambda>f. nat (snd f)) ?rm) + sum_list (map (\<lambda>f. nat (snd f)) rest)"
      using arg_cong [OF rest(1), of "\<lambda>fs. sum_list (map (\<lambda>f. nat (snd f)) fs)"]
      unfolding cache_used_def [of ?d, symmetric] map_append sum_list_append .
    ultimately show ?thesis using rest(2) wf(3) assms(3) by auto
  qed
  have free: "free_read_cache (fu_state s) ?cache_size needed = Ok ((fu_state s)\<lparr>bs_db := ?d'\<rparr>, ?removed)"
    using free_read_cache_evicts [OF wf(2), of ?cache_size needed] wf(3) by (simp add: Let_def cache_used_def)
  have paths: "map (\<lambda>k. cache_path (fu_storage s) (fst k) (snd k)) ?removed = map ?path (map fst ?rm)"
    by (simp add: cached_path_def)
  have "distinct (map fst (?rm @ rest))"
    using cached_files_distinct [OF assms(2) wf(1)] unfolding rest(1) [symmetric] .
  moreover have inj: "inj_on ?path (set (db_cache ?d))" using wf(4) by (simp add: distinct_map)
  ultimately have "distinct (map ?path (map fst ?rm))"
    using fst_rm by (auto simp: distinct_map intro!: comp_inj_on intro: inj_on_subset)
  then have "free_cached_files os_works (fu_storage s) ?removed (fu_disk s) =
      (fu_disk s |` (- set (map (\<lambda>k. cache_path (fu_storage s) (fst k) (snd k)) ?removed)), Ok ())"
    using free_cached_files_ok [of "fu_storage s" ?removed "fu_disk s"] fst_rm wf(5) unfolding set_map [symmetric] paths
    by auto
  then have disk: "free_cached_files os_works (fu_storage s) ?removed (fu_disk s) = (?disk, Ok ())"
    unfolding paths by (simp add: image_image)
  have "?path c \<in> dom ?disk" if c: "c \<in> set (db_cache ?d)" "cr_key c \<notin> ?K" for c
  proof -
    have "?path c \<noteq> ?path c'" if "c' \<in> fst ` set ?rm" for c'
      using c inj that fst_rm by (auto dest!: inj_onD [of ?path])
    then have "?path c \<notin> ?path ` fst ` set ?rm" by blast
    moreover have "?path c \<in> dom (fu_disk s)" using wf(5) c(1) by blast
    ultimately show ?thesis by (simp add: dom_restrict)
  qed
  moreover have "set (cached_files ?d') \<subseteq> set (cached_files ?d)"
    unfolding cached_files_filter [of "\<lambda>k. k \<notin> ?K" ?d] by auto
  ultimately have "cache_wf (s\<lparr>fu_state := (fu_state s)\<lparr>bs_db := ?d'\<rparr>, fu_disk := ?disk\<rparr>)"
    using wf room by (auto simp: cache_wf_def Let_def distinct_map_filter)
  then show thesis using that [OF free disk] room by auto
qed

section \<open>Reading\<close>

text \<open>
  The file has the content: in the cache when it is cached; otherwise the backend has it, \<^verbatim>\<open>rclone\<close> copies it
  to its path in the cache, and no other cached file has that path.
\<close>

definition readable :: "fuse_env \<Rightarrow> grizol_fs \<Rightarrow> grizol_file_info \<Rightarrow> bytes \<Rightarrow> bool" where
  "readable env s f content \<longleftrightarrow>
     (let sm = fu_storage s; folder = gfi_folder f; name = fi_name (gfi_info f); path = cache_path sm folder name;
          conf = config_location (gc_rclone_config (sm_config sm)) in
      if is_file_in_read_cache (fu_state s) (gc_local_device_id (fu_config s)) folder name
      then fu_disk s path = Some content
      else (\<exists>loc st out st' out'. find (\<lambda>x. floc_backend x = ''gcs'') (gfi_locations f) = Some loc \<and>
          fe_rclone env [conf, ''ls'', floc_location loc] = Exited st out \<and> out \<noteq> [] \<and>
          fe_rclone env [conf, ''copyto'', floc_location loc, path] = Exited st' out') \<and>
        (\<forall>disk. fe_copied env path disk = disk(path \<mapsto> content)) \<and>
        path \<notin> cached_path sm ` set (db_cache (bs_db (fu_state s))))"

text \<open>What a read leaves behind: a sound cache that holds the file.\<close>

definition cached_now :: "grizol_fs \<Rightarrow> grizol_file_info \<Rightarrow> bytes \<Rightarrow> bool" where
  "cached_now s f content \<longleftrightarrow> cache_wf s \<and>
     is_file_in_read_cache (fu_state s) (gc_local_device_id (fu_config s)) (gfi_folder f) (fi_name (gfi_info f)) \<and>
     fu_disk s (cache_path (fu_storage s) (gfi_folder f) (fi_name (gfi_info f))) = Some content"

lemma fetch_ok:
  assumes "cache_wf s" and "distinct (map fr_key (db_files (bs_db (fu_state s))))"
    and "\<not> is_file_in_read_cache (fu_state s) (gc_local_device_id (fu_config s)) (gfi_folder f) (fi_name (gfi_info f))"
    and "0 \<le> fi_size (gfi_info f)" and "nat (fi_size (gfi_info f)) \<le> gc_read_cache_size (fu_config s)"
    and "fe_os env = os_works" and "readable env s f content"
  obtains d disk where
    "fetch_to_cache env s f = (s\<lparr>fu_state := (fu_state s)\<lparr>bs_db := d\<rparr>,
       fu_disk := disk(cache_path (fu_storage s) (gfi_folder f) (fi_name (gfi_info f)) \<mapsto> content)\<rparr>, Ok ())"
    "d = (bs_db (fu_state s))\<lparr>db_cache := db_cache d\<rparr>" "set (db_cache d) \<subseteq> set (db_cache (bs_db (fu_state s)))"
    "cache_wf (s\<lparr>fu_state := (fu_state s)\<lparr>bs_db := d\<rparr>, fu_disk := disk\<rparr>)"
    "cache_used d + nat (fi_size (gfi_info f)) \<le> gc_read_cache_size (fu_config s)"
proof -
  let ?path = "cache_path (fu_storage s) (gfi_folder f) (fi_name (gfi_info f))"
  obtain d removed disk where room:
    "free_read_cache (fu_state s) (gc_read_cache_size (fu_config s)) (nat (fi_size (gfi_info f))) =
      Ok ((fu_state s)\<lparr>bs_db := d\<rparr>, removed)"
    "free_cached_files os_works (fu_storage s) removed (fu_disk s) = (disk, Ok ())"
    "d = (bs_db (fu_state s))\<lparr>db_cache := db_cache d\<rparr>" "set (db_cache d) \<subseteq> set (db_cache (bs_db (fu_state s)))"
    "cache_wf (s\<lparr>fu_state := (fu_state s)\<lparr>bs_db := d\<rparr>, fu_disk := disk\<rparr>)"
    "cache_used d + nat (fi_size (gfi_info f)) \<le> gc_read_cache_size (fu_config s)"
    using make_room [OF assms(1,2,5)] .
  have "cp_remote_to_read_cache (fe_rclone env) (fu_storage s) f (gfi_locations f) = Ok ?path"
    and copied: "fe_copied env ?path disk = disk(?path \<mapsto> content)"
    using assms(3,7) by (auto simp: readable_def Let_def cp_remote_to_read_cache_def run_rclone_def)
  then have "fetch_to_cache env s f =
      (s\<lparr>fu_state := (fu_state s)\<lparr>bs_db := d\<rparr>, fu_disk := disk(?path \<mapsto> content)\<rparr>, Ok ())"
    using assms(4,6) room(1,2) by (simp add: fetch_to_cache_def Let_def)
  then show thesis using that room(3-6) by blast
qed

text \<open>The new entry in the table of the cache.\<close>

lemma cache_wf_enter:
  assumes "cache_wf s" and "distinct (map fr_key (db_files (bs_db (fu_state s))))"
    and "r \<in> set (db_files (bs_db (fu_state s)))" and "fr_key r = cr_key c" and "0 \<le> fi_size (fr_info r)"
    and "cr_key c \<notin> cr_key ` set (db_cache (bs_db (fu_state s)))"
    and "cached_path (fu_storage s) c \<notin> cached_path (fu_storage s) ` set (db_cache (bs_db (fu_state s)))"
    and "cache_used (bs_db (fu_state s)) + nat (fi_size (fr_info r)) \<le> gc_read_cache_size (fu_config s)"
  shows "cache_wf (s\<lparr>fu_state := (fu_state s)\<lparr>bs_db := (bs_db (fu_state s))\<lparr>db_cache := db_cache (bs_db (fu_state s)) @ [c]\<rparr>\<rparr>,
    fu_disk := (fu_disk s)(cached_path (fu_storage s) c \<mapsto> content)\<rparr>)"
proof -
  let ?d = "bs_db (fu_state s)" and ?d' = "(bs_db (fu_state s))\<lparr>db_cache := db_cache (bs_db (fu_state s)) @ [c]\<rparr>"
  have wf: "\<forall>f \<in> set (cached_files ?d). 0 \<le> snd f" using assms(1) by (simp add: cache_wf_def Let_def)
  have "\<forall>x \<in> set (db_files ?d). fr_key x = cr_key c \<longrightarrow> x = r"
    using assms(2-4) inj_onD [of fr_key "set (db_files ?d)"] by (auto simp: distinct_map)
  note only = this
  have "0 \<le> snd g" if "g \<in> set (cached_files ?d')" for g
  proof (cases "fst g = c")
    case True
    then show ?thesis using that only assms(5) by (auto simp: cached_files_range)
  next
    case False
    then have "g \<in> set (cached_files ?d)" using that by (simp add: cached_files_range)
    then show ?thesis using wf by blast
  qed
  moreover have "cache_used ?d' \<le> gc_read_cache_size (fu_config s)"
    using cache_used_add [OF assms(2-4)] assms(8) by simp
  ultimately show ?thesis using assms(1,6,7) by (auto simp: cache_wf_def Let_def)
qed

lemma read_from_local_cache_ok:
  assumes "cache_wf s" and "distinct (map fr_key (db_files (bs_db (fu_state s))))"
    and "r \<in> set (db_files (bs_db (fu_state s)))"
    and "fr_key r = (gfi_folder f, gc_local_device_id (fu_config s), fi_name (gfi_info f))"
    and "fi_size (fr_info r) = fi_size (gfi_info f)"
    and "0 \<le> fi_size (gfi_info f)" and "nat (fi_size (gfi_info f)) \<le> gc_read_cache_size (fu_config s)"
    and "fe_os env = os_works" and "readable env s f content" and "0 \<le> off" and "\<And>p. sz \<le> fe_reads env p"
  shows "\<exists>s'. read_from_local_cache env s f off sz =
      (s', Ok (take sz (drop (nat off) content) @ replicate (sz - length (take sz (drop (nat off) content))) 0)) \<and>
    cached_now s' f content"
proof -
  let ?k = "(gfi_folder f, gc_local_device_id (fu_config s), fi_name (gfi_info f))"
  let ?path = "cache_path (fu_storage s) (gfi_folder f) (fi_name (gfi_info f))"
  let ?c = "\<lparr>cr_key = ?k, cr_timestamp = fe_time env\<rparr>"
  have known: "?k \<in> file_keys (bs_db (fu_state s))" using assms(3,4) unfolding file_keys_def by (metis image_eqI)
  have cached: "is_file_in_read_cache (fu_state t) (gc_local_device_id (fu_config t)) (gfi_folder f) (fi_name (gfi_info f)) \<longleftrightarrow>
      (gfi_folder f, gc_local_device_id (fu_config t), fi_name (gfi_info f)) \<in> cr_key ` set (db_cache (bs_db (fu_state t)))"
    if "cache_wf t" for t
    using that is_cached_iff by (simp add: cache_wf_def Let_def)
  note reading = read_cached_correct [of _ _ f _ off sz "fe_reads env", OF _ assms(10,11)]
  show ?thesis
  proof (cases "?k \<in> cr_key ` set (db_cache (bs_db (fu_state s)))")
    case True
    with assms(9) cached [OF assms(1)] have "fu_disk s ?path = Some content" by (simp add: readable_def Let_def)
    with True known cached [OF assms(1)] assms(1,8) reading show ?thesis
      by (simp add: read_from_local_cache_def update_read_cache_def cached_now_def Let_def)
  next
    case False
    obtain d disk where fetch: "fetch_to_cache env s f = (s\<lparr>fu_state := (fu_state s)\<lparr>bs_db := d\<rparr>,
        fu_disk := disk(?path \<mapsto> content)\<rparr>, Ok ())"
      and d: "d = (bs_db (fu_state s))\<lparr>db_cache := db_cache d\<rparr>" "set (db_cache d) \<subseteq> set (db_cache (bs_db (fu_state s)))"
      and wf: "cache_wf (s\<lparr>fu_state := (fu_state s)\<lparr>bs_db := d\<rparr>, fu_disk := disk\<rparr>)"
      and room: "cache_used d + nat (fi_size (gfi_info f)) \<le> gc_read_cache_size (fu_config s)"
      using fetch_ok [OF assms(1,2) _ assms(6-9)] cached [OF assms(1)] False by metis
    have files: "db_files d = db_files (bs_db (fu_state s))" by (subst d(1)) simp
    let ?s' = "s\<lparr>fu_state := (fu_state s)\<lparr>bs_db := d\<lparr>db_cache := db_cache d @ [?c]\<rparr>\<rparr>, fu_disk := disk(?path \<mapsto> content)\<rparr>"
    have new: "?k \<notin> cr_key ` set (db_cache d)" using False d(2) by blast
    have "?path \<notin> cached_path (fu_storage s) ` set (db_cache d)"
      using assms(9) cached [OF assms(1)] False d(2) by (auto simp: readable_def Let_def)
    then have ok: "cache_wf ?s'"
      using cache_wf_enter [OF wf, of r ?c content] assms(2-6) new room files by (simp add: cached_path_def)
    have "?k \<in> file_keys d" using known files by (simp add: file_keys_def)
    with False new fetch cached [OF assms(1)] assms(8) reading [of "disk(?path \<mapsto> content)" "fu_storage s"]
    have "read_from_local_cache env s f off sz =
      (?s', Ok (take sz (drop (nat off) content) @ replicate (sz - length (take sz (drop (nat off) content))) 0))"
      by (simp add: read_from_local_cache_def update_read_cache_def Let_def)
    moreover have "cached_now ?s' f content" using ok cached [OF ok] by (simp add: cached_now_def)
    ultimately show ?thesis by blast
  qed
qed

text \<open>
  A newer version of a file that arrives in an index leaves the entry of the cache, so the old content is still
  read.
\<close>

lemma insert_file_keeps_cache:
  assumes "insert_file lenient folder dev f d = Ok d'"
  shows "db_cache d' = db_cache d"
proof -
  obtain d1 d2 and v :: version_vector where d: "upsert_file (folder, dev, fi_name f) f d = Ok d1"
    "for_each (vec_counters v) (insert_version (folder, dev, fi_name f)) d1 = Ok d2"
    "for_each (fi_blocks f) (insert_block lenient (folder, dev, fi_name f)) d2 = Ok d'"
    using assms by (auto simp: insert_file_def Let_def)
  have "db_cache d1 = db_cache d" using d(1) by (auto simp: upsert_file_def split: if_splits)
  moreover have "db_cache d2 = db_cache d1"
    by (rule for_each_invariant [OF d(2)]) (auto simp: insert_version_def Let_def split: if_splits)
  moreover have "db_cache d' = db_cache d2"
    by (rule for_each_invariant [OF d(3)]) (auto simp: insert_block_def Let_def split: if_splits)
  ultimately show ?thesis by simp
qed

lemma insert_file_info_keeps_cache:
  assumes "insert_file_info st folder dev fs = Ok st'"
  shows "db_cache (bs_db st') = db_cache (bs_db st)"
proof -
  obtain st1 files d where assign: "assign_sequences st fs = Ok (st1, files)"
    and each: "for_each files (insert_file True folder dev) (bs_db st1) = Ok d" and st': "bs_db st' = d"
    using assms by (auto simp: insert_file_info_def)
  have "db_cache d = db_cache (bs_db st1)"
    by (rule for_each_invariant [OF each]) (auto dest: insert_file_keeps_cache)
  with st' assign_sequences_db [OF assign] show ?thesis by simp
qed

lemma old_content_read:
  assumes "insert_file_info st folder dev fs = Ok (fu_state s)"
    and "is_file_in_read_cache st (gc_local_device_id (fu_config s)) (gfi_folder f) (fi_name (gfi_info f))"
    and "(gfi_folder f, gc_local_device_id (fu_config s), fi_name (gfi_info f)) \<in> file_keys (bs_db (fu_state s))"
    and "fu_disk s (cache_path (fu_storage s) (gfi_folder f) (fi_name (gfi_info f))) = Some old_content"
    and "fe_os env = os_works" and "0 \<le> off" and "\<And>p. sz \<le> fe_reads env p"
  shows "snd (read_from_local_cache env s f off sz) =
    Ok (take sz (drop (nat off) old_content) @ replicate (sz - length (take sz (drop (nat off) old_content))) 0)"
proof -
  have cached: "is_file_in_read_cache (fu_state s) (gc_local_device_id (fu_config s)) (gfi_folder f) (fi_name (gfi_info f))"
    using assms(2) insert_file_info_keeps_cache [OF assms(1)] by (simp add: is_file_in_read_cache_def)
  then have "filter (\<lambda>r. cr_key r = (gfi_folder f, gc_local_device_id (fu_config s), fi_name (gfi_info f)))
      (db_cache (bs_db (fu_state s))) \<noteq> []"
    by (auto simp: is_file_in_read_cache_def)
  then have "(gfi_folder f, gc_local_device_id (fu_config s), fi_name (gfi_info f)) \<in> cr_key ` set (db_cache (bs_db (fu_state s)))"
    by (auto simp: filter_empty_conv image_iff) (metis)
  with cached assms(3,5) read_cached_correct [of "fu_disk s" "fu_storage s" f old_content off sz "fe_reads env", OF assms(4,6,7)] show ?thesis
    by (simp add: read_from_local_cache_def update_read_cache_def Let_def)
qed

lemma readable_refreshed: "readable env (refreshed env s m) f content \<longleftrightarrow> readable env s f content"
proof -
  have "fu_storage (refreshed env s m) = fu_storage s" "fu_state (refreshed env s m) = fu_state s"
    "fu_config (refreshed env s m) = fu_config s" "fu_disk (refreshed env s m) = fu_disk s"
    by (simp_all add: refreshed_def)
  then show ?thesis unfolding readable_def by (simp only:)
qed

section \<open>Properties\<close>


text \<open>A file on a backend, and another one in the cache that has to make room for it.\<close>

definition reading_fs :: grizol_fs where
  "reading_fs = (sample_fs [])\<lparr>fu_config := sample_config\<lparr>gc_read_cache_size := 8\<rparr>,
     fu_disk := [''/c/f/b'' \<mapsto> [7, 7, 7, 7, 7]],
     fu_state := bep_state_new ((sample_tree_db [sample_tree_row 1 ''a'' 0, sample_tree_row 2 ''b'' 0])\<lparr>
       db_locations := [\<lparr>lr_key = (''f'', sample_device, ''a''), lr_backend = ''gcs'', lr_location = ''gcs:r/f/a''\<rparr>],
       db_cache := [\<lparr>cr_key = (''f'', sample_device, ''b''), cr_timestamp = 1\<rparr>]\<rparr>)\<rparr>"

definition reading_env :: fuse_env where
  "reading_env = sample_fuse_env\<lparr>fe_rclone := \<lambda>_. Exited 0 [1], fe_copied := \<lambda>p disk. disk(p \<mapsto> [1, 2, 3, 4, 5])\<rparr>"

definition reading_file :: grizol_file_info where
  "reading_file = \<lparr>gfi_info = fr_info (sample_tree_row 1 ''a'' 0), gfi_id = 1,
     gfi_locations = [\<lparr>floc_location = ''gcs:r/f/a'', floc_backend = ''gcs''\<rparr>], gfi_folder = ''f''\<rparr>"

lemma reading_files:
  "db_files_of reading_fs = [reading_file, \<lparr>gfi_info = fr_info (sample_tree_row 2 ''b'' 0), gfi_id = 2, gfi_locations = [], gfi_folder = ''f''\<rparr>]"
  by (simp add: reading_fs_def reading_file_def sample_fs_def sample_tree_db_def sample_tree_row_def bep_state_new_def
      db_empty_def sample_config_def files_fuse_def file_location_rows_def add_location_row_def)

lemma reading_fs_wf: "view_wf reading_fs" "refresh_due reading_env reading_fs" "cache_wf reading_fs"
  by (auto simp: view_wf_def Let_def reading_fs_def sample_fs_def sample_tree_db_def sample_tree_row_def
      bep_state_new_def db_wf_def db_empty_def file_keys_def mem_wf_new refresh_due_def sample_config_def
      default_folder_def reading_env_def sample_fuse_env_def cache_wf_def cache_used_def cached_files_def
      sample_file_def cached_path_def cache_path_def rel_path_def sample_manager_def)


end
