(* ===== verification/File_Renaming.thy ===== *)
theory File_Renaming
  imports File_Tree
begin

text \<open>
  Renaming a file in the variant of the file system that works on the database (\<^verbatim>\<open>rename_db\<close> of
  \<^verbatim>\<open>src/src/fuse.rs\<close>): what the copy on the backends, the insertion under the new name, the locations and the removal of the
  old name do together.
\<close>

section \<open>Locations\<close>

lemma insert_locations_rows:
  assumes "k \<in> file_keys d"
  shows "\<exists>d'. for_each ls (insert_location k) d = Ok d' \<and> d' = d\<lparr>db_locations := db_locations d'\<rparr> \<and>
    set (db_locations d') = set (db_locations d) \<union> (\<lambda>l. \<lparr>lr_key = k, lr_backend = fst l, lr_location = snd l\<rparr>) ` set ls"
  using assms
proof (induction ls arbitrary: d)
  case (Cons l ls)
  let ?row = "\<lparr>lr_key = k, lr_backend = fst l, lr_location = snd l\<rparr>"
  obtain d1 where d1: "insert_location k l d = Ok d1" "d1 = d\<lparr>db_locations := db_locations d1\<rparr>"
    "set (db_locations d1) = insert ?row (set (db_locations d))"
  proof (cases "?row \<in> set (db_locations d)")
    case True
    then show ?thesis using that [of d] Cons.prems by (auto simp: insert_location_def Let_def)
  next
    case False
    then show ?thesis
      using that [of "d\<lparr>db_locations := db_locations d @ [?row]\<rparr>"] Cons.prems by (simp add: insert_location_def Let_def)
  qed
  have "k \<in> file_keys d1" using Cons.prems by (subst d1(2)) (simp add: file_keys_def)
  from Cons.IH [OF this] obtain d' where d': "for_each ls (insert_location k) d1 = Ok d'"
    "d' = d1\<lparr>db_locations := db_locations d'\<rparr>"
    "set (db_locations d') = set (db_locations d1) \<union> (\<lambda>l. \<lparr>lr_key = k, lr_backend = fst l, lr_location = snd l\<rparr>) ` set ls"
    by blast
  have "d' = d\<lparr>db_locations := db_locations d'\<rparr>" by (subst d'(2), subst d1(2)) simp
  with d1(1,3) d'(1,3) show ?case by auto
qed simp

section \<open>Moving\<close>

lemma insert_one_file:
  assumes "state_wf st" and "storable f" and "(folder, dev) \<in> set (db_index (bs_db st))"
    and "(folder, dev, fi_name f) \<notin> file_keys (bs_db st)" and "last_sequence st + 1 < 2 ^ 63"
  obtains st' where "insert_file_info st folder dev [f] = Ok st'"
    "bs_db st' = with_file (folder, dev, fi_name f) (f\<lparr>fi_sequence := last_sequence st + 1\<rparr>) (bs_db st)"
    "insertable folder dev (bs_db st) (f\<lparr>fi_sequence := last_sequence st + 1\<rparr>)"
proof -
  let ?f = "f\<lparr>fi_sequence := last_sequence st + 1\<rparr>"
  have ins: "insertable folder dev (bs_db st) ?f"
    using numbered_insertable [OF assms(1), of "[f]"] assms(2,3) by simp
  have "db_wf (bs_db st)" using assms(1) by (simp add: state_wf_def)
  then have "insert_file True folder dev ?f (bs_db st) = Ok (with_file (folder, dev, fi_name f) ?f (bs_db st))"
    using insert_file_new [OF _ ins] assms(4) by simp
  then show thesis
    using that ins by (simp add: insert_file_info_def next_sequence_id_eq [OF assms(5)])
qed

lemma file_info_known:
  assumes "bep_file_info st folder dev name = Some fi" and "db_wf (bs_db st)"
  shows "fi_name fi = name" "(folder, dev, name) \<in> file_keys (bs_db st)"
proof -
  show "(folder, dev, name) \<in> file_keys (bs_db st)"
    using assms(1) file_at_None [of "bs_db st" "(folder, dev, name)"] by (auto simp: bep_file_info_def)
  show "fi_name fi = name"
    using assms by (auto simp: bep_file_info_def file_at_def stored_file_def db_wf_def dest!: find_SomeD)
qed

lemma backend_commands_ok:
  assumes "\<And>cmd. \<exists>status out. rclone cmd = Exited status out"
  shows "storage_cp rclone sm f n f' n' = Ok (map (\<lambda>b. (b, remote_path sm b f' n')) (sm_storage_backends sm))"
    and "\<exists>out. rm_remote rclone sm f n = Ok out"
  unfolding storage_cp_def rm_remote_def using assms by (blast intro: for_backends_Ok)+

text \<open>
  Claim C28. When the backends can be reached and the new name is free, renaming never fails: the tables then
  hold the file with its blocks and versions under the new name, with a fresh sequence, and no longer under the old one, other files
  stay, and the locations of the new name are its paths on all backends.  But the blocks of the new name
  count as not stored, although the content is on the backends, so they will be requested from the peers again.
\<close>

theorem move_in_db_correct:
  assumes "state_wf (fu_state s)" and "dev = gc_local_device_id (fu_config s)"
    and "bep_file_info (fu_state s) orig_folder dev orig_name = Some fi" and "storable fi"
    and "(dest_folder, dev) \<in> set (db_index (bs_db (fu_state s)))" and "to_str dest_name = Some dest_name"
    and "path = name_in dest_dir dest_name" and "(dest_folder, dev, path) \<notin> file_keys (bs_db (fu_state s))"
    and "last_sequence (fu_state s) + 1 < 2 ^ 63" and "\<And>cmd. \<exists>status out. fe_rclone env cmd = Exited status out"
  shows "\<exists>s'. move_in_db env s orig_folder orig_name dest_folder dest_dir dest_name = (s', Ok ()) \<and>
    file_at (bs_db (fu_state s')) = (file_at (bs_db (fu_state s)))((orig_folder, dev, orig_name) := None,
      (dest_folder, dev, path) \<mapsto> fi\<lparr>fi_name := path, fi_sequence := last_sequence (fu_state s) + 1\<rparr>) \<and>
    {(lr_backend r, lr_location r) |r. r \<in> set (db_locations (bs_db (fu_state s'))) \<and> lr_key r = (dest_folder, dev, path)} =
      (\<lambda>b. (b, remote_path (fu_storage s) b dest_folder path)) ` set (sm_storage_backends (fu_storage s)) \<and>
    (\<forall>b \<in> set (fi_blocks fi). \<lparr>br_key = (dest_folder, dev, path), br_block = b, br_status = not_stored\<rparr>
      \<in> set (db_blocks (bs_db (fu_state s'))))"
proof -
  let ?st = "fu_state s" and ?k = "(orig_folder, dev, orig_name)" and ?k' = "(dest_folder, dev, path)"
  let ?f = "fi\<lparr>fi_name := path\<rparr>" and ?b = "sm_storage_backends (fu_storage s)"
  let ?g = "fi\<lparr>fi_name := path, fi_sequence := last_sequence ?st + 1\<rparr>"
  let ?res = "map (\<lambda>b. (b, remote_path (fu_storage s) b dest_folder path)) ?b"
  have wf: "db_wf (bs_db ?st)" using assms(1) by (simp add: state_wf_def)
  note old = file_info_known [OF assms(3) wf]
  have "storable ?f" using assms(4) by (simp add: storable_def)
  then obtain st1 where st1: "insert_file_info ?st dest_folder dev [?f] = Ok st1"
    "bs_db st1 = with_file ?k' ?g (bs_db ?st)" "insertable dest_folder dev (bs_db ?st) ?g"
    using insert_one_file [OF assms(1) _ assms(5), of ?f] assms(8,9) by auto
  have new: "?k' \<in> file_keys (bs_db st1)" by (simp add: st1(2) file_keys_with_file)
  from insert_locations_rows [OF new, of ?res] obtain d2 where d2: "for_each ?res (insert_location ?k') (bs_db st1) = Ok d2"
    "d2 = (bs_db st1)\<lparr>db_locations := db_locations d2\<rparr>"
    "set (db_locations d2) = set (db_locations (bs_db st1)) \<union>
       (\<lambda>l. \<lparr>lr_key = ?k', lr_backend = fst l, lr_location = snd l\<rparr>) ` set ?res"
    by (elim exE conjE)
  let ?st2 = "st1\<lparr>bs_db := d2\<rparr>"
  let ?s' = "s\<lparr>fu_state := rm_file_info ?st2 orig_folder dev orig_name\<rparr>"
  obtain out where rm: "rm_remote (fe_rclone env) (fu_storage s) orig_folder orig_name = (Ok out :: ((string \<times> string) list, errno) result)"
    using backend_commands_ok(2) [of "fe_rclone env", OF assms(10)] by blast
  have moved: "move_in_db env s orig_folder orig_name dest_folder dest_dir dest_name = (?s', Ok ())"
    using assms(2,3,6) assms(7) [symmetric] old(1) st1(1) d2(1) rm
    by (auto simp: backend_commands_ok(1) [of "fe_rclone env", OF assms(10)] move_in_db_def Let_def in_fuse_def numbering_def update_file_locations_def)
  have ne: "?k \<noteq> ?k'" using old(2) assms(8) by metis
  have look: "file_at d2 = (file_at (bs_db ?st))(?k' \<mapsto> ?g)"
    using file_at_with_file [OF wf st1(3) assms(8)] by (subst d2(2)) (simp add: st1(2))
  have "file_at (bs_db (fu_state ?s')) = (file_at (bs_db ?st))(?k := None, ?k' \<mapsto> ?g)"
    using ne by (auto simp: fun_eq_iff rm_file_info_def file_at_delete look)
  moreover have "lr_key r \<noteq> ?k'" if "r \<in> set (db_locations (bs_db st1))" for r
    using wf assms(8) that by (auto simp: st1(2) with_file_def db_wf_def)
  then have "{(lr_backend r, lr_location r) |r. r \<in> set (db_locations (bs_db (fu_state ?s'))) \<and> lr_key r = ?k'} =
      (\<lambda>b. (b, remote_path (fu_storage s) b dest_folder path)) ` set ?b"
    using ne by (force simp: rm_file_info_def delete_files_def d2(3))
  moreover have "db_blocks d2 = db_blocks (with_file ?k' ?g (bs_db ?st))" by (subst d2(2)) (simp add: st1(2))
  then have "\<forall>b \<in> set (fi_blocks fi). \<lparr>br_key = ?k', br_block = b, br_status = not_stored\<rparr> \<in> set (db_blocks (bs_db (fu_state ?s')))"
    using ne by (auto simp: rm_file_info_def delete_files_def with_file_def)
  ultimately show ?thesis using moved by blast
qed

definition renaming_fs :: grizol_fs where
  "renaming_fs = (sample_fs [])\<lparr>fu_state := sample_state 5 [sample_block 0]\<rparr>"

theorem move_in_db_correct_witness:
  "\<exists>s'. move_in_db sample_fuse_env renaming_fs ''f'' ''a'' ''f'' (Some ''d'') ''b'' = (s', Ok ()) \<and>
     file_at (bs_db (fu_state s')) (''f'', sample_device, ''a'') = None \<and>
     file_at (bs_db (fu_state s')) (''f'', sample_device, ''d/b'') \<noteq> None \<and>
     {(lr_backend r, lr_location r) |r. r \<in> set (db_locations (bs_db (fu_state s'))) \<and> lr_key r = (''f'', sample_device, ''d/b'')} =
       {(''gcs'', ''gcs:r/f/d/b'')} \<and>
     \<lparr>br_key = (''f'', sample_device, ''d/b''), br_block = sample_block 0, br_status = not_stored\<rparr> \<in> set (db_blocks (bs_db (fu_state s')))"
proof -
  have st: "fu_state renaming_fs = sample_state 5 [sample_block 0]" "gc_local_device_id (fu_config renaming_fs) = sample_device"
    "fu_storage renaming_fs = sample_manager"
    by (simp_all add: renaming_fs_def sample_fs_def sample_config_def)
  have wf: "state_wf (fu_state renaming_fs)" "last_sequence (fu_state renaming_fs) = 1"
    "(''f'', sample_device) \<in> set (db_index (bs_db (fu_state renaming_fs)))"
    "(''f'', sample_device, ''d/b'') \<notin> file_keys (bs_db (fu_state renaming_fs))"
    unfolding st by (simp_all add: state_wf_def sample_state_defs db_wf_def file_keys_def sequences_def last_sequence_def
        max_sequence_def)
  obtain fi where fi: "bep_file_info (fu_state renaming_fs) ''f'' sample_device ''a'' = Some fi" "storable fi"
    "fi_blocks fi = [sample_block 0]"
    unfolding st by (simp add: sample_state_defs bep_file_info_def file_at_def stored_file_def storable_def blocks_of_def
        counters_of_def)
  have n: "''d/b'' = name_in (Some ''d'') ''b''" "to_str ''b'' = Some ''b''" by (simp_all add: name_in_def to_str_def)
  have paths: "remote_path sample_manager ''gcs'' ''f'' ''d/b'' = ''gcs:r/f/d/b''" "sm_storage_backends sample_manager = [''gcs'']"
    by (simp_all add: remote_path_def rel_path_def sample_manager_def sample_config_def)
  have "\<exists>status out. fe_rclone sample_fuse_env cmd = Exited status out" for cmd by (simp add: sample_fuse_env_def)
  from move_in_db_correct [OF wf(1) st(2) [symmetric] fi(1,2) wf(3) n(2,1) wf(4) _ this] wf(2) show ?thesis
    unfolding fi(3) st(3) paths(2) list.set by (auto simp: paths(1))
qed

end
