(* ===== verification/Conflict_Names.thy ===== *)
theory Conflict_Names
  imports File_Tree
begin

text \<open>
  The name of the copy that keeps a conflicting version of a file (\<^verbatim>\<open>new_file_path\<close> of \<^verbatim>\<open>src/src/core/bep_state.rs\<close>),
  with the functions of \<^verbatim>\<open>std::path\<close> it uses, on the text of paths.  The date and the time are given as they are printed.
\<close>

section \<open>Definitions\<close>

text \<open>Empty segments and \<^verbatim>\<open>.\<close> at the end of a path do not count, except for the first segment.  The list is reversed.\<close>

fun drop_trivial :: "string list \<Rightarrow> string list" where
  "drop_trivial (x # y # xs) = (if x = '''' \<or> x = ''.'' then drop_trivial (y # xs) else x # y # xs)"
| "drop_trivial xs = xs"

definition path_segments :: "string \<Rightarrow> string list" where
  "path_segments path = drop_trivial (rev (components [] path))"

definition path_file_name :: "string \<Rightarrow> string option" where
  "path_file_name path =
     (case path_segments path of
        [] \<Rightarrow> None
      | x # _ \<Rightarrow> if x = '''' \<or> x = ''.'' \<or> x = ''..'' then None else Some x)"

text \<open>For a path with a file name.\<close>

definition path_parent :: "string \<Rightarrow> string" where
  "path_parent path =
     (case path_segments path of
        x # y # xs \<Rightarrow> (case drop_trivial (y # xs) of [''''] \<Rightarrow> ''/'' | ys \<Rightarrow> join_slash (rev ys))
      | _ \<Rightarrow> '''')"

text \<open>The stem and the extension of a file name: split at the last dot, unless that is its first character.\<close>

definition split_extension :: "string \<Rightarrow> string \<times> string option" where
  "split_extension name =
     (let after = takeWhile (\<lambda>c. c \<noteq> CHR ''.'') (rev name);
          before = drop (length after + 1) (rev name) in
      if CHR ''.'' \<notin> set name \<or> before = [] then (name, None) else (rev before, Some (rev after)))"

definition path_push :: "string \<Rightarrow> string \<Rightarrow> string" where
  "path_push path name = (if path = [] \<or> last path = CHR ''/'' then path @ name else path @ ''/'' @ name)"

definition new_file_path :: "string \<Rightarrow> string \<Rightarrow> string \<Rightarrow> string \<Rightarrow> (string, unit) result" where
  "new_file_path old_file_path device_id date time =
     and_then (unwrap_opt (path_file_name old_file_path)) (\<lambda>name.
     let (stem, extension) = split_extension name;
         extension = (case extension of Some x \<Rightarrow> ''.'' @ x | None \<Rightarrow> '''');
         new_name = stem @ ''.sync-conflict-'' @ date @ ''-'' @ time @ ''-'' @ device_id @ extension
     in Ok (path_push (path_push '''' (path_parent old_file_path)) new_name))"

section \<open>Examples\<close>

text \<open>The cases of the tests in the program, and paths that are not in normal form.\<close>

lemma new_file_path_tests:
  "new_file_path ''ABC'' ''deviceid'' ''19700102'' ''030405'' = Ok ''ABC.sync-conflict-19700102-030405-deviceid''"
  "new_file_path ''ABC/ABC'' ''deviceid'' ''19700102'' ''030405'' = Ok ''ABC/ABC.sync-conflict-19700102-030405-deviceid''"
  "new_file_path ''ABC/ABC.xyz'' ''deviceid'' ''19700102'' ''030405'' =
     Ok ''ABC/ABC.sync-conflict-19700102-030405-deviceid.xyz''"
  "new_file_path ''ABC.xyz'' ''deviceid'' ''19700102'' ''030405'' = Ok ''ABC.sync-conflict-19700102-030405-deviceid.xyz''"
  "new_file_path ''/.a//'' ''d'' ''1'' ''2'' = Ok ''/.a.sync-conflict-1-2-d''"
  "new_file_path ''a/..'' ''d'' ''1'' ''2'' = Panic"
  by code_simp+

section \<open>Names of files in directories\<close>

lemma components_no_slash: "CHR ''/'' \<notin> set s \<Longrightarrow> components acc s = [rev acc @ s]"
  by (induction s arbitrary: acc) auto

lemma components_slash: "CHR ''/'' \<notin> set n \<Longrightarrow> components acc (s @ ''/'' @ n) = components acc s @ [n]"
  by (induction s arbitrary: acc) (auto simp: components_no_slash)

text \<open>The copy is in the same directory, and has the same extension.\<close>

lemma new_file_path_in_directory:
  assumes "CHR ''/'' \<notin> set n" "n \<notin> {'''', ''.'', ''..''}"
    and "last (components [] dir) \<notin> {'''', ''.''}" and "split_extension n = (stem, ext)"
  shows "new_file_path (dir @ ''/'' @ n) device_id date time =
    Ok (dir @ ''/'' @ stem @ ''.sync-conflict-'' @ date @ ''-'' @ time @ ''-'' @ device_id @
      (case ext of Some x \<Rightarrow> ''.'' @ x | None \<Rightarrow> ''''))"
proof -
  obtain x xs where x: "rev (components [] dir) = x # xs" "x \<notin> {'''', ''.''}"
    using assms(3) components_not_Nil [of "[]" dir] by (metis hd_rev list.collapse rev_is_Nil_conv)
  have seg: "path_segments (dir @ ''/'' @ n) = n # x # xs"
    using components_slash [OF assms(1), of "[]" dir] assms(2) x(1) by (simp add: path_segments_def)
  have kept: "drop_trivial (x # xs) = x # xs" using x(2) by (cases xs) simp_all
  have dir: "join_slash (rev (x # xs)) = dir"
    using join_components [of "[]" dir] x(1) by (metis append_Nil rev.simps(1) rev_rev_ident)
  have "path_parent (dir @ ''/'' @ n) = join_slash (rev (x # xs))"
    using seg kept x(2) by (auto simp: path_parent_def split: list.split)
  then have parent: "path_parent (dir @ ''/'' @ n) = dir" unfolding dir .
  have name: "path_file_name (dir @ ''/'' @ n) = Some n" using seg assms(2) by (simp add: path_file_name_def)
  have "dir \<noteq> []" and "last dir \<noteq> CHR ''/''"
  proof -
    show "dir \<noteq> []" using assms(3) by auto
    show "last dir \<noteq> CHR ''/''"
    proof
      assume "last dir = CHR ''/''"
      then obtain d where "dir = d @ ''/'' @ []" using \<open>dir \<noteq> []\<close> by (metis append_butlast_last_id append_Nil2)
      then show False using assms(3) components_slash [of "[]" "[]" d] by simp
    qed
  qed
  then show ?thesis
    unfolding new_file_path_def name parent by (simp add: path_push_def Let_def assms(4))
qed

end
