(* ===== verification/Spec2Isabelle.thy ===== *)
theory Spec2Isabelle
  imports Base32_Reference Server Transfer_Tasks File_Reading File_Renaming Conflict_Names
begin

text \<open>
  A verification development for grizol, a client of the Block Exchange Protocol (BEP) that stores
  the files of its peers on remote backends and shows them through a file system.

  \<^bold>\<open>The program and its model.\<close>  A peer connects over TLS; its bytes are cut into messages
  (\<^verbatim>\<open>core/bep_data_parser.rs\<close>), every message goes to a handler (\<^verbatim>\<open>core/bep_processor.rs\<close>) that works on
  the state (\<^verbatim>\<open>core/bep_state.rs\<close>: tables, indices in memory, queue of requests) and on the storage
  (\<^verbatim>\<open>storage.rs\<close>, \<^verbatim>\<open>file_writer.rs\<close>), and the events of the handlers are written back to the peer
  (\<^verbatim>\<open>main.rs\<close>).  The file system (\<^verbatim>\<open>fuse.rs\<close>) reads the same tables and the same storage.  All file
  names are below \<^verbatim>\<open>src/src\<close>.

  \<^item> \<open>Grizol_Prelude\<close>: outcomes of functions with panics, slices, big-endian integers, and the
    collections of rules.  \<open>Ordered_Map\<close>: the interface of an ordered map and its list model.
  \<^item> \<open>Device_Id\<close>, \<open>Base32_Reference\<close> (\<^verbatim>\<open>device_id.rs\<close>): identifiers, check characters, printing and parsing.
    The base32 coder is the locale \<open>base32_codec\<close>, interpreted by RFC 4648.
  \<^item> \<open>Bep_Messages\<close>, \<open>Bep_Data_Parser\<close> (\<^verbatim>\<open>proto/bep.proto\<close>, \<^verbatim>\<open>core/bep_data_parser.rs\<close>): the messages, the
    parser with its buffers and states, and that it ends, does not panic and does not depend on how the
    stream is cut.
  \<^item> \<open>Connection\<close>, \<open>Proto3_Reference\<close> (\<^verbatim>\<open>main.rs\<close>): the serialisation of events and the reading loop.  The
    coders that \<^verbatim>\<open>prost\<close> generates are the locale \<open>prost_codec\<close>, interpreted by a proto3 coder; what is
    written is read back.
  \<^item> \<open>Outgoing_Requests\<close> (\<^verbatim>\<open>core/outgoing_requests.rs\<close>): the queue of requests as a transition system
    with the limits as its invariant, refined to an abstract queue (locale \<open>request_queue\<close>).
  \<^item> \<open>Indices\<close> (\<^verbatim>\<open>core/indices.rs\<close>): the indices in memory.
  \<^item> \<open>Database\<close>, \<open>Bep_State\<close>, \<open>State_Consistency\<close>, \<open>State_Operations\<close> (\<^verbatim>\<open>core/bep_state.rs\<close> and the
    migration): the tables with keys and cascades (locale \<open>file_table\<close>), every method of the state,
    the consistency of tables and memory, and the single operations.
  \<^item> \<open>Configuration\<close> (\<^verbatim>\<open>core.rs\<close>): the configuration with its defaults.  \<open>Connectivity\<close>
    (\<^verbatim>\<open>connectivity.rs\<close>, the beginning of \<^verbatim>\<open>handle_incoming_data\<close> in \<^verbatim>\<open>main.rs\<close>): the verifier of
    certificates, the configuration of TLS with certificates and key, and the interleaved hand-over of the identifier.
  \<^item> \<open>File_Writer\<close> (\<^verbatim>\<open>file_writer.rs\<close>): the writer of chunks, its calls as interleaved steps, and the join.
    \<open>Storage\<close> (\<^verbatim>\<open>storage.rs\<close>): the writers by path, the commands of \<^verbatim>\<open>rclone\<close>, the read cache.
  \<^item> \<open>Tasks\<close>: asynchronous code as a task, which returns or runs one critical section and goes on; schedules of
    several tasks, and what is kept by every section.
  \<^item> \<open>Bep_Processor\<close>, \<open>Index_Exchange\<close> (\<^verbatim>\<open>core/bep_processor.rs\<close>): the handlers as tasks, with one section for
    every time a lock is taken or the storage is called; the comparison of indices and the requests for missing
    blocks.
  \<^item> \<open>File_Transfer\<close>, \<open>Transfer_Tasks\<close>: the composition of handlers, state, storage and writer.  The tasks that
    handle the responses of a file, with their sections in any order, leave the file on the backends; a response that
    arrives twice can make its second task panic.
  \<^item> \<open>State_Invariant\<close>: the locale \<open>state_invariant\<close> has one law for every method of \<^verbatim>\<open>BepState\<close>, and shows that what
    all methods keep is kept by every section of every handler and by every call of the file system.  It is interpreted
    twice: \<open>Queue_Limits\<close> (the limits of the requests) and \<open>Table_Integrity\<close> (keys, references and sequence numbers
    of the tables).
  \<^item> \<open>Fuse\<close>, \<open>File_Tree\<close> (\<^verbatim>\<open>fuse.rs\<close>): the tree with weak references, the handlers in both variants; the
    refresh ends exactly when every directory is known, and then shows the database.  \<open>File_Reading\<close> composes the
    refresh, the read cache, the backends and the reading: the bytes of the content are returned and the cache stays within its size.
    \<open>File_Renaming\<close>: renaming through the database.
  \<^item> \<open>Conflict_Names\<close> (\<^verbatim>\<open>new_file_path\<close> of \<^verbatim>\<open>core/bep_state.rs\<close>): the names of conflicting copies, with the cases of the
    program's tests.  Its only caller fails an assertion before it is reached.
  \<^item> \<open>Connection_Tasks\<close>, \<open>Start_Up\<close>, \<open>Server\<close> (\<^verbatim>\<open>main.rs\<close>): the tasks of a connection, the start of the program, and
    the whole server as a transition system \<open>server_step\<close>: all connections with all their tasks, and the file system,
    on one shared state.  From the start, in every interleaving and whatever the peers send, the requests that are out stay
    within the limits, the bytes written are the events in the order of the channel, the tables stay intact, and
    nothing is read from a peer whose certificate is not configured.

  \<^bold>\<open>Conventions.\<close>  A Rust panic is the outcome \<open>Panic\<close>; arithmetic that overflows is a panic, as in a
  build with overflow checks, and casts with \<^verbatim>\<open>as\<close> wrap.  State is passed explicitly; an operation that
  changes state and may fail returns both.  Hash maps are association lists or functions; where the
  order of a walk matters it is an argument.  Code under a mutex is one critical section; between
  sections other tasks run.  A section that panics keeps the effects in memory it had so far, and the tables as they were
  before the transaction.  The time a handler reads from the clock is an argument of the handler.

  \<^bold>\<open>Loops.\<close>  Loops over lists are recursions on them.  The loop of the parser ends by a measure on the
  remaining bytes, the reading loop of the cache by the bytes still to be read, the walk through the
  tree by the size of the node.  The queue of the refresh may never become empty: it is a partial function with
  \<open>None\<close> for not ending, and both directions are proved.  So is the search for the key in a PEM file, which ends when
  every item takes something from the file.  No fuel is used; schedules that let every task of a transfer run ten
  times are enough, since a handler has at most ten sections.

  \<^bold>\<open>Parameters.\<close>  The generated coders and LZ4 (\<open>codec\<close>), base32 and SHA-256, the parser of sizes and
  certificate files (\<open>environment\<close>), PEM items and the checks of rustls (\<open>tls_env\<close>), the text format of the configuration,
  the socket and the opening of the database (\<open>main_env\<close>), the standard hasher, the operating system (\<open>os\<close>, with the calls that
  fail), \<^verbatim>\<open>rclone\<close>, the clocks, and the buffer of directory replies.

  \<^bold>\<open>Not modelled.\<close>  The TLS protocol itself, the logging, the command line and the key log, which only call libraries;
  the time between two pings; \<^verbatim>\<open>mount\<close>, which starts the session of the fuser crate, and \<^verbatim>\<open>_folder_from_ino\<close>,
  which is never called; the trait
  \<^verbatim>\<open>TimeSource\<close>, of which there is one instance, the clock; SQL beyond the statements of the program; the texts of logs and errors; code that
  is commented out; tests; the build script, which only generates the coders.  In the server, the file system is the
  calls it makes on the shared state, and what it does to the disk is shown in \<open>Fuse\<close> alone.
\<close>

end
